(* ===== verification/Nexus_Prelude.thy ===== *)
theory Nexus_Prelude
  imports Complex_Main
begin

text \<open>
  What every component shares: Python strings, the exceptions the code raises or lets
  pass, and the generic lemmas of lists and decimal numerals.

  A Python \<open>str\<close> is a sequence of Unicode code points, so it is a list of natural numbers
  here (\<open>pystr\<close>); \<open>u ''abc''\<close> is the literal \<open>"abc"\<close>. \<open>len\<close>, \<open>==\<close>, \<open>+\<close>, slicing and
  \<open>in\<close> are then the list operations. A Python \<open>int\<close> is an \<open>int\<close>. A Python \<open>float\<close> is a
  \<open>real\<close>: rounding, infinities and NaN are not modelled, and no property below
  depends on the last bit of a float.
\<close>

named_theorems nexus_defs
named_theorems literal_simps

subsection \<open>Strings\<close>

type_synonym pystr = "nat list"

definition u :: "string \<Rightarrow> pystr" where
  "u s = map of_char s"

lemma u_inj [simp]: "u s = u t \<longleftrightarrow> s = t"
  by (simp add: u_def inj_map_eq_map inj_on_def)

lemma u_Nil [simp]: "u [] = []"
  by (simp add: u_def)

lemma u_eq_Nil [simp]: "u s = [] \<longleftrightarrow> s = []" "[] = u s \<longleftrightarrow> s = []"
  by (simp_all add: u_def)

lemma length_u [simp]: "length (u s) = length s"
  by (simp add: u_def)

lemma u_append: "u (s @ t) = u s @ u t"
  by (simp add: u_def)

lemma u_Cons: "u (c # s) = of_char c # u s"
  by (simp add: u_def)

lemmas [literal_simps] = u_def

text \<open>The code points for which \<open>str.isspace()\<close> holds: what \<open>strip()\<close> and \<open>split()\<close> remove.\<close>

definition is_space :: "nat \<Rightarrow> bool" where
  "is_space c \<longleftrightarrow> (9 \<le> c \<and> c \<le> 13) \<or> (28 \<le> c \<and> c \<le> 32) \<or> c = 133 \<or> c = 160 \<or> c = 5760
     \<or> (8192 \<le> c \<and> c \<le> 8202) \<or> c = 8232 \<or> c = 8233 \<or> c = 8239 \<or> c = 8287 \<or> c = 12288"

definition strip :: "pystr \<Rightarrow> pystr" where
  "strip s = rev (dropWhile is_space (rev (dropWhile is_space s)))"

text \<open>\<open>s.split()\<close>: the maximal runs of non-space characters; the first argument is the
  run read so far, reversed.\<close>

fun split_ws_from :: "pystr \<Rightarrow> pystr \<Rightarrow> pystr list" where
  "split_ws_from acc [] = (if acc = [] then [] else [rev acc])"
| "split_ws_from acc (c # cs) =
     (if is_space c
      then (if acc = [] then split_ws_from [] cs else rev acc # split_ws_from [] cs)
      else split_ws_from (c # acc) cs)"

definition split_ws :: "pystr \<Rightarrow> pystr list" where
  "split_ws s = split_ws_from [] s"

text \<open>\<open>s.split(sep)\<close> for a one-character separator: empty pieces are kept.\<close>

fun split_on_from :: "nat \<Rightarrow> pystr \<Rightarrow> pystr \<Rightarrow> pystr list" where
  "split_on_from sep acc [] = [rev acc]"
| "split_on_from sep acc (c # cs) =
     (if c = sep then rev acc # split_on_from sep [] cs else split_on_from sep (c # acc) cs)"

definition split_on :: "nat \<Rightarrow> pystr \<Rightarrow> pystr list" where
  "split_on sep s = split_on_from sep [] s"

text \<open>\<open>sep.join(pieces)\<close>.\<close>

fun join_with :: "pystr \<Rightarrow> pystr list \<Rightarrow> pystr" where
  "join_with sep [] = []"
| "join_with sep [x] = x"
| "join_with sep (x # xs) = x @ sep @ join_with sep xs"

definition is_ascii :: "pystr \<Rightarrow> bool" where
  "is_ascii s \<longleftrightarrow> list_all (\<lambda>c. c < 128) s"

definition ascii_lower_char :: "nat \<Rightarrow> nat" where
  "ascii_lower_char c = (if 65 \<le> c \<and> c \<le> 90 then c + 32 else c)"

text \<open>\<open>s.lower()\<close> of an ASCII string.\<close>

definition ascii_lower :: "pystr \<Rightarrow> pystr" where
  "ascii_lower s = map ascii_lower_char s"

text \<open>A code point that is neither out of range nor a surrogate; UTF-8 can encode it.\<close>

definition is_scalar :: "nat \<Rightarrow> bool" where
  "is_scalar c \<longleftrightarrow> c < 1114112 \<and> \<not> (55296 \<le> c \<and> c \<le> 57343)"

definition scalar_str :: "pystr \<Rightarrow> bool" where
  "scalar_str s \<longleftrightarrow> list_all is_scalar s"

text \<open>The number of bytes of a code point in UTF-8; \<open>len(s.encode("utf-8"))\<close> for a string
  without surrogates.\<close>

definition utf8_width :: "nat \<Rightarrow> nat" where
  "utf8_width c = (if c < 128 then 1 else if c < 2048 then 2 else if c < 65536 then 3 else 4)"

definition utf8_length :: "pystr \<Rightarrow> nat" where
  "utf8_length s = sum_list (map utf8_width s)"

lemma utf8_length_ascii: "is_ascii s \<Longrightarrow> utf8_length s = length s"
  by (induction s) (auto simp: is_ascii_def utf8_length_def utf8_width_def)

lemma is_ascii_append [simp]: "is_ascii (s @ t) \<longleftrightarrow> is_ascii s \<and> is_ascii t"
  by (auto simp: is_ascii_def)

lemma is_ascii_scalar: "is_ascii s \<Longrightarrow> scalar_str s"
  by (induction s) (auto simp: is_ascii_def scalar_str_def is_scalar_def)

subsection \<open>Decimal numerals: \<open>str(n)\<close>\<close>

fun digits_of :: "nat \<Rightarrow> pystr" where
  "digits_of n = (if n < 10 then [48 + n] else digits_of (n div 10) @ [48 + n mod 10])"

declare digits_of.simps [simp del]

definition str_int :: "int \<Rightarrow> pystr" where
  "str_int n = (if n < 0 then 45 # digits_of (nat (- n)) else digits_of (nat n))"

fun value_of :: "pystr \<Rightarrow> nat" where
  "value_of s = foldl (\<lambda>v c. 10 * v + (c - 48)) 0 s"

declare value_of.simps [simp del]

lemma value_of_snoc: "value_of (s @ [c]) = 10 * value_of s + (c - 48)"
  by (simp add: value_of.simps)

lemma value_of_digits_of [simp]: "value_of (digits_of n) = n"
proof (induction n rule: digits_of.induct)
  case (1 n)
  show ?case
  proof (cases "n < 10")
    case True
    then show ?thesis by (simp add: digits_of.simps [of n] value_of.simps)
  next
    case False
    with "1" show ?thesis by (simp add: digits_of.simps [of n] value_of_snoc)
  qed
qed

lemma digits_of_inj [simp]: "digits_of m = digits_of n \<longleftrightarrow> m = n"
  by (metis value_of_digits_of)

lemma digits_of_range: "c \<in> set (digits_of n) \<Longrightarrow> 48 \<le> c \<and> c \<le> 57"
proof (induction n rule: digits_of.induct)
  case (1 n)
  show ?case
  proof (cases "n < 10")
    case True
    with "1.prems" show ?thesis by (simp add: digits_of.simps [of n])
  next
    case False
    with "1" show ?thesis by (auto simp: digits_of.simps [of n])
  qed
qed

lemma digits_of_nonempty [simp]: "digits_of n \<noteq> []"
  by (subst digits_of.simps) simp

lemma str_int_range: "c \<in> set (str_int n) \<Longrightarrow> c = 45 \<or> (48 \<le> c \<and> c \<le> 57)"
  by (auto simp: str_int_def dest: digits_of_range split: if_splits)

lemma str_int_nonempty [simp]: "str_int n \<noteq> []"
  by (simp add: str_int_def)

lemma minus_not_digits: "45 # s \<noteq> digits_of n"
proof
  assume eq: "45 # s = digits_of n"
  have "45 \<in> set (digits_of n)" unfolding eq [symmetric] by simp
  then show False using digits_of_range by fastforce
qed

lemma str_int_inj [simp]: "str_int m = str_int n \<longleftrightarrow> m = n"
  by (auto simp: str_int_def minus_not_digits minus_not_digits [symmetric])

subsection \<open>Exceptions\<close>

text \<open>
  The exceptions the modelled code raises, catches or lets pass. The \<open>LLMProvider...\<close>
  constructors are the classes of \<open>nexus/llm/errors.py\<close>; the others are built-in
  classes, FastAPI's \<open>HTTPException\<close> (status, detail, headers), and \<open>OtherError\<close> for any
  exception of a library or a test double that the code does not name.
\<close>

datatype exn =
    LLMProviderError pystr
  | LLMProviderTimeoutError pystr
  | LLMProviderRateLimitError pystr
  | LLMProviderAuthenticationError pystr
  | LLMProviderUnavailableError pystr
  | LLMProviderResponseError pystr
  | GatewayTimeoutError pystr
  | TimeoutError
  | ValueError pystr
  | TypeError pystr
  | KeyError
  | IndexError
  | AttributeError
  | RuntimeError pystr
  | OverflowError
  | UnicodeEncodeError
  | JSONDecodeError
  | HTTPException int pystr "(pystr \<times> pystr) list"
  | OtherError pystr

text \<open>\<open>isinstance(e, LLMProviderError)\<close>: the class hierarchy of \<open>errors.py\<close>.\<close>

fun is_provider_error :: "exn \<Rightarrow> bool" where
  "is_provider_error (LLMProviderError m) = True"
| "is_provider_error (LLMProviderTimeoutError m) = True"
| "is_provider_error (LLMProviderRateLimitError m) = True"
| "is_provider_error (LLMProviderAuthenticationError m) = True"
| "is_provider_error (LLMProviderUnavailableError m) = True"
| "is_provider_error (LLMProviderResponseError m) = True"
| "is_provider_error _ = False"

fun is_timeout_error :: "exn \<Rightarrow> bool" where
  "is_timeout_error (LLMProviderTimeoutError m) = True"
| "is_timeout_error _ = False"

fun is_rate_limit_error :: "exn \<Rightarrow> bool" where
  "is_rate_limit_error (LLMProviderRateLimitError m) = True"
| "is_rate_limit_error _ = False"

fun is_authentication_error :: "exn \<Rightarrow> bool" where
  "is_authentication_error (LLMProviderAuthenticationError m) = True"
| "is_authentication_error _ = False"

fun is_unavailable_error :: "exn \<Rightarrow> bool" where
  "is_unavailable_error (LLMProviderUnavailableError m) = True"
| "is_unavailable_error _ = False"

text \<open>\<open>isinstance(e, ValueError)\<close>: \<open>UnicodeEncodeError\<close> and \<open>JSONDecodeError\<close> are subclasses.\<close>

fun is_value_error :: "exn \<Rightarrow> bool" where
  "is_value_error (ValueError m) = True"
| "is_value_error UnicodeEncodeError = True"
| "is_value_error JSONDecodeError = True"
| "is_value_error _ = False"

subsection \<open>Results: \<open>Inl\<close> an exception, \<open>Inr\<close> a value\<close>

type_synonym 'a result = "exn + 'a"

text \<open>A sequence of computations that stops at the first exception, in list order.\<close>

fun collect :: "'a result list \<Rightarrow> 'a list result" where
  "collect [] = Inr []"
| "collect (Inl e # rs) = Inl e"
| "collect (Inr x # rs) = (case collect rs of Inl e \<Rightarrow> Inl e | Inr xs \<Rightarrow> Inr (x # xs))"

lemma collect_map_Inr [simp]: "collect (map (\<lambda>x. Inr (f x)) xs) = Inr (map f xs)"
  by (induction xs) simp_all

lemma collect_cong:
  "(\<And>x. x \<in> set xs \<Longrightarrow> g x = Inr (f x)) \<Longrightarrow> collect (map g xs) = Inr (map f xs)"
  by (induction xs) simp_all

text \<open>\<open>bytes(s, "utf-8")\<close> raises \<open>UnicodeEncodeError\<close> on a surrogate; else it succeeds.\<close>

definition utf8_encodable :: "pystr \<Rightarrow> unit result" where
  "utf8_encodable s = (if scalar_str s then Inr () else Inl UnicodeEncodeError)"

subsection \<open>Lists\<close>

text \<open>\<open>min(xs, key=f)\<close> of Python: the first element with the least key.\<close>

fun min_by :: "('a \<Rightarrow> 'b::linorder) \<Rightarrow> 'a \<Rightarrow> 'a list \<Rightarrow> 'a" where
  "min_by f best [] = best"
| "min_by f best (x # xs) = (if f x < f best then min_by f x xs else min_by f best xs)"

lemma min_by_mem: "min_by f b xs \<in> set (b # xs)"
  by (induction xs arbitrary: b) (auto split: if_splits)

lemma min_by_le: "x \<in> set (b # xs) \<Longrightarrow> f (min_by f b xs) \<le> f x"
proof (induction xs arbitrary: b x)
  case Nil
  then show ?case by simp
next
  case (Cons y ys)
  show ?case
  proof (cases "f y < f b")
    case True
    have "f (min_by f y ys) \<le> f y" by (rule Cons.IH) simp
    with True Cons.prems Cons.IH [of x y] show ?thesis by (cases "x = b") auto
  next
    case False
    have "f (min_by f b ys) \<le> f b" by (rule Cons.IH) simp
    with False Cons.prems Cons.IH [of x b] show ?thesis by (cases "x = y") auto
  qed
qed

text \<open>Ties go to the earlier element: everything before the chosen one has a larger key.\<close>

definition first_least :: "('a \<Rightarrow> 'b::linorder) \<Rightarrow> 'a list \<Rightarrow> 'a \<Rightarrow> bool" where
  "first_least f xs m \<longleftrightarrow>
     (\<exists>pre post. xs = pre @ m # post \<and> (\<forall>x \<in> set pre. f m < f x) \<and> (\<forall>x \<in> set post. f m \<le> f x))"

lemma first_least_Cons_less:
  assumes "first_least f (y # ys) m" and "f m < f b"
  shows "first_least f (b # y # ys) m"
proof -
  from assms(1) obtain pre post where
    "y # ys = pre @ m # post" "\<forall>x \<in> set pre. f m < f x" "\<forall>x \<in> set post. f m \<le> f x"
    by (auto simp: first_least_def)
  with assms(2) have "b # y # ys = (b # pre) @ m # post \<and> (\<forall>x \<in> set (b # pre). f m < f x)
      \<and> (\<forall>x \<in> set post. f m \<le> f x)" by simp
  then show ?thesis unfolding first_least_def by blast
qed

lemma first_least_insert:
  assumes "first_least f (b # ys) m" and "\<not> f y < f b"
  shows "first_least f (b # y # ys) m"
proof -
  from assms(1) obtain pre post where
    eq: "b # ys = pre @ m # post" and less: "\<forall>x \<in> set pre. f m < f x"
    and le: "\<forall>x \<in> set post. f m \<le> f x"
    by (auto simp: first_least_def)
  show ?thesis
  proof (cases pre)
    case Nil
    with eq le assms(2) have "b # y # ys = [] @ m # (y # post) \<and> (\<forall>x \<in> set (y # post). f m \<le> f x)"
      by auto
    then show ?thesis unfolding first_least_def by (metis empty_iff list.set(1))
  next
    case (Cons a as)
    with eq less le assms(2) have "b # y # ys = (b # y # as) @ m # post
      \<and> (\<forall>x \<in> set (b # y # as). f m < f x) \<and> (\<forall>x \<in> set post. f m \<le> f x)"
      by auto
    then show ?thesis unfolding first_least_def by blast
  qed
qed

lemma first_least_min_by: "first_least f (b # xs) (min_by f b xs)"
proof (induction xs arbitrary: b)
  case Nil
  have "[b] = [] @ b # []" by simp
  then show ?case unfolding first_least_def by (metis empty_iff list.set(1) min_by.simps(1))
next
  case (Cons y ys)
  show ?case
  proof (cases "f y < f b")
    case True
    have "f (min_by f y ys) \<le> f y" by (rule min_by_le) simp
    with True have "f (min_by f y ys) < f b" by simp
    with True first_least_Cons_less [OF Cons.IH [of y]] show ?thesis by simp
  next
    case False
    with first_least_insert [OF Cons.IH [of b] False] show ?thesis by simp
  qed
qed

lemma min_by_map:
  "(\<And>x. g (h x) = k x) \<Longrightarrow> min_by g (h b) (map h xs) = h (min_by k b xs)"
  by (induction xs arbitrary: b) simp_all

lemma first_least_map:
  assumes "first_least k xs x" and "\<And>y. g (h y) = k y"
  shows "first_least g (map h xs) (h x)"
proof -
  from assms(1) obtain pre post where "xs = pre @ x # post"
    "\<forall>y \<in> set pre. k x < k y" "\<forall>y \<in> set post. k x \<le> k y"
    by (auto simp: first_least_def)
  then have "map h xs = map h pre @ h x # map h post \<and> (\<forall>z \<in> set (map h pre). g (h x) < g z)
      \<and> (\<forall>z \<in> set (map h post). g (h x) \<le> g z)"
    by (simp add: assms(2))
  then show ?thesis unfolding first_least_def by blast
qed

lemma first_least_mem: "first_least f xs m \<Longrightarrow> m \<in> set xs"
  by (auto simp: first_least_def)

lemma first_least_le: "first_least f xs m \<Longrightarrow> x \<in> set xs \<Longrightarrow> f m \<le> f x"
  by (fastforce simp: first_least_def)

text \<open>The last \<open>n\<close> elements: what a Redis list keeps after \<open>LTRIM key -n -1\<close>.\<close>

definition last_n :: "nat \<Rightarrow> 'a list \<Rightarrow> 'a list" where
  "last_n n xs = drop (length xs - n) xs"

lemma length_last_n [simp]: "length (last_n n xs) = min n (length xs)"
  by (simp add: last_n_def min_def)

lemma last_n_snoc: "0 < n \<Longrightarrow> last_n n (last_n n xs @ [x]) = last_n n (xs @ [x])"
proof -
  assume n: "0 < n"
  show ?thesis
  proof (cases "length xs \<le> n")
    case True
    then show ?thesis by (simp add: last_n_def)
  next
    case False
    with n have "length xs + 1 - n = (length xs - n) + 1" and "length xs - n + 1 \<le> length xs"
      by simp_all
    moreover have "length (last_n n xs @ [x]) - n = 1" using False by (simp add: last_n_def)
    ultimately show ?thesis using False
      by (simp add: last_n_def add.commute)
  qed
qed

lemma last_n_idem [simp]: "last_n n (last_n n xs) = last_n n xs"
  by (simp add: last_n_def)

end
