(* ===== verification/Llm_Types.thy ===== *)
theory Llm_Types
  imports Nexus_Prelude
begin

text \<open>
  The data the LLM components exchange: requests and responses (\<open>nexus/llm/models.py\<close>),
  provider objects as the router and the gateway see them (\<open>nexus/llm/protocol.py\<close>), and
  the observable effects of the code: Prometheus metrics (\<open>nexus/observability\<close>), spans
  and awaited calls, recorded in a log in the order the code performs them.
\<close>

subsection \<open>Requests and responses\<close>

record llm_request =
  prompt :: pystr
  req_model :: "pystr option"
  max_tokens :: int
  temperature :: real

record llm_response =
  content :: pystr
  resp_model :: pystr
  input_tokens :: int
  output_tokens :: int

text \<open>\<open>LLMRequest(prompt=p)\<close> and \<open>LLMResponse(content=c, model=m)\<close>: the other fields have
  their defaults.\<close>

definition mk_request :: "pystr \<Rightarrow> llm_request" where
  "mk_request p = \<lparr>prompt = p, req_model = None, max_tokens = 512, temperature = 0\<rparr>"

definition mk_response :: "pystr \<Rightarrow> pystr \<Rightarrow> llm_response" where
  "mk_response c m = \<lparr>content = c, resp_model = m, input_tokens = 0, output_tokens = 0\<rparr>"

lemma mk_response_sel [simp]:
  "content (mk_response c m) = c" "resp_model (mk_response c m) = m"
  by (simp_all add: mk_response_def)

lemma mk_request_sel [simp]: "prompt (mk_request p) = p"
  by (simp add: mk_request_def)

subsection \<open>Provider objects\<close>

text \<open>
  A provider object: its identity (what \<open>is\<close> compares), its \<open>name\<close> attribute when that is a
  string, and the name of its class. Class names of the program are ASCII.
\<close>

record provider =
  prov_id :: nat
  prov_name :: "pystr option"
  prov_class :: pystr

subsection \<open>Metrics and spans\<close>

text \<open>The metrics of \<open>llm_metrics.py\<close>, \<open>cache_metrics.py\<close> and \<open>metrics.py\<close>, under their names
  in the code.\<close>

datatype metric =
    LLM_REQUESTS_TOTAL
  | LLM_REQUEST_DURATION_SECONDS
  | LLM_ERRORS_TOTAL
  | LLM_RETRIES_TOTAL
  | LLM_FALLBACKS_TOTAL
  | LLM_PROVIDER_REQUESTS
  | LLM_PROVIDER_SUCCESS_RATE
  | LLM_PROVIDER_ERROR_RATE
  | LLM_PROVIDER_AVERAGE_LATENCY_SECONDS
  | LLM_PROVIDER_CONSECUTIVE_FAILURES
  | LLM_PROVIDER_HEALTHY
  | LLM_PROVIDER_SCORE
  | LLM_PROVIDER_SELECTED_TOTAL
  | CACHE_OPERATIONS_TOTAL
  | CACHE_OPERATION_DURATION_SECONDS
  | SEMANTIC_CACHE_HITS_TOTAL
  | SEMANTIC_CACHE_MISSES_TOTAL
  | HTTP_REQUESTS_TOTAL
  | HTTP_REQUEST_DURATION_SECONDS

datatype metric_kind = Counter | Gauge | Histogram

fun llm_metric_spec :: "metric \<Rightarrow> (metric_kind \<times> string list) option" where
  "llm_metric_spec LLM_REQUESTS_TOTAL = Some (Counter, [''provider'', ''status''])"
| "llm_metric_spec LLM_REQUEST_DURATION_SECONDS = Some (Histogram, [''provider''])"
| "llm_metric_spec LLM_ERRORS_TOTAL = Some (Counter, [''provider'', ''error_type''])"
| "llm_metric_spec LLM_RETRIES_TOTAL = Some (Counter, [''provider'', ''error_type''])"
| "llm_metric_spec LLM_FALLBACKS_TOTAL = Some (Counter, [''from_provider'', ''to_provider''])"
| "llm_metric_spec LLM_PROVIDER_REQUESTS = Some (Gauge, [''provider''])"
| "llm_metric_spec LLM_PROVIDER_SUCCESS_RATE = Some (Gauge, [''provider''])"
| "llm_metric_spec LLM_PROVIDER_ERROR_RATE = Some (Gauge, [''provider''])"
| "llm_metric_spec LLM_PROVIDER_AVERAGE_LATENCY_SECONDS = Some (Gauge, [''provider''])"
| "llm_metric_spec LLM_PROVIDER_CONSECUTIVE_FAILURES = Some (Gauge, [''provider''])"
| "llm_metric_spec LLM_PROVIDER_HEALTHY = Some (Gauge, [''provider''])"
| "llm_metric_spec LLM_PROVIDER_SCORE = Some (Gauge, [''provider''])"
| "llm_metric_spec LLM_PROVIDER_SELECTED_TOTAL = Some (Counter, [''provider''])"
| "llm_metric_spec _ = None"

fun cache_metric_spec :: "metric \<Rightarrow> (metric_kind \<times> string list) option" where
  "cache_metric_spec CACHE_OPERATIONS_TOTAL = Some (Counter, [''operation'', ''status''])"
| "cache_metric_spec CACHE_OPERATION_DURATION_SECONDS = Some (Histogram, [''operation''])"
| "cache_metric_spec SEMANTIC_CACHE_HITS_TOTAL = Some (Counter, [])"
| "cache_metric_spec SEMANTIC_CACHE_MISSES_TOTAL = Some (Counter, [])"
| "cache_metric_spec _ = None"

fun http_metric_spec :: "metric \<Rightarrow> (metric_kind \<times> string list) option" where
  "http_metric_spec HTTP_REQUESTS_TOTAL = Some (Counter, [''method'', ''route'', ''status_code''])"
| "http_metric_spec HTTP_REQUEST_DURATION_SECONDS = Some (Histogram, [''method'', ''route''])"
| "http_metric_spec _ = None"

definition metric_spec :: "metric \<Rightarrow> (metric_kind \<times> string list) option" where
  "metric_spec m = (case llm_metric_spec m of Some s \<Rightarrow> Some s
     | None \<Rightarrow> (case cache_metric_spec m of Some s \<Rightarrow> Some s | None \<Rightarrow> http_metric_spec m))"

datatype attr_value = AStr pystr | AInt int | AFloat real | ABool bool

text \<open>
  \<open>Inc m ls\<close> is \<open>m.labels(**ls).inc()\<close>, \<open>Observe\<close> and \<open>SetGauge\<close> are \<open>observe(v)\<close> and \<open>set(v)\<close>.
  A \<open>with tracer.start_as_current_span(n)\<close> block is \<open>SpanStart n\<close> to \<open>SpanEnd n\<close>; the three
  span operations name the span they are called on. \<open>ProviderCall\<close> is an awaited
  \<open>provider.generate(request)\<close>, \<open>Sleep\<close> an awaited \<open>asyncio.sleep\<close>.
\<close>

datatype effect =
    Inc metric "(string \<times> pystr) list"
  | Observe metric "(string \<times> pystr) list" real
  | SetGauge metric "(string \<times> pystr) list" real
  | SpanStart pystr
  | SpanEnd pystr
  | SpanAttr pystr pystr attr_value
  | SpanEvent pystr pystr "(pystr \<times> attr_value) list"
  | SpanException pystr exn
  | ProviderCall provider llm_request
  | Sleep real

text \<open>\<open>labels()\<close> raises unless its keyword arguments are exactly the metric's label names, and
  only the operation of the metric's kind exists on it.\<close>

fun well_labelled :: "effect \<Rightarrow> bool" where
  "well_labelled (Inc m ls) = (metric_spec m = Some (Counter, map fst ls))"
| "well_labelled (Observe m ls v) = (metric_spec m = Some (Histogram, map fst ls))"
| "well_labelled (SetGauge m ls v) = (metric_spec m = Some (Gauge, map fst ls))"
| "well_labelled _ = True"

text \<open>The same with the metrics of \<open>llm_metrics.py\<close> only.\<close>

fun llm_labelled :: "effect \<Rightarrow> bool" where
  "llm_labelled (Inc m ls) = (llm_metric_spec m = Some (Counter, map fst ls))"
| "llm_labelled (Observe m ls v) = (llm_metric_spec m = Some (Histogram, map fst ls))"
| "llm_labelled (SetGauge m ls v) = (llm_metric_spec m = Some (Gauge, map fst ls))"
| "llm_labelled _ = True"

lemma llm_labelled_well: "llm_labelled x \<Longrightarrow> well_labelled x"
  by (cases x) (simp_all add: metric_spec_def)

lemma llm_labelled_all_well: "list_all llm_labelled es \<Longrightarrow> list_all well_labelled es"
  by (auto simp: list_all_iff llm_labelled_well)

text \<open>Counting in a log: the value by which a counter grew.\<close>

definition incs :: "metric \<Rightarrow> (string \<times> pystr) list \<Rightarrow> effect list \<Rightarrow> nat" where
  "incs m ls es = count_list es (Inc m ls)"

lemma incs_simps [simp]:
  "incs m ls [] = 0"
  "incs m ls (e # es) = (if e = Inc m ls then Suc (incs m ls es) else incs m ls es)"
  "incs m ls (es @ fs) = incs m ls es + incs m ls fs"
  by (simp_all add: incs_def)

fun is_call :: "effect \<Rightarrow> bool" where
  "is_call (ProviderCall p req) = True"
| "is_call _ = False"

fun called :: "effect list \<Rightarrow> provider list" where
  "called [] = []"
| "called (ProviderCall p req # es) = p # called es"
| "called (e # es) = called es"

lemma called_append [simp]: "called (es @ fs) = called es @ called fs"
  by (induction es rule: called.induct) simp_all

fun sleeps :: "effect list \<Rightarrow> real list" where
  "sleeps [] = []"
| "sleeps (Sleep d # es) = d # sleeps es"
| "sleeps (e # es) = sleeps es"

lemma sleeps_append [simp]: "sleeps (es @ fs) = sleeps es @ sleeps fs"
  by (induction es rule: sleeps.induct) simp_all

end
