(* ===== verification/Router.thy ===== *)
theory Router
  imports Llm_Types
begin

text \<open>
  The performance-aware provider router of \<open>nexus/llm/routing/router.py\<close>: the statistics of
  each provider name, the scores derived from them, the selection, and the health check
  with its recovery cooldown. The router's state is the record \<open>router\<close>; the operations
  that mutate it return the new one.

  \<open>monotonic()\<close> is a reading handed to the operation. Where one operation reads the clock
  several times it takes a function \<open>clk\<close>: the reading at its \<open>i\<close>-th point of use is
  \<open>clk i\<close>, so that time may pass between two readings.
\<close>

subsection \<open>Statistics of one provider\<close>

record provider_stats =
  requests :: int
  successes :: int
  failures :: int
  total_latency_seconds :: real
  consecutive_failures :: int
  last_failure_at :: "real option"

definition fresh_stats :: provider_stats where
  "fresh_stats = \<lparr>requests = 0, successes = 0, failures = 0, total_latency_seconds = 0,
     consecutive_failures = 0, last_failure_at = None\<rparr>"

definition success_rate :: "provider_stats \<Rightarrow> real" where
  "success_rate s =
     (if requests s = 0 then 1 else real_of_int (successes s) / real_of_int (requests s))"

definition error_rate :: "provider_stats \<Rightarrow> real" where
  "error_rate s =
     (if requests s = 0 then 0 else real_of_int (failures s) / real_of_int (requests s))"

definition average_latency_seconds :: "provider_stats \<Rightarrow> real" where
  "average_latency_seconds s =
     (if successes s = 0 then 0 else total_latency_seconds s / real_of_int (successes s))"

definition is_healthy :: "provider_stats \<Rightarrow> bool" where
  "is_healthy s \<longleftrightarrow> consecutive_failures s < 3"

text \<open>The bodies of \<open>record_success\<close> and \<open>record_failure\<close> on the statistics they fetched.\<close>

definition stats_success :: "real \<Rightarrow> provider_stats \<Rightarrow> provider_stats" where
  "stats_success latency s = s\<lparr>
     requests := requests s + 1,
     successes := successes s + 1,
     total_latency_seconds := total_latency_seconds s + latency,
     consecutive_failures := 0,
     last_failure_at := None\<rparr>"

definition stats_failure :: "real \<Rightarrow> provider_stats \<Rightarrow> provider_stats" where
  "stats_failure now s = s\<lparr>
     requests := requests s + 1,
     failures := failures s + 1,
     consecutive_failures := consecutive_failures s + 1,
     last_failure_at := Some now\<rparr>"

definition FAILURE_THRESHOLD :: int where
  "FAILURE_THRESHOLD = 3"

definition stats_available :: "real \<Rightarrow> real \<Rightarrow> provider_stats \<Rightarrow> bool" where
  "stats_available cooldown now s =
     (if consecutive_failures s < FAILURE_THRESHOLD then True
      else (case last_failure_at s of
              None \<Rightarrow> False
            | Some t \<Rightarrow> now - t \<ge> cooldown))"

text \<open>The score formula of \<open>_score_provider\<close>: lower is better.\<close>

definition stats_score :: "provider_stats \<Rightarrow> real" where
  "stats_score s =
     (if requests s = 0 then 1
      else (if average_latency_seconds s > 0 then average_latency_seconds s else 1)
             + (1 - success_rate s))"

text \<open>What every operation keeps between the fields.\<close>

definition stats_inv :: "provider_stats \<Rightarrow> bool" where
  "stats_inv s \<longleftrightarrow>
     0 \<le> successes s \<and> 0 \<le> consecutive_failures s
     \<and> consecutive_failures s \<le> failures s
     \<and> requests s = successes s + failures s
     \<and> 0 \<le> total_latency_seconds s
     \<and> (successes s = 0 \<longrightarrow> total_latency_seconds s = 0)
     \<and> (last_failure_at s = None \<longleftrightarrow> consecutive_failures s = 0)"

lemma stats_inv_fresh [simp]: "stats_inv fresh_stats"
  by (simp add: stats_inv_def fresh_stats_def)

lemma stats_inv_success: "stats_inv s \<Longrightarrow> 0 \<le> l \<Longrightarrow> stats_inv (stats_success l s)"
  by (simp add: stats_inv_def stats_success_def)

lemma stats_inv_failure: "stats_inv s \<Longrightarrow> stats_inv (stats_failure t s)"
  by (simp add: stats_inv_def stats_failure_def)

lemma rates_sum: "stats_inv s \<Longrightarrow> success_rate s + error_rate s = 1"
  by (simp add: stats_inv_def success_rate_def error_rate_def flip: add_divide_distrib)

lemma success_rate_bounds: "stats_inv s \<Longrightarrow> 0 \<le> success_rate s \<and> success_rate s \<le> 1"
  by (auto simp: stats_inv_def success_rate_def)

lemma error_rate_bounds: "stats_inv s \<Longrightarrow> 0 \<le> error_rate s \<and> error_rate s \<le> 1"
  using rates_sum [of s] success_rate_bounds [of s] by linarith

lemma average_latency_nonneg: "stats_inv s \<Longrightarrow> 0 \<le> average_latency_seconds s"
  by (auto simp: stats_inv_def average_latency_seconds_def)

lemma stats_score_pos: "stats_inv s \<Longrightarrow> 0 < stats_score s"
  using success_rate_bounds [of s] by (auto simp: stats_score_def)

lemma stats_score_never_succeeded:
  "stats_inv s \<Longrightarrow> 0 < requests s \<Longrightarrow> successes s = 0 \<Longrightarrow> stats_score s = 2"
  by (simp add: stats_score_def average_latency_seconds_def success_rate_def)

subsection \<open>The circuit breaker, as an interface\<close>

text \<open>
  What the router promises about health, stated over any state with a failure streak: a
  success clears the streak, a failure lengthens it and stamps the time, and below the
  threshold the provider is always admitted, at or above it only once the cooldown has
  passed since the last failure.
\<close>

locale breaker =
  fixes streak :: "'s \<Rightarrow> int"
    and stamp :: "'s \<Rightarrow> real option"
    and good :: "real \<Rightarrow> 's \<Rightarrow> 's"
    and bad :: "real \<Rightarrow> 's \<Rightarrow> 's"
    and admits :: "real \<Rightarrow> real \<Rightarrow> 's \<Rightarrow> bool"
    and threshold :: int
  assumes streak_good: "streak (good l s) = 0"
    and streak_bad: "streak (bad t s) = streak s + 1"
    and stamp_bad: "stamp (bad t s) = Some t"
    and admits_closed: "streak s < threshold \<Longrightarrow> admits cooldown now s"
    and admits_open: "threshold \<le> streak s \<Longrightarrow> stamp s = Some t
      \<Longrightarrow> admits cooldown now s \<longleftrightarrow> cooldown \<le> now - t"
    and threshold_pos: "0 < threshold"
begin

lemma streak_bads: "streak (fold bad ts s) = streak s + int (length ts)"
  by (induction ts arbitrary: s) (simp_all add: streak_bad)

lemma stamp_bads: "stamp (fold bad (ts @ [t]) s) = Some t"
  by (simp add: stamp_bad)

lemma trips:
  assumes "0 \<le> streak s" and "threshold \<le> int (length ts) + 1"
  shows "admits cooldown now (fold bad (ts @ [t]) s) \<longleftrightarrow> cooldown \<le> now - t"
proof (rule admits_open)
  show "threshold \<le> streak (fold bad (ts @ [t]) s)"
    using assms by (simp only: streak_bads) simp
  show "stamp (fold bad (ts @ [t]) s) = Some t" by (rule stamp_bads)
qed

lemma stays_closed:
  assumes "streak s = 0" and "int (length ts) < threshold"
  shows "admits cooldown now (fold bad ts s)"
  using assms by (intro admits_closed) (simp add: streak_bads)

lemma recovers: "admits cooldown now (good l s)"
  by (rule admits_closed) (simp add: streak_good threshold_pos)

lemma closed_after_recovery:
  "int (length ts) < threshold \<Longrightarrow> admits cooldown now (fold bad ts (good l s))"
  by (rule stays_closed) (simp_all add: streak_good)

end

interpretation sb: breaker consecutive_failures last_failure_at stats_success stats_failure
  stats_available FAILURE_THRESHOLD
  by unfold_locales
    (auto simp: stats_success_def stats_failure_def stats_available_def FAILURE_THRESHOLD_def)

subsection \<open>The router's state and lookups\<close>

record provider_score =
  provider_name :: pystr
  score :: real
  score_average_latency_seconds :: real
  score_success_rate :: real
  healthy :: bool

record router =
  rt_providers :: "provider list"
  rt_cooldown :: real
  rt_stats :: "pystr \<rightharpoonup> provider_stats"

text \<open>\<open>ProviderRouter._provider_name\<close>: a non-empty string \<open>name\<close>, else the class name in
  lower case.\<close>

definition router_name :: "provider \<Rightarrow> pystr" where
  "router_name p =
     (case prov_name p of
        Some n \<Rightarrow> (if n \<noteq> [] then n else ascii_lower (prov_class p))
      | None \<Rightarrow> ascii_lower (prov_class p))"

definition new_router :: "provider list \<Rightarrow> real \<Rightarrow> router result" where
  "new_router providers cooldown =
     (if providers = [] then Inl (ValueError (u ''at least one LLM provider is required''))
      else if cooldown \<le> 0 then Inl (ValueError (u ''recovery cooldown must be positive''))
      else Inr \<lparr>rt_providers = providers, rt_cooldown = cooldown,
                rt_stats = map_of (map (\<lambda>p. (router_name p, fresh_stats)) providers)\<rparr>)"

definition lookup_stats :: "router \<Rightarrow> provider \<Rightarrow> provider_stats result" where
  "lookup_stats r p =
     (case rt_stats r (router_name p) of
        Some s \<Rightarrow> Inr s
      | None \<Rightarrow> Inl (ValueError (u ''provider is not managed by this router: '' @ router_name p)))"

text \<open>\<open>get_stats\<close> copies field by field; values are immutable here, so the copy is the value.\<close>

definition get_stats :: "router \<Rightarrow> provider \<Rightarrow> provider_stats result" where
  "get_stats r p =
     (case lookup_stats r p of
        Inl e \<Rightarrow> Inl e
      | Inr s \<Rightarrow> Inr \<lparr>requests = requests s, successes = successes s, failures = failures s,
          total_latency_seconds = total_latency_seconds s,
          consecutive_failures = consecutive_failures s, last_failure_at = last_failure_at s\<rparr>)"

fun find_named :: "pystr \<Rightarrow> provider list \<Rightarrow> provider option" where
  "find_named n [] = None"
| "find_named n (p # ps) = (if router_name p = n then Some p else find_named n ps)"

definition provider_by_name :: "router \<Rightarrow> pystr \<Rightarrow> provider result" where
  "provider_by_name r n =
     (case find_named n (rt_providers r) of
        Some p \<Rightarrow> Inr p
      | None \<Rightarrow> Inl (RuntimeError (u ''provider not found: '' @ n)))"

subsection \<open>Availability and scores\<close>

definition is_available :: "router \<Rightarrow> provider \<Rightarrow> real \<Rightarrow> bool result" where
  "is_available r p now =
     (case lookup_stats r p of
        Inl e \<Rightarrow> Inl e
      | Inr s \<Rightarrow> Inr (stats_available (rt_cooldown r) now s))"

definition score_provider :: "router \<Rightarrow> provider \<Rightarrow> real \<Rightarrow> provider_score result" where
  "score_provider r p now =
     (case lookup_stats r p of
        Inl e \<Rightarrow> Inl e
      | Inr s \<Rightarrow> (case is_available r p now of
            Inl e \<Rightarrow> Inl e
          | Inr ok \<Rightarrow> Inr \<lparr>provider_name = router_name p, score = stats_score s,
              score_average_latency_seconds = average_latency_seconds s,
              score_success_rate = success_rate s, healthy = ok\<rparr>))"

text \<open>\<open>[self._score_provider(p) for p in ps]\<close>, reading the clock from point \<open>i\<close> on.\<close>

fun score_all :: "router \<Rightarrow> (nat \<Rightarrow> real) \<Rightarrow> nat \<Rightarrow> provider list \<Rightarrow> provider_score list result" where
  "score_all r clk i [] = Inr []"
| "score_all r clk i (p # ps) =
     (case score_provider r p (clk i) of
        Inl e \<Rightarrow> Inl e
      | Inr sc \<Rightarrow> (case score_all r clk (Suc i) ps of Inl e \<Rightarrow> Inl e | Inr scs \<Rightarrow> Inr (sc # scs)))"

text \<open>\<open>[self._score_provider(p) for p in ps if self._is_available(p)]\<close>.\<close>

fun score_available :: "router \<Rightarrow> (nat \<Rightarrow> real) \<Rightarrow> nat \<Rightarrow> provider list \<Rightarrow> provider_score list result" where
  "score_available r clk i [] = Inr []"
| "score_available r clk i (p # ps) =
     (case is_available r p (clk i) of
        Inl e \<Rightarrow> Inl e
      | Inr False \<Rightarrow> score_available r clk (i + 2) ps
      | Inr True \<Rightarrow> (case score_provider r p (clk (i + 1)) of
            Inl e \<Rightarrow> Inl e
          | Inr sc \<Rightarrow> (case score_available r clk (i + 2) ps of
                Inl e \<Rightarrow> Inl e | Inr scs \<Rightarrow> Inr (sc # scs))))"

definition get_scores :: "router \<Rightarrow> (nat \<Rightarrow> real) \<Rightarrow> provider_score list result" where
  "get_scores r clk = score_all r clk 0 (rt_providers r)"

subsection \<open>Selection\<close>

fun first_unobserved :: "router \<Rightarrow> provider list \<Rightarrow> provider option result" where
  "first_unobserved r [] = Inr None"
| "first_unobserved r (p # ps) =
     (case lookup_stats r p of
        Inl e \<Rightarrow> Inl e
      | Inr s \<Rightarrow> (if requests s = 0 then Inr (Some p) else first_unobserved r ps))"

definition select_provider :: "router \<Rightarrow> (nat \<Rightarrow> real) \<Rightarrow> provider result" where
  "select_provider r clk =
     (case first_unobserved r (rt_providers r) of
        Inl e \<Rightarrow> Inl e
      | Inr (Some p) \<Rightarrow> Inr p
      | Inr None \<Rightarrow>
          (case score_available r clk 0 (rt_providers r) of
             Inl e \<Rightarrow> Inl e
           | Inr scored \<Rightarrow>
               (case (if scored = []
                      then score_all r clk (2 * length (rt_providers r)) (rt_providers r)
                      else Inr scored) of
                  Inl e \<Rightarrow> Inl e
                | Inr [] \<Rightarrow> Inl (ValueError (u ''min() iterable argument is empty''))
                | Inr (sc # scs) \<Rightarrow> provider_by_name r (provider_name (min_by score sc scs)))))"

subsection \<open>Recording outcomes\<close>

definition record_success :: "router \<Rightarrow> provider \<Rightarrow> real \<Rightarrow> router result" where
  "record_success r p latency =
     (if latency < 0 then Inl (ValueError (u ''latency must not be negative''))
      else (case lookup_stats r p of
              Inl e \<Rightarrow> Inl e
            | Inr s \<Rightarrow> Inr (r\<lparr>rt_stats := (rt_stats r)(router_name p \<mapsto> stats_success latency s)\<rparr>)))"

definition record_failure :: "router \<Rightarrow> provider \<Rightarrow> real \<Rightarrow> router result" where
  "record_failure r p now =
     (case lookup_stats r p of
        Inl e \<Rightarrow> Inl e
      | Inr s \<Rightarrow> Inr (r\<lparr>rt_stats := (rt_stats r)(router_name p \<mapsto> stats_failure now s)\<rparr>))"

end
