(* ===== verification/Router_Correct.thy ===== *)
theory Router_Correct
  imports Router
begin

text \<open>
  Correctness of the router: the invariant of its state and its preservation, the total and
  closed-form behaviour of the lookups, scores and selection on managed providers, and the
  runs of the router over time.
\<close>

subsection \<open>Invariant and closed forms\<close>

definition router_inv :: "router \<Rightarrow> bool" where
  "router_inv r \<longleftrightarrow>
     rt_providers r \<noteq> [] \<and> 0 < rt_cooldown r
     \<and> dom (rt_stats r) = router_name ` set (rt_providers r)
     \<and> (\<forall>n s. rt_stats r n = Some s \<longrightarrow> stats_inv s)"

text \<open>The statistics of a managed provider.\<close>

definition stats_of :: "router \<Rightarrow> provider \<Rightarrow> provider_stats" where
  "stats_of r p = (case rt_stats r (router_name p) of Some s \<Rightarrow> s | None \<Rightarrow> fresh_stats)"

definition managed :: "router \<Rightarrow> provider \<Rightarrow> bool" where
  "managed r p \<longleftrightarrow> router_name p \<in> dom (rt_stats r)"

lemma managed_member: "router_inv r \<Longrightarrow> p \<in> set (rt_providers r) \<Longrightarrow> managed r p"
  by (auto simp: router_inv_def managed_def)

lemma lookup_managed [simp]: "managed r p \<Longrightarrow> lookup_stats r p = Inr (stats_of r p)"
  by (auto simp: managed_def lookup_stats_def stats_of_def)

lemma lookup_unmanaged: "\<not> managed r p \<Longrightarrow> \<exists>m. lookup_stats r p = Inl (ValueError m)"
  by (auto simp: managed_def lookup_stats_def split: option.splits)

lemma lookup_stats_InrD: "lookup_stats r p = Inr s \<Longrightarrow> managed r p \<and> s = stats_of r p"
  by (auto simp: managed_def lookup_stats_def stats_of_def split: option.splits)

lemma stats_inv_of: "router_inv r \<Longrightarrow> stats_inv (stats_of r p)"
  by (auto simp: router_inv_def stats_of_def split: option.splits)

lemma get_stats_managed [simp]: "managed r p \<Longrightarrow> get_stats r p = Inr (stats_of r p)"
  by (simp add: get_stats_def)

lemma is_available_managed [simp]:
  "managed r p \<Longrightarrow> is_available r p now = Inr (stats_available (rt_cooldown r) now (stats_of r p))"
  by (simp add: is_available_def)

text \<open>The score of a managed provider at a clock reading.\<close>

definition scored :: "router \<Rightarrow> real \<Rightarrow> provider \<Rightarrow> provider_score" where
  "scored r now p = \<lparr>provider_name = router_name p, score = stats_score (stats_of r p),
     score_average_latency_seconds = average_latency_seconds (stats_of r p),
     score_success_rate = success_rate (stats_of r p),
     healthy = stats_available (rt_cooldown r) now (stats_of r p)\<rparr>"

lemma scored_sel [simp]:
  "provider_name (scored r now p) = router_name p"
  "score (scored r now p) = stats_score (stats_of r p)"
  "healthy (scored r now p) = stats_available (rt_cooldown r) now (stats_of r p)"
  by (simp_all add: scored_def)

lemma score_provider_managed [simp]:
  "managed r p \<Longrightarrow> score_provider r p now = Inr (scored r now p)"
  by (simp add: score_provider_def scored_def)

lemma score_all_managed:
  "\<forall>p \<in> set ps. managed r p \<Longrightarrow>
     score_all r clk i ps = Inr (map (\<lambda>(j, p). scored r (clk j) p) (enumerate i ps))"
  by (induction ps arbitrary: i) simp_all

text \<open>The points at which the comprehension of \<open>select_provider\<close> reads the clock, and the
  providers that pass the availability check there.\<close>

fun points :: "nat \<Rightarrow> provider list \<Rightarrow> (nat \<times> provider) list" where
  "points i [] = []"
| "points i (p # ps) = (i, p) # points (i + 2) ps"

lemma map_snd_points [simp]: "map snd (points i ps) = ps"
  by (induction ps arbitrary: i) simp_all

definition passing :: "router \<Rightarrow> (nat \<Rightarrow> real) \<Rightarrow> nat \<Rightarrow> provider list \<Rightarrow> (nat \<times> provider) list" where
  "passing r clk i ps =
     filter (\<lambda>(j, p). stats_available (rt_cooldown r) (clk j) (stats_of r p)) (points i ps)"

definition candidates :: "router \<Rightarrow> (nat \<Rightarrow> real) \<Rightarrow> provider list" where
  "candidates r clk = map snd (passing r clk 0 (rt_providers r))"

lemma set_candidates: "set (candidates r clk) \<subseteq> set (rt_providers r)"
proof -
  have "set (candidates r clk) \<subseteq> snd ` set (points 0 (rt_providers r))"
    by (auto simp: candidates_def passing_def)
  also have "\<dots> = set (map snd (points 0 (rt_providers r)))" by (simp only: set_map)
  finally show ?thesis by simp
qed

text \<open>At a single instant the candidates are the providers available at that instant.\<close>

lemma candidates_instant:
  "candidates r (\<lambda>i. now) =
     filter (\<lambda>p. stats_available (rt_cooldown r) now (stats_of r p)) (rt_providers r)"
proof -
  have "map snd (passing r (\<lambda>i. now) i ps)
      = filter (\<lambda>p. stats_available (rt_cooldown r) now (stats_of r p)) ps" for i ps
    by (induction ps arbitrary: i) (simp_all add: passing_def)
  then show ?thesis by (simp add: candidates_def)
qed

lemma score_available_managed:
  "\<forall>p \<in> set ps. managed r p \<Longrightarrow>
     score_available r clk i ps = Inr (map (\<lambda>(j, p). scored r (clk (Suc j)) p) (passing r clk i ps))"
  by (induction ps arbitrary: i) (simp_all add: passing_def)

lemma find_named_mem: "find_named n ps = Some p \<Longrightarrow> p \<in> set ps \<and> router_name p = n"
  by (induction ps) (auto split: if_splits)

lemma find_named_ex: "n \<in> router_name ` set ps \<Longrightarrow> \<exists>p. find_named n ps = Some p"
  by (induction ps) auto

lemma find_named_distinct:
  "distinct (map router_name ps) \<Longrightarrow> p \<in> set ps \<Longrightarrow> find_named (router_name p) ps = Some p"
  by (induction ps) (auto simp: image_iff)

subsection \<open>Selection\<close>

lemma first_unobserved_None:
  "\<forall>p \<in> set ps. managed r p \<and> requests (stats_of r p) \<noteq> 0 \<Longrightarrow> first_unobserved r ps = Inr None"
  by (induction ps) simp_all

lemma first_unobserved_Some:
  "\<forall>q \<in> set pre. managed r q \<and> requests (stats_of r q) \<noteq> 0 \<Longrightarrow> managed r p
     \<Longrightarrow> requests (stats_of r p) = 0 \<Longrightarrow> first_unobserved r (pre @ p # post) = Inr (Some p)"
  by (induction pre) simp_all

lemma first_unobserved_cases:
  assumes "\<forall>p \<in> set ps. managed r p"
  shows "(\<exists>p \<in> set ps. requests (stats_of r p) = 0 \<and> first_unobserved r ps = Inr (Some p))
    \<or> ((\<forall>p \<in> set ps. requests (stats_of r p) \<noteq> 0) \<and> first_unobserved r ps = Inr None)"
  using assms by (induction ps) auto

text \<open>The providers among which \<open>select_provider\<close> takes the minimum, each with the point at
  which its score reads the clock.\<close>

definition pool_points :: "router \<Rightarrow> (nat \<Rightarrow> real) \<Rightarrow> (nat \<times> provider) list" where
  "pool_points r clk =
     (if candidates r clk = []
      then enumerate (2 * length (rt_providers r)) (rt_providers r)
      else map (\<lambda>(j, p). (Suc j, p)) (passing r clk 0 (rt_providers r)))"

definition pool :: "router \<Rightarrow> (nat \<Rightarrow> real) \<Rightarrow> provider list" where
  "pool r clk = (if candidates r clk = [] then rt_providers r else candidates r clk)"

lemma pool_nonempty: "router_inv r \<Longrightarrow> pool r clk \<noteq> []"
  by (simp add: pool_def router_inv_def)

lemma set_pool: "set (pool r clk) \<subseteq> set (rt_providers r)"
  using set_candidates by (auto simp: pool_def)

lemma map_snd_pool_points: "map snd (pool_points r clk) = pool r clk"
  by (simp add: pool_points_def pool_def candidates_def split_beta comp_def)

text \<open>The reference selection: the first unobserved provider, else the first among the pool
  with the least score.\<close>

definition best_of_pool :: "router \<Rightarrow> (nat \<Rightarrow> real) \<Rightarrow> provider" where
  "best_of_pool r clk =
     min_by (\<lambda>p. stats_score (stats_of r p)) (hd (pool r clk)) (tl (pool r clk))"

lemma best_of_pool_least:
  "router_inv r \<Longrightarrow> first_least (\<lambda>p. stats_score (stats_of r p)) (pool r clk) (best_of_pool r clk)"
  using first_least_min_by [of "\<lambda>p. stats_score (stats_of r p)" "hd (pool r clk)" "tl (pool r clk)"]
    pool_nonempty [of r clk]
  by (simp add: best_of_pool_def)

lemma best_of_pool_mem: "router_inv r \<Longrightarrow> best_of_pool r clk \<in> set (rt_providers r)"
  using first_least_mem [OF best_of_pool_least] set_pool by blast

lemma min_score_pool_points:
  "provider_name (min_by score (scored r (clk j) p) (map (\<lambda>(j, p). scored r (clk j) p) jps))
     = router_name (min_by (\<lambda>p. stats_score (stats_of r p)) p (map snd jps))"
  by (induction jps arbitrary: j p) auto

lemma select_explored:
  assumes inv: "router_inv r" and obs: "\<forall>p \<in> set (rt_providers r). requests (stats_of r p) \<noteq> 0"
  shows "select_provider r clk = provider_by_name r (router_name (best_of_pool r clk))"
proof -
  let ?ps = "rt_providers r"
  have man: "\<forall>p \<in> set ?ps. managed r p" using inv managed_member by blast
  with obs have none: "first_unobserved r ?ps = Inr None"
    by (intro first_unobserved_None) blast
  obtain j p jps where points: "pool_points r clk = (j, p) # jps"
    using map_snd_pool_points [of r clk] pool_nonempty [OF inv, of clk]
    by (cases "pool_points r clk") auto
  have pool: "pool r clk = p # map snd jps"
    using map_snd_pool_points [of r clk] points by simp
  let ?scores = "map (\<lambda>(j, p). scored r (clk j) p) (pool_points r clk)"
  have "(case score_available r clk 0 ?ps of Inl e \<Rightarrow> Inl e
      | Inr scs \<Rightarrow> if scs = [] then score_all r clk (2 * length ?ps) ?ps else Inr scs) = Inr ?scores"
    by (simp add: score_available_managed [OF man] score_all_managed [OF man] pool_points_def
        candidates_def split_beta comp_def)
  then have "select_provider r clk = provider_by_name r
      (provider_name (min_by score (scored r (clk j) p) (map (\<lambda>(j, p). scored r (clk j) p) jps)))"
    unfolding select_provider_def none
    by (simp add: points score_available_managed [OF man] split: if_splits)
  then show ?thesis
    by (simp only: min_score_pool_points best_of_pool_def pool list.sel)
qed

lemma provider_by_name_member:
  assumes "p \<in> set (rt_providers r)"
  shows "\<exists>q \<in> set (rt_providers r). provider_by_name r (router_name p) = Inr q \<and> router_name q = router_name p"
proof -
  from assms obtain q where "find_named (router_name p) (rt_providers r) = Some q"
    using find_named_ex by blast
  with find_named_mem show ?thesis by (auto simp: provider_by_name_def)
qed

lemma provider_by_name_distinct:
  "distinct (map router_name (rt_providers r)) \<Longrightarrow> p \<in> set (rt_providers r)
     \<Longrightarrow> provider_by_name r (router_name p) = Inr p"
  by (simp add: provider_by_name_def find_named_distinct)

lemma select_total:
  assumes inv: "router_inv r"
  shows "\<exists>p \<in> set (rt_providers r). select_provider r clk = Inr p"
proof -
  have man: "\<forall>p \<in> set (rt_providers r). managed r p" using inv managed_member by blast
  from first_unobserved_cases [OF this] show ?thesis
  proof
    assume "\<exists>p \<in> set (rt_providers r). requests (stats_of r p) = 0
      \<and> first_unobserved r (rt_providers r) = Inr (Some p)"
    then show ?thesis by (auto simp: select_provider_def)
  next
    assume "(\<forall>p \<in> set (rt_providers r). requests (stats_of r p) \<noteq> 0)
      \<and> first_unobserved r (rt_providers r) = Inr None"
    then show ?thesis
      using select_explored [OF inv] provider_by_name_member [OF best_of_pool_mem [OF inv]] by metis
  qed
qed

subsection \<open>Preservation of the invariant\<close>

lemma new_router_inv:
  assumes "new_router ps cd = Inr r"
  shows "router_inv r"
proof -
  let ?m = "map_of (map (\<lambda>p. (router_name p, fresh_stats)) ps)"
  have "dom ?m = router_name ` set ps"
    by (simp add: dom_map_of_conv_image_fst image_image)
  moreover have "\<forall>n s. ?m n = Some s \<longrightarrow> stats_inv s"
    by (auto dest!: map_of_SomeD)
  moreover have "ps \<noteq> [] \<and> 0 < cd \<and> r = \<lparr>rt_providers = ps, rt_cooldown = cd, rt_stats = ?m\<rparr>"
    using assms by (auto simp: new_router_def split: if_splits)
  ultimately show ?thesis by (simp add: router_inv_def)
qed

lemma new_router_stats:
  "new_router ps cd = Inr r \<Longrightarrow> stats_of r p = fresh_stats"
  by (auto simp: new_router_def stats_of_def dest!: map_of_SomeD split: if_splits option.splits)

lemma record_success_InrD:
  assumes "record_success r p l = Inr r'"
  shows "managed r p \<and> 0 \<le> l
    \<and> r' = r\<lparr>rt_stats := (rt_stats r)(router_name p \<mapsto> stats_success l (stats_of r p))\<rparr>"
  using assms by (auto simp: record_success_def dest: lookup_stats_InrD split: if_splits sum.splits)

lemma record_failure_InrD:
  assumes "record_failure r p t = Inr r'"
  shows "managed r p
    \<and> r' = r\<lparr>rt_stats := (rt_stats r)(router_name p \<mapsto> stats_failure t (stats_of r p))\<rparr>"
  using assms by (auto simp: record_failure_def dest: lookup_stats_InrD split: sum.splits)

lemma record_success_managed:
  "managed r p \<Longrightarrow> 0 \<le> l \<Longrightarrow> record_success r p l
     = Inr (r\<lparr>rt_stats := (rt_stats r)(router_name p \<mapsto> stats_success l (stats_of r p))\<rparr>)"
  by (simp add: record_success_def)

lemma record_failure_managed:
  "managed r p \<Longrightarrow> record_failure r p t
     = Inr (r\<lparr>rt_stats := (rt_stats r)(router_name p \<mapsto> stats_failure t (stats_of r p))\<rparr>)"
  by (simp add: record_failure_def)

lemma stats_of_update [simp]:
  "stats_of (r\<lparr>rt_stats := (rt_stats r)(n \<mapsto> s)\<rparr>) q = (if router_name q = n then s else stats_of r q)"
  by (simp add: stats_of_def)

lemma router_inv_update:
  "router_inv r \<Longrightarrow> managed r p \<Longrightarrow> stats_inv s
     \<Longrightarrow> router_inv (r\<lparr>rt_stats := (rt_stats r)(router_name p \<mapsto> s)\<rparr>)"
  by (auto simp: router_inv_def managed_def)

lemma record_success_inv: "router_inv r \<Longrightarrow> record_success r p l = Inr r' \<Longrightarrow> router_inv r'"
  by (auto dest!: record_success_InrD intro!: router_inv_update stats_inv_success stats_inv_of)

lemma record_failure_inv: "router_inv r \<Longrightarrow> record_failure r p t = Inr r' \<Longrightarrow> router_inv r'"
  by (auto dest!: record_failure_InrD intro!: router_inv_update stats_inv_failure stats_inv_of)

lemma record_success_frame:
  "record_success r p l = Inr r' \<Longrightarrow> rt_providers r' = rt_providers r \<and> rt_cooldown r' = rt_cooldown r"
  by (auto dest!: record_success_InrD)

lemma record_failure_frame:
  "record_failure r p t = Inr r' \<Longrightarrow> rt_providers r' = rt_providers r \<and> rt_cooldown r' = rt_cooldown r"
  by (auto dest!: record_failure_InrD)

lemmas record_frames = record_success_frame record_failure_frame

subsection \<open>Runs of the router over time\<close>

text \<open>
  The states a router can reach, each with a lower bound on the clock: it starts fresh,
  time passes, and outcomes are recorded for any provider in any order.
\<close>

inductive router_run :: "provider list \<Rightarrow> real \<Rightarrow> router \<Rightarrow> real \<Rightarrow> bool" for ps cd where
  start: "new_router ps cd = Inr r \<Longrightarrow> router_run ps cd r t"
| tick: "router_run ps cd r t \<Longrightarrow> t \<le> t' \<Longrightarrow> router_run ps cd r t'"
| success: "router_run ps cd r t \<Longrightarrow> record_success r p l = Inr r' \<Longrightarrow> router_run ps cd r' t"
| failure: "router_run ps cd r t \<Longrightarrow> record_failure r p t = Inr r' \<Longrightarrow> router_run ps cd r' t"

lemma router_run_inv:
  "router_run ps cd r t \<Longrightarrow> router_inv r \<and> rt_providers r = ps \<and> rt_cooldown r = cd"
proof (induction rule: router_run.induct)
  case (start r t)
  from new_router_inv [OF this] start show ?case by (auto simp: new_router_def split: if_splits)
next
  case (success r t p l r')
  then show ?case using record_success_inv record_success_frame by metis
next
  case (failure r t p r')
  then show ?case using record_failure_inv record_failure_frame by metis
qed simp

text \<open>No recorded failure lies in the future.\<close>

lemma router_run_stamps:
  "router_run ps cd r t \<Longrightarrow> last_failure_at (stats_of r p) = Some t0 \<Longrightarrow> t0 \<le> t"
proof (induction rule: router_run.induct)
  case (start r t)
  then show ?case by (simp add: new_router_stats fresh_stats_def)
next
  case (success r t q l r')
  then show ?case
    by (auto dest!: record_success_InrD simp: stats_success_def split: if_splits)
next
  case (failure r t q r')
  then show ?case
    by (auto dest!: record_failure_InrD simp: stats_failure_def split: if_splits)
qed simp

lemma router_run_recovers:
  assumes run: "router_run ps cd r t" and now: "t + cd \<le> now"
  shows "stats_available cd now (stats_of r p)"
proof (cases "consecutive_failures (stats_of r p) < FAILURE_THRESHOLD")
  case True
  then show ?thesis by (rule sb.admits_closed)
next
  case False
  with stats_inv_of [of r p] router_run_inv [OF run] obtain t0
    where "last_failure_at (stats_of r p) = Some t0"
    by (auto simp: stats_inv_def FAILURE_THRESHOLD_def)
  with False router_run_stamps [OF run, of p t0] now show ?thesis
    by (simp add: sb.admits_open)
qed

text \<open>Several failures in a row.\<close>

fun record_failures :: "router \<Rightarrow> provider \<Rightarrow> real list \<Rightarrow> router result" where
  "record_failures r p [] = Inr r"
| "record_failures r p (t # ts) =
     (case record_failure r p t of Inl e \<Rightarrow> Inl e | Inr r' \<Rightarrow> record_failures r' p ts)"

lemma managed_update [simp]:
  "managed r p \<Longrightarrow> managed (r\<lparr>rt_stats := (rt_stats r)(n \<mapsto> s)\<rparr>) p"
  by (auto simp: managed_def)

lemma record_failures_managed:
  "managed r p \<Longrightarrow> \<exists>r'. record_failures r p ts = Inr r' \<and> managed r' p
     \<and> rt_cooldown r' = rt_cooldown r \<and> stats_of r' p = fold stats_failure ts (stats_of r p)
     \<and> (\<forall>q. router_name q \<noteq> router_name p \<longrightarrow> stats_of r' q = stats_of r q)"
proof (induction ts arbitrary: r)
  case Nil
  then show ?case by simp
next
  case (Cons t ts)
  let ?r1 = "r\<lparr>rt_stats := (rt_stats r)(router_name p \<mapsto> stats_failure t (stats_of r p))\<rparr>"
  from Cons.prems have "managed ?r1 p" by simp
  from Cons.IH [OF this] Cons.prems show ?case by (simp add: record_failure_managed)
qed

end
