(* ===== verification/Router_Properties.thy ===== *)
theory Router_Properties
  imports Router_Correct
begin

text \<open>
  The properties of the router, each over the definitions of \<open>Router\<close>, and the concrete
  router on which the hypotheses are exhibited: two providers, \<open>mistral\<close> before \<open>groq\<close>.
\<close>

subsection \<open>A concrete router\<close>

definition p_mistral :: provider where
  "p_mistral = \<lparr>prov_id = 0, prov_name = Some (u ''mistral''), prov_class = u ''MistralLLMProvider''\<rparr>"

definition p_groq :: provider where
  "p_groq = \<lparr>prov_id = 1, prov_name = Some (u ''groq''), prov_class = u ''GroqLLMProvider''\<rparr>"

definition two_providers :: "provider list" where
  "two_providers = [p_mistral, p_groq]"

definition fresh_router :: router where
  "fresh_router = \<lparr>rt_providers = two_providers, rt_cooldown = 30,
     rt_stats = [u ''mistral'' \<mapsto> fresh_stats, u ''groq'' \<mapsto> fresh_stats]\<rparr>"

text \<open>After one success of each: \<open>mistral\<close> took 2 seconds, \<open>groq\<close> one.\<close>

definition observed_router :: router where
  "observed_router = fresh_router\<lparr>rt_stats :=
     [u ''mistral'' \<mapsto> stats_success 2 fresh_stats, u ''groq'' \<mapsto> stats_success 1 fresh_stats]\<rparr>"

lemma router_name_examples [simp]:
  "router_name p_mistral = u ''mistral''" "router_name p_groq = u ''groq''"
  by (simp_all add: router_name_def p_mistral_def p_groq_def)

lemma new_router_example [simp]: "new_router two_providers 30 = Inr fresh_router"
  by (auto simp: new_router_def fresh_router_def two_providers_def fun_eq_iff)

lemma fresh_router_sel [simp]:
  "rt_providers fresh_router = [p_mistral, p_groq]" "rt_cooldown fresh_router = 30"
  "rt_stats fresh_router = [u ''mistral'' \<mapsto> fresh_stats, u ''groq'' \<mapsto> fresh_stats]"
  by (simp_all add: fresh_router_def two_providers_def)

lemma observed_router_sel [simp]:
  "rt_providers observed_router = [p_mistral, p_groq]" "rt_cooldown observed_router = 30"
  "rt_stats observed_router =
     [u ''mistral'' \<mapsto> stats_success 2 fresh_stats, u ''groq'' \<mapsto> stats_success 1 fresh_stats]"
  by (simp_all add: observed_router_def)

lemma fresh_router_inv [simp]: "router_inv fresh_router"
  by (rule new_router_inv [OF new_router_example])

lemma observed_router_inv [simp]: "router_inv observed_router"
  by (auto simp: router_inv_def stats_inv_success split: if_splits)

lemma observed_router_stats [simp]:
  "stats_of observed_router p_mistral = stats_success 2 fresh_stats"
  "stats_of observed_router p_groq = stats_success 1 fresh_stats"
  by (simp_all add: stats_of_def)

lemma fresh_router_stats [simp]:
  "stats_of fresh_router p_mistral = fresh_stats" "stats_of fresh_router p_groq = fresh_stats"
  by (simp_all add: stats_of_def)

lemma managed_examples [simp]:
  "managed fresh_router p_mistral" "managed fresh_router p_groq"
  "managed observed_router p_mistral" "managed observed_router p_groq"
  by (simp_all add: managed_def)

lemma fresh_router_run: "router_run two_providers 30 fresh_router 0"
  by (rule router_run.start) simp

text \<open>Three failures of \<open>mistral\<close> at seconds 1, 2 and 3.\<close>

definition tripped_router :: router where
  "tripped_router = fresh_router\<lparr>rt_stats :=
     [u ''mistral'' \<mapsto> stats_failure 3 (stats_failure 2 (stats_failure 1 fresh_stats)),
      u ''groq'' \<mapsto> fresh_stats]\<rparr>"

lemma tripped_router_run: "router_run two_providers 30 tripped_router 3"
proof -
  let ?r1 = "fresh_router\<lparr>rt_stats := (rt_stats fresh_router)(u ''mistral'' \<mapsto> stats_failure 1 fresh_stats)\<rparr>"
  let ?r2 = "?r1\<lparr>rt_stats := (rt_stats ?r1)(u ''mistral'' \<mapsto> stats_failure 2 (stats_failure 1 fresh_stats))\<rparr>"
  have "router_run two_providers 30 fresh_router 1"
    by (rule router_run.tick [OF fresh_router_run]) simp
  moreover have "record_failure fresh_router p_mistral 1 = Inr ?r1"
    by (simp add: record_failure_managed)
  ultimately have "router_run two_providers 30 ?r1 1" by (rule router_run.failure)
  then have "router_run two_providers 30 ?r1 2" by (rule router_run.tick) simp
  moreover have "record_failure ?r1 p_mistral 2 = Inr ?r2"
    by (simp add: record_failure_def lookup_stats_def)
  ultimately have "router_run two_providers 30 ?r2 2" by (rule router_run.failure)
  then have "router_run two_providers 30 ?r2 3" by (rule router_run.tick) simp
  moreover have "record_failure ?r2 p_mistral 3 = Inr tripped_router"
    by (simp add: record_failure_def lookup_stats_def tripped_router_def fun_upd_twist)
  ultimately show ?thesis by (rule router_run.failure)
qed

subsection \<open>Properties\<close>

text \<open>
  C15: In every state the router can reach, in any order of recorded successes and failures,
  each provider's statistics are consistent: the requests are exactly the successes plus the
  failures, the success and error rates lie in [0, 1] and add up to 1, and a failure time
  is stored exactly while there is an unbroken run of failures.
\<close>

theorem router_run_consistent:
  assumes "router_run ps cooldown r t" and "get_stats r p = Inr s"
  shows "requests s = successes s + failures s \<and> 0 \<le> successes s
    \<and> 0 \<le> consecutive_failures s \<and> consecutive_failures s \<le> failures s
    \<and> 0 \<le> success_rate s \<and> 0 \<le> error_rate s \<and> success_rate s + error_rate s = 1
    \<and> (last_failure_at s = None \<longleftrightarrow> consecutive_failures s = 0)"
proof -
  from assms(2) have "s = stats_of r p"
    by (auto simp: get_stats_def dest: lookup_stats_InrD split: sum.splits)
  with router_run_inv [OF assms(1)] have "stats_inv s" using stats_inv_of by blast
  with rates_sum success_rate_bounds error_rate_bounds show ?thesis
    by (auto simp: stats_inv_def)
qed

theorem router_run_consistent_witness:
  "router_run two_providers 30 tripped_router 3
   \<and> success_rate (stats_failure 3 (stats_failure 2 (stats_failure 1 fresh_stats)))
     + error_rate (stats_failure 3 (stats_failure 2 (stats_failure 1 fresh_stats))) = 1"
proof -
  have "get_stats tripped_router p_mistral
      = Inr (stats_failure 3 (stats_failure 2 (stats_failure 1 fresh_stats)))"
    by (simp add: get_stats_def lookup_stats_def tripped_router_def)
  from router_run_consistent [OF tripped_router_run this] tripped_router_run show ?thesis
    by blast
qed

text \<open>
  Selection never fails on a router built by its constructor and driven by recorded
  outcomes: whatever the clock reads, \<open>select_provider\<close> returns a configured provider. The
  \<open>RuntimeError\<close> of \<open>_provider_by_name\<close>, the empty \<open>min\<close> and the \<open>ValueError\<close> of
  \<open>_get_stats\<close> are unreachable from it.
\<close>

lemma select_provider_total:
  assumes "router_run ps cooldown r t"
  shows "\<exists>p \<in> set ps. select_provider r clk = Inr p"
  using router_run_inv [OF assms] select_total [of r clk] by auto

lemma select_provider_total_example:
  "\<exists>p \<in> set two_providers. select_provider tripped_router (\<lambda>i. 5) = Inr p"
  by (rule select_provider_total [OF tripped_router_run])

text \<open>
  C20: Every provider receives an initial request before optimisation begins: as long as
  some configured provider has no recorded request, selection returns the first such
  provider in configuration order, whatever the scores and the health of the others.
\<close>

theorem select_explores_first:
  assumes "router_run ps cooldown r t" and "ps = pre @ p # post"
    and "\<forall>q \<in> set pre. requests (stats_of r q) \<noteq> 0" and "requests (stats_of r p) = 0"
  shows "select_provider r clk = Inr p"
proof -
  from router_run_inv [OF assms(1)] have inv: "router_inv r" and ps: "rt_providers r = pre @ p # post"
    using assms(2) by auto
  have "first_unobserved r (pre @ p # post) = Inr (Some p)"
    using assms(3,4) managed_member [OF inv] ps by (intro first_unobserved_Some) auto
  then show ?thesis by (simp add: select_provider_def ps)
qed

theorem select_explores_first_witness: "select_provider tripped_router (\<lambda>i. 5) = Inr p_groq"
proof (rule select_explores_first [OF tripped_router_run, of "[p_mistral]" p_groq "[]"])
  show "two_providers = [p_mistral] @ p_groq # []" by (simp add: two_providers_def)
qed (simp_all add: stats_of_def tripped_router_def stats_failure_def fresh_stats_def)

text \<open>
  C17: Once every provider has been observed (and the names are distinct), selection is
  optimal: among the providers that are available now it returns the one with the least
  score, and the earliest of these in configuration order; when none is available it does
  the same among all providers.
\<close>

theorem select_best_available:
  assumes run: "router_run ps cooldown r t" and dist: "distinct (map router_name ps)"
    and obs: "\<forall>p \<in> set ps. requests (stats_of r p) \<noteq> 0"
    and avail: "avail = filter (\<lambda>p. is_available r p now = Inr True) ps"
  shows "\<exists>q. select_provider r (\<lambda>i. now) = Inr q
    \<and> first_least (\<lambda>p. stats_score (stats_of r p)) (if avail = [] then ps else avail) q"
proof -
  from router_run_inv [OF run] have inv: "router_inv r" and ps: "rt_providers r = ps" by auto
  have "avail = filter (\<lambda>p. stats_available (rt_cooldown r) now (stats_of r p)) ps"
    unfolding avail using managed_member [OF inv] ps by (intro filter_cong) auto
  then have pool: "pool r (\<lambda>i. now) = (if avail = [] then ps else avail)"
    by (simp add: pool_def candidates_instant ps)
  have "select_provider r (\<lambda>i. now) = Inr (best_of_pool r (\<lambda>i. now))"
    using select_explored [OF inv] obs dist best_of_pool_mem [OF inv]
    by (simp add: ps provider_by_name_distinct)
  with best_of_pool_least [OF inv, of "\<lambda>i. now"] pool show ?thesis by auto
qed

lemma observed_router_run: "router_run two_providers 30 observed_router 0"
proof -
  let ?r1 = "fresh_router\<lparr>rt_stats := (rt_stats fresh_router)(u ''mistral'' \<mapsto> stats_success 2 fresh_stats)\<rparr>"
  have "record_success fresh_router p_mistral 2 = Inr ?r1"
    by (simp add: record_success_managed)
  with fresh_router_run have "router_run two_providers 30 ?r1 0" by (rule router_run.success)
  moreover have "record_success ?r1 p_groq 1 = Inr observed_router"
    by (simp add: record_success_def lookup_stats_def observed_router_def)
  ultimately show ?thesis by (rule router_run.success)
qed

theorem select_best_available_witness:
  "select_provider observed_router (\<lambda>i. 5) = Inr p_groq
   \<and> stats_score (stats_of observed_router p_groq) < stats_score (stats_of observed_router p_mistral)"
proof -
  have less: "stats_score (stats_of observed_router p_groq) < stats_score (stats_of observed_router p_mistral)"
    by (simp add: stats_score_def stats_success_def fresh_stats_def average_latency_seconds_def
        success_rate_def)
  let ?avail = "filter (\<lambda>p. is_available observed_router p 5 = Inr True) two_providers"
  have avail: "?avail = [p_mistral, p_groq]"
    by (simp add: two_providers_def stats_available_def FAILURE_THRESHOLD_def stats_success_def)
  have dist: "distinct (map router_name two_providers)" by (simp add: two_providers_def)
  have obs: "\<forall>p \<in> set two_providers. requests (stats_of observed_router p) \<noteq> 0"
    by (simp add: two_providers_def stats_success_def fresh_stats_def)
  obtain q where
    sel: "select_provider observed_router (\<lambda>i. 5) = Inr q"
    and least: "first_least (\<lambda>p. stats_score (stats_of observed_router p)) [p_mistral, p_groq] q"
    using select_best_available [OF observed_router_run dist obs refl, of 5, unfolded avail]
    by (simp only: list.distinct if_False) blast
  from first_least_le [OF least, of p_groq] less have "q \<noteq> p_mistral" by force
  with first_least_mem [OF least] have "q = p_groq" by simp
  with sel less show ?thesis by simp
qed

text \<open>
  C21: The circuit breaker opens and closes exactly as configured: after three or more
  failures in a row, the last at time \<open>t\<close>, a managed provider is unavailable until
  \<open>t + cooldown\<close> and available from then on, and the statistics of all other providers are
  untouched.
\<close>

theorem breaker_opens_for_cooldown:
  assumes "router_run ps cooldown r t0" and "managed r p" and "2 \<le> length ts"
  shows "\<exists>r'. record_failures r p (ts @ [t]) = Inr r'
    \<and> is_available r' p now = Inr (t + cooldown \<le> now)
    \<and> (\<forall>q. router_name q \<noteq> router_name p \<longrightarrow> stats_of r' q = stats_of r q)"
proof -
  from router_run_inv [OF assms(1)] have inv: "router_inv r" and cd: "rt_cooldown r = cooldown" by auto
  from record_failures_managed [OF assms(2), of "ts @ [t]"] obtain r' where
    r': "record_failures r p (ts @ [t]) = Inr r'" "managed r' p" "rt_cooldown r' = rt_cooldown r"
      "stats_of r' p = fold stats_failure (ts @ [t]) (stats_of r p)"
      "\<forall>q. router_name q \<noteq> router_name p \<longrightarrow> stats_of r' q = stats_of r q"
    by blast
  have "stats_available cooldown now (fold stats_failure (ts @ [t]) (stats_of r p)) \<longleftrightarrow> cooldown \<le> now - t"
    using stats_inv_of [OF inv, of p] assms(3)
    by (intro sb.trips) (auto simp: stats_inv_def FAILURE_THRESHOLD_def)
  with r' cd show ?thesis by (auto simp: algebra_simps)
qed

theorem breaker_opens_for_cooldown_witness:
  "\<exists>r'. record_failures fresh_router p_mistral ([1, 2] @ [3]) = Inr r'
    \<and> is_available r' p_mistral 32 = Inr False"
  using breaker_opens_for_cooldown [OF fresh_router_run, of p_mistral "[1, 2]" 3 32] by auto

text \<open>
  C24: No provider is locked out forever: in every reachable state with the clock at \<open>t\<close>,
  every managed provider is available at any time from \<open>t + cooldown\<close> on, however many
  failures it had. In particular the branch of \<open>_is_available\<close> that refuses a provider
  without a failure time never refuses one for good.
\<close>

theorem provider_recovers:
  assumes "router_run ps cooldown r t" and "managed r p" and "t + cooldown \<le> now"
  shows "is_available r p now = Inr True"
  using router_run_inv [OF assms(1)] router_run_recovers [OF assms(1,3), of p] assms(2) by simp

theorem provider_recovers_witness: "is_available tripped_router p_mistral 33 = Inr True"
  by (rule provider_recovers [OF tripped_router_run]) (simp_all add: managed_def tripped_router_def)

text \<open>
  One success closes the breaker at once: after \<open>record_success\<close> the provider is
  available at every time, and it stays so through up to two further failures.
\<close>

lemma success_closes_breaker:
  assumes "record_success r p latency = Inr r1" and "length ts \<le> 2"
  shows "\<exists>r2. record_failures r1 p ts = Inr r2 \<and> is_available r2 p now = Inr True"
proof -
  from record_success_InrD [OF assms(1)] have man: "managed r1 p"
    and st: "stats_of r1 p = stats_success latency (stats_of r p)"
    by (auto simp: managed_def)
  from record_failures_managed [OF man, of ts] obtain r2 where
    "record_failures r1 p ts = Inr r2" "managed r2 p"
    "stats_of r2 p = fold stats_failure ts (stats_success latency (stats_of r p))"
    using st by auto
  moreover have "stats_available (rt_cooldown r2) now (fold stats_failure ts (stats_success latency (stats_of r p)))"
    using assms(2) by (intro sb.closed_after_recovery) (simp add: FAILURE_THRESHOLD_def)
  ultimately show ?thesis by simp
qed

lemma success_closes_breaker_example:
  "\<exists>r1 r2. record_success tripped_router p_mistral 1 = Inr r1
     \<and> record_failures r1 p_mistral [10, 11] = Inr r2 \<and> is_available r2 p_mistral 12 = Inr True"
proof -
  have "managed tripped_router p_mistral" by (simp add: managed_def tripped_router_def)
  then obtain r1 where r1: "record_success tripped_router p_mistral 1 = Inr r1"
    by (simp add: record_success_managed)
  from success_closes_breaker [OF r1, of "[10, 11]" 12] r1 show ?thesis by auto
qed

end
