(* ===== verification/Gateway.thy ===== *)
theory Gateway
  imports Router Settings
begin

text \<open>
  The LLM gateway of \<open>nexus/llm/gateway.py\<close>: selection through the router, the retry loop
  with exponential backoff around one provider, fallback along the ordered providers, and
  the publication of the router's state as Prometheus gauges. \<open>generate\<close> returns the result
  or the exception, the gateway with the router it leaves behind, and the log of effects.

  What the code does not determine is read from an environment \<open>env\<close>: what attempt \<open>a\<close> at
  the \<open>i\<close>-th provider of a request yields, the readings of the two clocks at each point
  where they are read, and, since \<open>await\<close> suspends the task, what other tasks did to the
  shared router while this one waited for the \<open>i\<close>-th provider.
\<close>

subsection \<open>The gateway object\<close>

record gateway =
  gw_providers :: "provider list"
  gw_router :: router
  gw_timeout_seconds :: real
  gw_max_retries :: int
  gw_retry_base_delay :: real
  gw_retry_max_delay :: real

record env =
  env_result :: "nat \<Rightarrow> nat \<Rightarrow> provider \<Rightarrow> llm_request \<Rightarrow> llm_response result"
  env_attempt_time :: "nat \<Rightarrow> nat \<Rightarrow> real \<times> real"
  env_route_time :: "nat \<Rightarrow> real \<times> real"
  env_select_clock :: "nat \<Rightarrow> real"
  env_metrics_clock :: "nat \<Rightarrow> nat \<Rightarrow> real"
  env_failure_clock :: "nat \<Rightarrow> real"
  env_others :: "nat \<Rightarrow> router \<Rightarrow> router"

text \<open>\<open>LLMGateway._provider_name\<close>: unlike the router's, it also rejects a blank name.\<close>

definition gateway_name :: "provider \<Rightarrow> pystr" where
  "gateway_name p =
     (case prov_name p of
        Some n \<Rightarrow> (if strip n \<noteq> [] then n else ascii_lower (prov_class p))
      | None \<Rightarrow> ascii_lower (prov_class p))"

definition error_type :: "exn \<Rightarrow> pystr" where
  "error_type e =
     (if is_rate_limit_error e then u ''rate_limit''
      else if is_unavailable_error e then u ''unavailable''
      else if is_timeout_error e then u ''timeout''
      else u ''provider_error'')"

text \<open>The selected provider first, then every other one in configuration order; \<open>is\<close> compares
  identities.\<close>

definition ordered_providers :: "gateway \<Rightarrow> provider \<Rightarrow> provider list" where
  "ordered_providers g selected =
     selected # filter (\<lambda>p. prov_id p \<noteq> prov_id selected) (gw_providers g)"

subsection \<open>Publishing the router's state\<close>

definition publish :: "provider_score \<Rightarrow> provider_stats \<Rightarrow> effect list" where
  "publish sc st =
     (let ls = [(''provider'', provider_name sc)]
      in [SetGauge LLM_PROVIDER_REQUESTS ls (real_of_int (requests st)),
          SetGauge LLM_PROVIDER_SUCCESS_RATE ls (success_rate st),
          SetGauge LLM_PROVIDER_ERROR_RATE ls (error_rate st),
          SetGauge LLM_PROVIDER_AVERAGE_LATENCY_SECONDS ls (average_latency_seconds st),
          SetGauge LLM_PROVIDER_CONSECUTIVE_FAILURES ls (real_of_int (consecutive_failures st)),
          SetGauge LLM_PROVIDER_HEALTHY ls (if healthy sc then 1 else 0),
          SetGauge LLM_PROVIDER_SCORE ls (score sc)])"

fun publish_all :: "gateway \<Rightarrow> provider_score list \<Rightarrow> unit result \<times> effect list" where
  "publish_all g [] = (Inr (), [])"
| "publish_all g (sc # scs) =
     (case find (\<lambda>p. gateway_name p = provider_name sc) (gw_providers g) of
        None \<Rightarrow> publish_all g scs
      | Some p \<Rightarrow> (case get_stats (gw_router g) p of
            Inl e \<Rightarrow> (Inl e, [])
          | Inr st \<Rightarrow> (case publish_all g scs of (r, es) \<Rightarrow> (r, publish sc st @ es))))"

definition update_provider_metrics :: "gateway \<Rightarrow> (nat \<Rightarrow> real) \<Rightarrow> unit result \<times> effect list" where
  "update_provider_metrics g clk =
     (case get_scores (gw_router g) clk of
        Inl e \<Rightarrow> (Inl e, [])
      | Inr scs \<Rightarrow> publish_all g scs)"

subsection \<open>Construction\<close>

definition new_gateway :: "provider list \<Rightarrow> settings \<Rightarrow> (nat \<Rightarrow> real) \<Rightarrow> gateway result \<times> effect list" where
  "new_gateway providers st clk =
     (if providers = [] then (Inl (ValueError (u ''at least one LLM provider is required'')), [])
      else (case new_router providers 30 of
         Inl e \<Rightarrow> (Inl e, [])
       | Inr r \<Rightarrow>
         (let g = \<lparr>gw_providers = providers, gw_router = r,
                gw_timeout_seconds = llm_request_timeout_seconds st,
                gw_max_retries = llm_max_retries st,
                gw_retry_base_delay = llm_retry_base_delay_seconds st,
                gw_retry_max_delay = llm_retry_max_delay_seconds st\<rparr>
          in if gw_timeout_seconds g \<le> 0
             then (Inl (ValueError (u ''LLM request timeout must be positive'')), [])
             else if gw_max_retries g < 0
             then (Inl (ValueError (u ''LLM max retries must not be negative'')), [])
             else if gw_retry_base_delay g \<le> 0
             then (Inl (ValueError (u ''LLM retry base delay must be positive'')), [])
             else if gw_retry_max_delay g \<le> 0
             then (Inl (ValueError (u ''LLM retry max delay must be positive'')), [])
             else if gw_retry_base_delay g > gw_retry_max_delay g
             then (Inl (ValueError (u ''LLM retry base delay must not exceed max delay'')), [])
             else (case update_provider_metrics g clk of
                     (Inl e, es) \<Rightarrow> (Inl e, es)
                   | (Inr _, es) \<Rightarrow> (Inr g, es)))))"

subsection \<open>The retry loop\<close>

text \<open>
  \<open>base * (2**attempt)\<close> converts the integer power to a float, which raises
  \<open>OverflowError\<close> from \<open>2**1024\<close> on.
\<close>

definition backoff_delay :: "gateway \<Rightarrow> nat \<Rightarrow> real result" where
  "backoff_delay g attempt =
     (if attempt \<ge> 1024 then Inl OverflowError
      else Inr (min (gw_retry_base_delay g * 2 ^ attempt) (gw_retry_max_delay g)))"

definition attempt_span :: pystr where
  "attempt_span = u ''llm.provider.attempt''"

definition provider_span :: "pystr \<Rightarrow> pystr" where
  "provider_span name = u ''llm.provider.'' @ name"

text \<open>What ends an attempt: a result that leaves the loop, or another round.\<close>

datatype attempt_end = Leave "llm_response result" | Again

text \<open>The part the error handlers share: duration, request and error counters, span.\<close>

definition error_effects :: "pystr \<Rightarrow> real \<Rightarrow> pystr \<Rightarrow> exn \<Rightarrow> effect list" where
  "error_effects name duration etype e =
     [Observe LLM_REQUEST_DURATION_SECONDS [(''provider'', name)] duration,
      Inc LLM_REQUESTS_TOTAL [(''provider'', name), (''status'', u ''error'')],
      Inc LLM_ERRORS_TOTAL [(''provider'', name), (''error_type'', etype)],
      SpanException attempt_span e,
      SpanAttr attempt_span (u ''llm.error_type'') (AStr etype)]"

text \<open>The retry part of the two transient handlers.\<close>

definition retry_or_raise ::
  "gateway \<Rightarrow> pystr \<Rightarrow> nat \<Rightarrow> pystr \<Rightarrow> (pystr \<times> attr_value) list \<Rightarrow> exn \<Rightarrow> attempt_end \<times> effect list"
where
  "retry_or_raise g name attempt etype extra raised =
     (if int attempt \<ge> gw_max_retries g then (Leave (Inl raised), [])
      else
        let es = [Inc LLM_RETRIES_TOTAL [(''provider'', name), (''error_type'', etype)],
                  SpanEvent attempt_span (u ''llm.retry'')
                    ([(u ''llm.provider'', AStr name), (u ''llm.attempt'', AInt (int attempt + 1))] @ extra)]
        in (case backoff_delay g attempt of
              Inl e \<Rightarrow> (Leave (Inl e), es)
            | Inr d \<Rightarrow> (Again, es @ [Sleep d])))"

definition handle_attempt ::
  "gateway \<Rightarrow> pystr \<Rightarrow> nat \<Rightarrow> real \<Rightarrow> llm_response result \<Rightarrow> attempt_end \<times> effect list"
where
  "handle_attempt g name attempt duration res =
     (case res of
        Inr resp \<Rightarrow> (Leave (Inr resp),
          [Observe LLM_REQUEST_DURATION_SECONDS [(''provider'', name)] duration,
           Inc LLM_REQUESTS_TOTAL [(''provider'', name), (''status'', u ''success'')],
           SpanAttr attempt_span (u ''llm.response.model'') (AStr (resp_model resp)),
           SpanAttr (provider_span name) (u ''llm.response.model'') (AStr (resp_model resp))])
      | Inl e \<Rightarrow>
          if e = TimeoutError then
            (case retry_or_raise g name attempt (u ''timeout'') []
                    (LLMProviderTimeoutError (u ''LLM provider request timed out'')) of
               (next, es) \<Rightarrow> (next, error_effects name duration (u ''timeout'') e @ es))
          else if is_rate_limit_error e \<or> is_unavailable_error e then
            (case retry_or_raise g name attempt (error_type e)
                    [(u ''llm.error_type'', AStr (error_type e))] e of
               (next, es) \<Rightarrow> (next, error_effects name duration (error_type e) e @ es))
          else if is_authentication_error e then
            (Leave (Inl e), error_effects name duration (u ''authentication'') e)
          else if is_provider_error e then
            (Leave (Inl e), error_effects name duration (error_type e) e)
          else (Leave (Inl e), []))"

text \<open>One round of the loop: the attempt span around the awaited call and its handler.\<close>

definition attempt_round ::
  "gateway \<Rightarrow> env \<Rightarrow> nat \<Rightarrow> provider \<Rightarrow> llm_request \<Rightarrow> nat \<Rightarrow> attempt_end \<times> effect list"
where
  "attempt_round g w i p req attempt =
     (let name = gateway_name p;
          (t0, t1) = env_attempt_time w i attempt
      in case handle_attempt g name attempt (t1 - t0) (env_result w i attempt p req) of
           (next, es) \<Rightarrow> (next,
             [SpanStart attempt_span,
              SpanAttr attempt_span (u ''llm.provider'') (AStr name),
              SpanAttr attempt_span (u ''llm.attempt'') (AInt (int attempt + 1)),
              ProviderCall p req] @ es @ [SpanEnd attempt_span]))"

lemma retry_or_raise_Again:
  "retry_or_raise g name a et extra e = (Again, es) \<Longrightarrow> int a < gw_max_retries g"
  by (auto simp: retry_or_raise_def Let_def split: if_splits sum.splits)

lemma attempt_round_Again:
  "attempt_round g w i p req a = (Again, es) \<Longrightarrow> int a < gw_max_retries g"
  by (auto simp: attempt_round_def handle_attempt_def Let_def
      split: prod.splits sum.splits if_splits dest: retry_or_raise_Again)

text \<open>The \<open>while True\<close> loop: another round only below the retry limit, so it ends.\<close>

function retry_loop ::
  "gateway \<Rightarrow> env \<Rightarrow> nat \<Rightarrow> provider \<Rightarrow> llm_request \<Rightarrow> nat \<Rightarrow> llm_response result \<times> effect list"
where
  "retry_loop g w i p req attempt =
     (case attempt_round g w i p req attempt of
        (Leave res, es) \<Rightarrow> (res, es)
      | (Again, es) \<Rightarrow> (case retry_loop g w i p req (Suc attempt) of
            (res, es') \<Rightarrow> (res, es @ es')))"
  by pat_completeness auto
termination
  by (relation "measure (\<lambda>(g, w, i, p, req, a). nat (gw_max_retries g - int a))")
    (auto dest!: attempt_round_Again [OF sym])

declare retry_loop.simps [simp del]

definition generate_with_retry ::
  "gateway \<Rightarrow> env \<Rightarrow> nat \<Rightarrow> provider \<Rightarrow> llm_request \<Rightarrow> llm_response result \<times> effect list"
where
  "generate_with_retry g w i p req =
     (let name = gateway_name p
      in case retry_loop g w i p req 0 of
           (res, es) \<Rightarrow> (res,
             [SpanStart (provider_span name),
              SpanAttr (provider_span name) (u ''llm.provider'') (AStr name),
              SpanAttr (provider_span name) (u ''llm.request.prompt_length'')
                (AInt (int (length (prompt req))))]
             @ es @ [SpanEnd (provider_span name)]))"

subsection \<open>Fallback\<close>

definition gateway_span :: pystr where
  "gateway_span = u ''llm.gateway.generate''"

text \<open>How the body of the \<open>for\<close> loop ends: \<open>return\<close>, a raised exception, or \<open>continue\<close> with
  \<open>last_error\<close> set.\<close>

datatype turn_end = Return llm_response | Raise exn | Continue exn

text \<open>\<open>record_failure\<close> and the metrics update at the head of each handler.\<close>

definition note_failure ::
  "gateway \<Rightarrow> env \<Rightarrow> nat \<Rightarrow> provider \<Rightarrow> unit result \<times> gateway \<times> effect list"
where
  "note_failure g w i p =
     (case record_failure (gw_router g) p (env_failure_clock w i) of
        Inl e \<Rightarrow> (Inl e, g, [])
      | Inr r \<Rightarrow>
          (case update_provider_metrics (g\<lparr>gw_router := r\<rparr>) (env_metrics_clock w (Suc i)) of
             (res, es) \<Rightarrow> (res, g\<lparr>gw_router := r\<rparr>, es)))"

definition note_success ::
  "gateway \<Rightarrow> env \<Rightarrow> nat \<Rightarrow> provider \<Rightarrow> real \<Rightarrow> unit result \<times> gateway \<times> effect list"
where
  "note_success g w i p latency =
     (case record_success (gw_router g) p latency of
        Inl e \<Rightarrow> (Inl e, g, [])
      | Inr r \<Rightarrow>
          (case update_provider_metrics (g\<lparr>gw_router := r\<rparr>) (env_metrics_clock w (Suc i)) of
             (res, es) \<Rightarrow> (res, g\<lparr>gw_router := r\<rparr>, es)))"

definition failure_events :: "pystr \<Rightarrow> nat \<Rightarrow> exn \<Rightarrow> provider list \<Rightarrow> effect list" where
  "failure_events name i e rest =
     [SpanException gateway_span e,
      SpanEvent gateway_span (u ''llm.provider.failure'')
        [(u ''llm.provider'', AStr name), (u ''llm.error_type'', AStr (error_type e)),
         (u ''llm.provider_index'', AInt (int i))]]
     @ (case rest of
          [] \<Rightarrow> []
        | q # qs \<Rightarrow>
            [Inc LLM_FALLBACKS_TOTAL [(''from_provider'', name), (''to_provider'', gateway_name q)],
             SpanEvent gateway_span (u ''llm.provider.fallback'')
               [(u ''llm.from_provider'', AStr name), (u ''llm.to_provider'', AStr (gateway_name q))]])"

text \<open>The rest of a turn, once the awaited retry loop has ended with \<open>res\<close>: no \<open>await\<close> follows
  until the next provider, so it runs in one piece on the router it finds.\<close>

definition settle_turn ::
  "gateway \<Rightarrow> env \<Rightarrow> nat \<Rightarrow> provider \<Rightarrow> provider list \<Rightarrow> llm_response result
     \<Rightarrow> turn_end \<times> gateway \<times> effect list"
where
  "settle_turn g w i p rest res =
     (let name = gateway_name p;
          (t0, t1) = env_route_time w i
      in case res of
           Inr resp \<Rightarrow>
             (case note_success g w i p (t1 - t0) of
                (Inl e, g', es) \<Rightarrow> (Raise e, g', es)
              | (Inr _, g', es) \<Rightarrow> (Return resp, g', es @
                  [SpanAttr gateway_span (u ''llm.provider.selected'') (AStr name),
                   SpanAttr gateway_span (u ''llm.routing.latency_seconds'') (AFloat (t1 - t0))]))
         | Inl e \<Rightarrow>
             if is_rate_limit_error e \<or> is_unavailable_error e \<or> is_timeout_error e then
               (case note_failure g w i p of
                  (Inl e', g', es) \<Rightarrow> (Raise e', g', es)
                | (Inr _, g', es) \<Rightarrow> (Continue e, g', es @ failure_events name i e rest))
             else if is_authentication_error e then
               (case note_failure g w i p of
                  (Inl e', g', es) \<Rightarrow> (Raise e', g', es)
                | (Inr _, g', es) \<Rightarrow> (Raise e, g', es @
                    [SpanException gateway_span e,
                     SpanAttr gateway_span (u ''llm.error_type'') (AStr (u ''authentication''))]))
             else if is_provider_error e then
               (case note_failure g w i p of
                  (Inl e', g', es) \<Rightarrow> (Raise e', g', es)
                | (Inr _, g', es) \<Rightarrow> (Raise e, g', es @
                    [SpanException gateway_span e,
                     SpanAttr gateway_span (u ''llm.error_type'') (AStr (error_type e))]))
             else (Raise e, g, []))"

text \<open>The part of a turn that ends with the await.\<close>

definition await_turn :: "gateway \<Rightarrow> env \<Rightarrow> llm_request \<Rightarrow> nat \<Rightarrow> provider \<Rightarrow> llm_response result \<times> effect list" where
  "await_turn g w req i p =
     (case generate_with_retry g w i p req of
        (res, es) \<Rightarrow> (res, SpanAttr gateway_span (u ''llm.provider.attempt'') (AInt (int i + 1)) # es))"

definition provider_turn ::
  "gateway \<Rightarrow> env \<Rightarrow> llm_request \<Rightarrow> nat \<Rightarrow> provider \<Rightarrow> provider list \<Rightarrow> turn_end \<times> gateway \<times> effect list"
where
  "provider_turn g w req i p rest =
     (case await_turn g w req i p of
        (res, es) \<Rightarrow>
          (case settle_turn (g\<lparr>gw_router := env_others w i (gw_router g)\<rparr>) w i p rest res of
             (outc, g', es') \<Rightarrow> (outc, g', es @ es')))"

fun try_providers ::
  "gateway \<Rightarrow> env \<Rightarrow> llm_request \<Rightarrow> nat \<Rightarrow> provider list \<Rightarrow> exn option
     \<Rightarrow> llm_response result \<times> gateway \<times> effect list"
where
  "try_providers g w req i [] last_error =
     (case last_error of
        Some e \<Rightarrow> (Inl e, g, [SpanException gateway_span e])
      | None \<Rightarrow> (let e = LLMProviderError (u ''all LLM providers failed'')
                 in (Inl e, g, [SpanException gateway_span e])))"
| "try_providers g w req i (p # ps) last_error =
     (case provider_turn g w req i p ps of
        (Return resp, g', es) \<Rightarrow> (Inr resp, g', es)
      | (Raise e, g', es) \<Rightarrow> (Inl e, g', es)
      | (Continue e, g', es) \<Rightarrow>
          (case try_providers g' w req (Suc i) ps (Some e) of
             (res, g'', es') \<Rightarrow> (res, g'', es @ es')))"

text \<open>The head of \<open>generate\<close>, up to the loop: the providers to try, in order.\<close>

definition open_request :: "gateway \<Rightarrow> env \<Rightarrow> llm_request \<Rightarrow> provider list result \<times> effect list" where
  "open_request g w req =
     (let opening =
        [SpanStart gateway_span,
         SpanAttr gateway_span (u ''llm.provider.count'') (AInt (int (length (gw_providers g)))),
         SpanAttr gateway_span (u ''llm.request.prompt_length'') (AInt (int (length (prompt req))))]
      in case select_provider (gw_router g) (env_select_clock w) of
           Inl e \<Rightarrow> (Inl e, opening)
         | Inr selected \<Rightarrow>
             (let name = gateway_name selected;
                  chosen = [Inc LLM_PROVIDER_SELECTED_TOTAL [(''provider'', name)]]
              in case update_provider_metrics g (env_metrics_clock w 0) of
                   (Inl e, es) \<Rightarrow> (Inl e, opening @ chosen @ es)
                 | (Inr _, es) \<Rightarrow>
                     (Inr (ordered_providers g selected), opening @ chosen @ es @
                        [SpanAttr gateway_span (u ''llm.provider.selected'') (AStr name),
                         SpanAttr gateway_span (u ''llm.routing.enabled'') (ABool True)])))"

definition generate ::
  "gateway \<Rightarrow> env \<Rightarrow> llm_request \<Rightarrow> llm_response result \<times> gateway \<times> effect list"
where
  "generate g w req =
     (case open_request g w req of
        (Inl e, es) \<Rightarrow> (Inl e, g, es @ [SpanEnd gateway_span])
      | (Inr ps, es) \<Rightarrow>
          (case try_providers g w req 0 ps None of
             (res, g', es') \<Rightarrow> (res, g', es @ es' @ [SpanEnd gateway_span])))"

end
