(* ===== verification/Gateway_Retry.thy ===== *)
theory Gateway_Retry
  imports Gateway Router_Correct
begin

text \<open>
  The retry loop in closed form: which attempt decides, with which result, and the log of
  its rounds. The fallback of the gateway rests on these lemmas only.
\<close>

subsection \<open>What is retried, and what surfaces\<close>

definition retryable :: "exn \<Rightarrow> bool" where
  "retryable e \<longleftrightarrow> e = TimeoutError \<or> is_rate_limit_error e \<or> is_unavailable_error e"

definition transient :: "llm_response result \<Rightarrow> bool" where
  "transient res = (case res of Inl e \<Rightarrow> retryable e | Inr _ \<Rightarrow> False)"

text \<open>The gateway's own timeout surfaces as a provider error, everything else as it is.\<close>

definition surface :: "llm_response result \<Rightarrow> llm_response result" where
  "surface res =
     (case res of
        Inl e \<Rightarrow> (if e = TimeoutError
                   then Inl (LLMProviderTimeoutError (u ''LLM provider request timed out'')) else Inl e)
      | Inr r \<Rightarrow> Inr r)"

text \<open>How many of the first \<open>m\<close> attempts are retried: those before the first that is not
  transient.\<close>

definition retries :: "nat \<Rightarrow> (nat \<Rightarrow> llm_response result) \<Rightarrow> nat" where
  "retries m f = length (takeWhile (\<lambda>a. transient (f a)) [0..<m])"

text \<open>The reference semantics of the retry policy.\<close>

definition retry_spec :: "nat \<Rightarrow> (nat \<Rightarrow> llm_response result) \<Rightarrow> llm_response result" where
  "retry_spec m f = surface (f (retries m f))"

text \<open>The same without a bound on the permitted retries: from the 1025th failed attempt on, the
  backoff cannot be computed.\<close>

definition retry_policy :: "nat \<Rightarrow> (nat \<Rightarrow> llm_response result) \<Rightarrow> llm_response result" where
  "retry_policy m f = (if 1024 < retries m f then Inl OverflowError else surface (f (retries m f)))"

definition delay_at :: "gateway \<Rightarrow> nat \<Rightarrow> real" where
  "delay_at g a = min (gw_retry_base_delay g * 2 ^ a) (gw_retry_max_delay g)"

lemma rate_limit_not_unavailable: "is_rate_limit_error e \<Longrightarrow> \<not> is_unavailable_error e"
  by (cases e) simp_all

lemma surface_nontransient [simp]: "\<not> transient res \<Longrightarrow> surface res = res"
  by (auto simp: transient_def surface_def retryable_def split: sum.splits)

lemma retries_le: "retries m f \<le> m"
  using length_takeWhile_le [of "\<lambda>a. transient (f a)" "[0..<m]"] by (simp add: retries_def)

lemma retries_before:
  assumes "a < retries m f" shows "transient (f a)"
proof -
  from assms retries_le [of m f] have "takeWhile (\<lambda>a. transient (f a)) [0..<m] ! a = a"
    by (simp add: retries_def takeWhile_nth)
  moreover have "takeWhile (\<lambda>a. transient (f a)) [0..<m] ! a \<in> set (takeWhile (\<lambda>a. transient (f a)) [0..<m])"
    using assms by (intro nth_mem) (simp add: retries_def)
  ultimately show ?thesis by (auto dest: set_takeWhileD)
qed

lemma retries_stops: "retries m f < m \<Longrightarrow> \<not> transient (f (retries m f))"
  using nth_length_takeWhile [of "\<lambda>a. transient (f a)" "[0..<m]"] by (simp add: retries_def)

lemma retry_policy_spec: "m \<le> 1024 \<Longrightarrow> retry_policy m f = retry_spec m f"
  using retries_le [of m f] by (simp add: retry_policy_def retry_spec_def)

lemma retries_eqI:
  assumes "\<forall>a < k. transient (f a)" and "k < m \<Longrightarrow> \<not> transient (f k)" and "k \<le> m"
  shows "retries m f = k"
proof (rule antisym)
  have before: "transient (f a)" if "a < retries m f" for a using retries_before [OF that] .
  show "retries m f \<le> k"
    using before [of k] assms(2) retries_le [of m f] by (meson leI order.strict_trans2)
  show "k \<le> retries m f"
    using retries_stops [of m f] assms(1,3) by (meson leI order.strict_trans2)
qed

lemma retries_none: "\<not> transient (f 0) \<Longrightarrow> retries m f = 0"
  by (cases m) (simp_all add: retries_def upt_conv_Cons del: upt_Suc)

lemma retries_all: "\<forall>a < m. transient (f a) \<Longrightarrow> retries m f = m"
  by (simp add: retries_def takeWhile_eq_all_conv [THEN iffD2])

lemma transient_simps [simp]:
  "\<not> transient (Inr r)" "transient (Inl e) \<longleftrightarrow> retryable e"
  by (simp_all add: transient_def)

subsection \<open>One round\<close>

abbreviation round_end :: "gateway \<Rightarrow> env \<Rightarrow> nat \<Rightarrow> provider \<Rightarrow> llm_request \<Rightarrow> nat \<Rightarrow> attempt_end" where
  "round_end g w i p req a \<equiv> fst (attempt_round g w i p req a)"

abbreviation round_log :: "gateway \<Rightarrow> env \<Rightarrow> nat \<Rightarrow> provider \<Rightarrow> llm_request \<Rightarrow> nat \<Rightarrow> effect list" where
  "round_log g w i p req a \<equiv> snd (attempt_round g w i p req a)"

lemma attempt_round_split:
  "attempt_round g w i p req a =
     (let h = handle_attempt g (gateway_name p) a (snd (env_attempt_time w i a) - fst (env_attempt_time w i a))
                (env_result w i a p req)
      in (fst h, [SpanStart attempt_span,
              SpanAttr attempt_span (u ''llm.provider'') (AStr (gateway_name p)),
              SpanAttr attempt_span (u ''llm.attempt'') (AInt (int a + 1)),
              ProviderCall p req] @ snd h @ [SpanEnd attempt_span]))"
  by (simp add: attempt_round_def Let_def split_beta)

lemma round_end_eq:
  "round_end g w i p req a =
    (if transient (env_result w i a p req) \<and> int a < gw_max_retries g
     then if a < 1024 then Again else Leave (Inl OverflowError)
     else Leave (surface (env_result w i a p req)))"
  by (auto simp: attempt_round_split handle_attempt_def retry_or_raise_def backoff_delay_def transient_def surface_def
      retryable_def Let_def split: sum.splits prod.splits if_splits)

lemma called_error_effects [simp]: "called (error_effects n d t e) = []"
  by (simp add: error_effects_def)

lemma sleeps_error_effects [simp]: "sleeps (error_effects n d t e) = []"
  by (simp add: error_effects_def)

lemma called_handle [simp]: "called (snd (handle_attempt g n a d res)) = []"
  by (auto simp: handle_attempt_def retry_or_raise_def Let_def split: sum.splits prod.splits)

lemma called_round [simp]: "called (round_log g w i p req a) = [p]"
  by (simp add: attempt_round_split Let_def)

lemma sleeps_round:
  assumes "gw_max_retries g \<le> 1024"
  shows "sleeps (round_log g w i p req a) =
    (if transient (env_result w i a p req) \<and> int a < gw_max_retries g then [delay_at g a] else [])"
  using assms
  by (auto simp: attempt_round_split Let_def handle_attempt_def retry_or_raise_def backoff_delay_def
      transient_def retryable_def delay_at_def split: sum.splits prod.splits if_splits)

subsection \<open>The loop\<close>

lemma retry_loop_Leave:
  assumes "round_end g w i p req a = Leave res"
  shows "retry_loop g w i p req a = (res, round_log g w i p req a)"
proof -
  from assms obtain es where "attempt_round g w i p req a = (Leave res, es)"
    by (metis surjective_pairing)
  then show ?thesis by (simp add: retry_loop.simps [of g w i p req a])
qed

lemma retry_loop_Again:
  assumes "round_end g w i p req a = Again"
  shows "retry_loop g w i p req a =
    (fst (retry_loop g w i p req (Suc a)), round_log g w i p req a @ snd (retry_loop g w i p req (Suc a)))"
proof -
  from assms obtain es where "attempt_round g w i p req a = (Again, es)"
    by (metis surjective_pairing)
  then show ?thesis by (simp add: retry_loop.simps [of g w i p req a] split_beta)
qed

text \<open>Induction along the rounds of the loop.\<close>

lemma retry_induct:
  assumes "\<And>a. (round_end g w i p req a = Again \<Longrightarrow> P (Suc a)) \<Longrightarrow> P a"
  shows "P a"
proof (induction "nat (gw_max_retries g - int a)" arbitrary: a rule: less_induct)
  case less
  show ?case
  proof (rule assms)
    assume "round_end g w i p req a = Again"
    then have "attempt_round g w i p req a = (Again, round_log g w i p req a)"
      by (metis surjective_pairing)
    then have "int a < gw_max_retries g" by (rule attempt_round_Again)
    then show "P (Suc a)" by (intro less) simp
  qed
qed

lemma retry_loop_until:
  assumes again: "\<forall>b. a \<le> b \<and> b < k \<longrightarrow> round_end g w i p req b = Again"
    and leave: "round_end g w i p req k = Leave res" and "a \<le> k"
  shows "retry_loop g w i p req a = (res, concat (map (round_log g w i p req) [a..<Suc k]))"
  using assms(3) again
proof (induction rule: inc_induct)
  case base
  with leave show ?case by (simp add: retry_loop_Leave)
next
  case (step b)
  then have "round_end g w i p req b = Again" by simp
  moreover have "retry_loop g w i p req (Suc b) = (res, concat (map (round_log g w i p req) [Suc b..<Suc k]))"
    using step by simp
  ultimately show ?case using step.hyps by (simp add: retry_loop_Again upt_conv_Cons del: upt_Suc)
qed

text \<open>The loop follows the policy, whatever the number of permitted retries.\<close>

lemma retry_loop_policy:
  assumes k: "k = retries (nat (gw_max_retries g)) (\<lambda>a. env_result w i a p req)"
  shows "retry_loop g w i p req 0 =
    (retry_policy (nat (gw_max_retries g)) (\<lambda>a. env_result w i a p req),
     concat (map (round_log g w i p req) [0..<Suc (min 1024 k)]))"
proof (rule retry_loop_until)
  let ?m = "nat (gw_max_retries g)" and ?f = "\<lambda>a. env_result w i a p req"
  have before: "transient (?f b) \<and> int b < gw_max_retries g" if "b < k" for b
    using that retries_before [of b ?m ?f] retries_le [of ?m ?f] unfolding k by linarith
  then show "\<forall>b. 0 \<le> b \<and> b < min 1024 k \<longrightarrow> round_end g w i p req b = Again"
    by (simp add: round_end_eq)
  show "round_end g w i p req (min 1024 k) = Leave (retry_policy ?m ?f)"
  proof (cases "1024 < k")
    case True
    with before [of 1024] show ?thesis by (simp add: round_end_eq retry_policy_def flip: k)
  next
    case False
    moreover have "\<not> transient (?f k)" if "int k < gw_max_retries g"
      using retries_stops [of ?m ?f] that k by simp
    ultimately show ?thesis by (auto simp: round_end_eq retry_policy_def min_def simp flip: k)
  qed
qed simp

lemma retry_loop_closed:
  assumes "gw_max_retries g \<le> 1024"
    and "k = retries (nat (gw_max_retries g)) (\<lambda>a. env_result w i a p req)"
  shows "retry_loop g w i p req 0 =
    (retry_spec (nat (gw_max_retries g)) (\<lambda>a. env_result w i a p req),
     concat (map (round_log g w i p req) [0..<Suc k]))"
proof -
  have "nat (gw_max_retries g) \<le> 1024" using assms(1) by simp
  then have "k \<le> 1024" unfolding assms(2) using retries_le order_trans by blast
  then have "min 1024 k = k" by (simp add: min_def)
  with retry_loop_policy [OF assms(2)] assms(1) show ?thesis by (simp add: retry_policy_spec)
qed

lemma retry_log:
  "snd (generate_with_retry g w i p req) =
     [SpanStart (provider_span (gateway_name p)),
      SpanAttr (provider_span (gateway_name p)) (u ''llm.provider'') (AStr (gateway_name p)),
      SpanAttr (provider_span (gateway_name p)) (u ''llm.request.prompt_length'')
        (AInt (int (length (prompt req))))]
     @ snd (retry_loop g w i p req 0) @ [SpanEnd (provider_span (gateway_name p))]"
  by (simp add: generate_with_retry_def Let_def split_beta)

lemma retry_result: "fst (generate_with_retry g w i p req) = fst (retry_loop g w i p req 0)"
  by (simp add: generate_with_retry_def Let_def split_beta)

lemma called_rounds: "called (concat (map (round_log g w i p req) [0..<n])) = replicate n p"
  by (induction n) (simp_all flip: replicate_append_same)

lemma called_retry_policy:
  "called (snd (generate_with_retry g w i p req))
    = replicate (Suc (min 1024 (retries (nat (gw_max_retries g)) (\<lambda>a. env_result w i a p req)))) p"
  by (simp add: retry_log retry_loop_policy [OF refl] called_rounds del: upt_Suc replicate_Suc)

lemma called_retry:
  assumes "gw_max_retries g \<le> 1024"
  shows "called (snd (generate_with_retry g w i p req))
    = replicate (Suc (retries (nat (gw_max_retries g)) (\<lambda>a. env_result w i a p req))) p"
  by (simp add: retry_log retry_loop_closed [OF assms refl] called_rounds del: upt_Suc replicate_Suc)

lemma sleeps_retry:
  assumes "gw_max_retries g \<le> 1024"
    and "k = retries (nat (gw_max_retries g)) (\<lambda>a. env_result w i a p req)"
  shows "sleeps (snd (generate_with_retry g w i p req)) = map (delay_at g) [0..<k]"
proof -
  have le: "k \<le> nat (gw_max_retries g)" using retries_le assms(2) by simp
  have "sleeps (concat (map (round_log g w i p req) [0..<n])) = map (delay_at g) [0..<n]" if "n \<le> k" for n
    using that
  proof (induction n)
    case (Suc n)
    then have "transient (env_result w i n p req)" "int n < gw_max_retries g"
      using retries_before [of n "nat (gw_max_retries g)" "\<lambda>a. env_result w i a p req"] assms(2) le by auto
    with Suc show ?case by (simp add: sleeps_round [OF assms(1)])
  qed simp
  moreover have "sleeps (round_log g w i p req k) = []"
  proof (cases "int k < gw_max_retries g")
    case True
    then have "\<not> transient (env_result w i k p req)"
      using retries_stops [of "nat (gw_max_retries g)" "\<lambda>a. env_result w i a p req"] assms(2) by simp
    then show ?thesis by (simp add: sleeps_round [OF assms(1)])
  qed (simp add: sleeps_round [OF assms(1)])
  ultimately show ?thesis by (simp add: retry_log retry_loop_closed [OF assms])
qed

text \<open>The loop depends on the gateway's configuration only, not on its router.\<close>

lemma attempt_round_router [simp]:
  "attempt_round (g\<lparr>gw_router := r\<rparr>) w i p req a = attempt_round g w i p req a"
proof -
  have "retry_or_raise (g\<lparr>gw_router := r\<rparr>) = retry_or_raise g"
    by (simp add: fun_eq_iff retry_or_raise_def backoff_delay_def)
  then have "handle_attempt (g\<lparr>gw_router := r\<rparr>) n a d res = handle_attempt g n a d res" for n a d res
    by (cases res) (simp_all add: handle_attempt_def)
  then show ?thesis by (simp only: attempt_round_split)
qed

lemma retry_loop_router [simp]:
  "retry_loop (g\<lparr>gw_router := r\<rparr>) w i p req a = retry_loop g w i p req a"
proof (induction a rule: retry_induct [of g w i p req])
  case (1 a)
  then show ?case
    by (cases "round_end g w i p req a") (simp_all add: retry_loop_Leave retry_loop_Again)
qed

lemma generate_with_retry_router [simp]:
  "generate_with_retry (g\<lparr>gw_router := r\<rparr>) w i p req = generate_with_retry g w i p req"
  by (simp add: generate_with_retry_def)

subsection \<open>Every path: labels and spans\<close>

text \<open>Telemetry goes to open spans only, and spans close in the order they were opened.
  \<open>spans st es\<close> is the stack of open spans after \<open>es\<close>, if nothing went wrong.\<close>

fun spans :: "pystr list \<Rightarrow> effect list \<Rightarrow> pystr list option" where
  "spans st [] = Some st"
| "spans st (SpanStart n # es) = spans (n # st) es"
| "spans st (SpanEnd n # es) = (if st \<noteq> [] \<and> hd st = n then spans (tl st) es else None)"
| "spans st (SpanAttr n k v # es) = (if n \<in> set st then spans st es else None)"
| "spans st (SpanEvent n k v # es) = (if n \<in> set st then spans st es else None)"
| "spans st (SpanException n e # es) = (if n \<in> set st then spans st es else None)"
| "spans st (_ # es) = spans st es"

lemma spans_append:
  "spans st (es @ fs) = (case spans st es of None \<Rightarrow> None | Some st' \<Rightarrow> spans st' fs)"
  by (induction st es rule: spans.induct) simp_all

lemma spans_trans: "spans st es = Some st' \<Longrightarrow> spans st (es @ fs) = spans st' fs"
  by (simp add: spans_append)

lemma handle_attempt_spans:
  "attempt_span \<in> set st \<Longrightarrow> provider_span n \<in> set st \<Longrightarrow> spans st (snd (handle_attempt g n a d res)) = Some st"
  by (auto simp: handle_attempt_def retry_or_raise_def error_effects_def Let_def
      split: sum.splits prod.splits if_splits)

lemma handle_attempt_labels: "list_all llm_labelled (snd (handle_attempt g n a d res))"
  by (auto simp: handle_attempt_def retry_or_raise_def error_effects_def Let_def metric_spec_def
      split: sum.splits prod.splits if_splits)

lemma round_spans:
  "provider_span (gateway_name p) \<in> set st \<Longrightarrow> spans st (round_log g w i p req a) = Some st"
  by (simp add: attempt_round_split Let_def spans_append handle_attempt_spans)

lemma round_labels: "list_all llm_labelled (round_log g w i p req a)"
  by (simp add: attempt_round_split Let_def handle_attempt_labels)

lemma retry_loop_spans:
  assumes "provider_span (gateway_name p) \<in> set st"
  shows "spans st (snd (retry_loop g w i p req a)) = Some st"
proof (induction a rule: retry_induct [of g w i p req])
  case (1 a)
  with assms show ?case
    by (cases "round_end g w i p req a")
      (simp_all add: retry_loop_Leave retry_loop_Again spans_append round_spans)
qed

lemma retry_loop_labels: "list_all llm_labelled (snd (retry_loop g w i p req a))"
proof (induction a rule: retry_induct [of g w i p req])
  case (1 a)
  then show ?case
    by (cases "round_end g w i p req a")
      (simp_all add: retry_loop_Leave retry_loop_Again round_labels)
qed

lemma generate_with_retry_spans: "spans st (snd (generate_with_retry g w i p req)) = Some st"
  by (simp add: retry_log spans_append retry_loop_spans)

lemma generate_with_retry_labels: "list_all llm_labelled (snd (generate_with_retry g w i p req))"
  by (simp add: retry_log retry_loop_labels)

end
