(* ===== verification/Gateway_Fallback.thy ===== *)
theory Gateway_Fallback
  imports Gateway_Retry
begin

text \<open>
  The fallback loop and \<open>generate\<close> in closed form, under the gateway's invariant: the result
  along the ordered providers, the router left behind, and the calls, sleeps, fallbacks,
  labels and spans of the log.
\<close>

subsection \<open>Invariant and environments\<close>

definition gateway_inv :: "gateway \<Rightarrow> bool" where
  "gateway_inv g \<longleftrightarrow>
     router_inv (gw_router g) \<and> rt_providers (gw_router g) = gw_providers g
     \<and> 0 < gw_timeout_seconds g \<and> 0 \<le> gw_max_retries g
     \<and> 0 < gw_retry_base_delay g \<and> gw_retry_base_delay g \<le> gw_retry_max_delay g"

text \<open>What an environment may do: \<open>perf_counter\<close> does not run backwards, and other tasks
  change the shared router only through operations that keep its invariant.\<close>

definition steady :: "env \<Rightarrow> bool" where
  "steady w \<longleftrightarrow> (\<forall>i. fst (env_route_time w i) \<le> snd (env_route_time w i))"

definition env_ok :: "env \<Rightarrow> bool" where
  "env_ok w \<longleftrightarrow> steady w
     \<and> (\<forall>i r. router_inv r \<longrightarrow> router_inv (env_others w i r) \<and> rt_providers (env_others w i r) = rt_providers r)"

lemma gateway_inv_managed: "gateway_inv g \<Longrightarrow> p \<in> set (gw_providers g) \<Longrightarrow> managed (gw_router g) p"
  using managed_member by (auto simp: gateway_inv_def)

lemma gateway_inv_router:
  "gateway_inv g \<Longrightarrow> router_inv r \<Longrightarrow> rt_providers r = gw_providers g \<Longrightarrow> gateway_inv (g\<lparr>gw_router := r\<rparr>)"
  by (simp add: gateway_inv_def)

subsection \<open>Metrics updates\<close>

text \<open>Metrics publication on its own: it touches neither calls, sleeps nor spans.\<close>

fun is_gauge_set :: "effect \<Rightarrow> bool" where
  "is_gauge_set (SetGauge m ls v) = True"
| "is_gauge_set _ = False"

lemma gauges_only:
  "list_all is_gauge_set es \<Longrightarrow> called es = [] \<and> sleeps es = [] \<and> spans st es = Some st"
proof (induction es)
  case (Cons e es)
  then show ?case by (cases e) simp_all
qed simp

lemma publish_gauges: "list_all is_gauge_set (publish sc st)" "list_all llm_labelled (publish sc st)"
  by (simp_all add: publish_def Let_def metric_spec_def)

lemma publish_all_gauges:
  "list_all is_gauge_set (snd (publish_all g scs)) \<and> list_all llm_labelled (snd (publish_all g scs))"
proof (induction scs)
  case (Cons sc scs)
  then show ?case
    by (auto simp: publish_gauges split: option.splits sum.splits prod.splits)
qed simp

lemma publish_all_ok:
  "\<forall>p \<in> set (gw_providers g). managed (gw_router g) p \<Longrightarrow> fst (publish_all g scs) = Inr ()"
proof (induction scs)
  case (Cons sc scs)
  have "p \<in> set (gw_providers g)" if "find (\<lambda>p. gateway_name p = n) (gw_providers g) = Some p" for p n
    using that by (auto simp: find_Some_iff)
  with Cons show ?case by (auto split: option.splits sum.splits prod.splits)
qed simp

lemma update_gauges:
  "list_all is_gauge_set (snd (update_provider_metrics g clk))
   \<and> list_all llm_labelled (snd (update_provider_metrics g clk))"
  by (auto simp: update_provider_metrics_def publish_all_gauges split: sum.splits)

lemma update_ok:
  assumes "gateway_inv g"
  shows "fst (update_provider_metrics g clk) = Inr ()"
proof -
  have man: "\<forall>p \<in> set (gw_providers g). managed (gw_router g) p"
    using gateway_inv_managed [OF assms] by blast
  moreover have "rt_providers (gw_router g) = gw_providers g" using assms by (simp add: gateway_inv_def)
  ultimately show ?thesis
    by (simp add: update_provider_metrics_def get_scores_def score_all_managed publish_all_ok)
qed

lemma update_pair:
  "gateway_inv g \<Longrightarrow> update_provider_metrics g clk = (Inr (), snd (update_provider_metrics g clk))"
  using update_ok by (metis surjective_pairing)

subsection \<open>One provider's turn\<close>

definition falls_back :: "exn \<Rightarrow> bool" where
  "falls_back e \<longleftrightarrow> is_rate_limit_error e \<or> is_unavailable_error e \<or> is_timeout_error e"

lemma falls_back_provider_error: "falls_back e \<Longrightarrow> is_provider_error e"
  by (cases e) (simp_all add: falls_back_def)

lemma authentication_provider_error:
  "is_authentication_error e \<Longrightarrow> is_provider_error e \<and> \<not> falls_back e"
  by (cases e) (simp_all add: falls_back_def)

definition turn_of :: "llm_response result \<Rightarrow> turn_end" where
  "turn_of res = (case res of Inr r \<Rightarrow> Return r | Inl e \<Rightarrow> if falls_back e then Continue e else Raise e)"

text \<open>What one turn does to the statistics of its provider.\<close>

definition turn_stats :: "env \<Rightarrow> nat \<Rightarrow> llm_response result \<Rightarrow> provider_stats \<Rightarrow> provider_stats" where
  "turn_stats w i res s =
     (case res of
        Inr _ \<Rightarrow> stats_success (snd (env_route_time w i) - fst (env_route_time w i)) s
      | Inl e \<Rightarrow> if is_provider_error e then stats_failure (env_failure_clock w i) s else s)"

definition settle_router :: "env \<Rightarrow> nat \<Rightarrow> provider \<Rightarrow> llm_response result \<Rightarrow> router \<Rightarrow> router" where
  "settle_router w i p res r =
     r\<lparr>rt_stats := (rt_stats r)(router_name p \<mapsto> turn_stats w i res (stats_of r p))\<rparr>"

definition turn_router :: "env \<Rightarrow> nat \<Rightarrow> provider \<Rightarrow> llm_response result \<Rightarrow> router \<Rightarrow> router" where
  "turn_router w i p res r0 = settle_router w i p res (env_others w i r0)"

lemma stats_inv_turn: "steady w \<Longrightarrow> stats_inv s \<Longrightarrow> stats_inv (turn_stats w i res s)"
  by (auto simp: turn_stats_def steady_def intro!: stats_inv_success stats_inv_failure split: sum.splits)

lemma settle_router_inv:
  assumes "steady w" "router_inv r" "p \<in> set (rt_providers r)"
  shows "router_inv (settle_router w i p res r)"
  using assms managed_member [OF assms(2), of p] stats_inv_turn [OF assms(1) stats_inv_of [OF assms(2)]]
  by (simp add: settle_router_def router_inv_update)

lemma settle_router_sel [simp]:
  "rt_providers (settle_router w i p res r) = rt_providers r"
  "rt_cooldown (settle_router w i p res r) = rt_cooldown r"
  "stats_of (settle_router w i p res r) q =
     (if router_name q = router_name p then turn_stats w i res (stats_of r p) else stats_of r q)"
  by (simp_all add: settle_router_def)

lemma turn_router_inv:
  assumes "env_ok w" "router_inv r" "p \<in> set (rt_providers r)"
  shows "router_inv (turn_router w i p res r) \<and> rt_providers (turn_router w i p res r) = rt_providers r"
  using assms settle_router_inv [of w "env_others w i r" p i res] by (auto simp: turn_router_def env_ok_def)

lemma note_success_ok:
  assumes inv: "gateway_inv g" and mem: "p \<in> set (gw_providers g)" and l: "0 \<le> l"
  shows "\<exists>es. note_success g w i p l = (Inr (), g\<lparr>gw_router := (gw_router g)\<lparr>rt_stats :=
      (rt_stats (gw_router g))(router_name p \<mapsto> stats_success l (stats_of (gw_router g) p))\<rparr>\<rparr>, es)
    \<and> list_all is_gauge_set es"
proof -
  let ?r = "(gw_router g)\<lparr>rt_stats := (rt_stats (gw_router g))(router_name p \<mapsto> stats_success l (stats_of (gw_router g) p))\<rparr>"
  have rec: "record_success (gw_router g) p l = Inr ?r"
    using gateway_inv_managed [OF inv mem] l by (simp add: record_success_managed)
  have "gateway_inv (g\<lparr>gw_router := ?r\<rparr>)"
    using inv rec record_success_inv by (intro gateway_inv_router) (auto simp: gateway_inv_def)
  from update_ok [OF this] update_gauges show ?thesis
    unfolding note_success_def rec by (simp add: split_beta)
qed

lemma note_failure_ok:
  assumes inv: "gateway_inv g" and mem: "p \<in> set (gw_providers g)"
  shows "\<exists>es. note_failure g w i p = (Inr (), g\<lparr>gw_router := (gw_router g)\<lparr>rt_stats :=
      (rt_stats (gw_router g))(router_name p \<mapsto> stats_failure (env_failure_clock w i) (stats_of (gw_router g) p))\<rparr>\<rparr>, es)
    \<and> list_all is_gauge_set es"
proof -
  let ?r = "(gw_router g)\<lparr>rt_stats := (rt_stats (gw_router g))(router_name p \<mapsto>
      stats_failure (env_failure_clock w i) (stats_of (gw_router g) p))\<rparr>"
  have rec: "record_failure (gw_router g) p (env_failure_clock w i) = Inr ?r"
    using gateway_inv_managed [OF inv mem] by (simp add: record_failure_managed)
  have "gateway_inv (g\<lparr>gw_router := ?r\<rparr>)"
    using inv rec record_failure_inv by (intro gateway_inv_router) (auto simp: gateway_inv_def)
  from update_ok [OF this] update_gauges show ?thesis
    unfolding note_failure_def rec by (simp add: split_beta)
qed

fun is_fallback :: "effect \<Rightarrow> bool" where
  "is_fallback (Inc LLM_FALLBACKS_TOTAL ls) = True"
| "is_fallback _ = False"

definition fallbacks :: "effect list \<Rightarrow> nat" where
  "fallbacks es = length (filter is_fallback es)"

lemma fallbacks_append [simp]: "fallbacks (es @ fs) = fallbacks es + fallbacks fs"
  by (simp add: fallbacks_def)

lemma fallbacks_Nil [simp]: "fallbacks [] = 0"
  by (simp add: fallbacks_def)

lemma fallbacks_Cons: "fallbacks (e # es) = (if is_fallback e then 1 else 0) + fallbacks es"
  by (simp add: fallbacks_def)

lemma fallbacks_gauges: "list_all is_gauge_set es \<Longrightarrow> fallbacks es = 0"
proof (induction es)
  case (Cons e es)
  then show ?case by (cases e) (simp_all add: fallbacks_Cons)
qed simp

lemma fallbacks_handle [simp]: "fallbacks (snd (handle_attempt g n a d res)) = 0"
  by (auto simp: handle_attempt_def retry_or_raise_def error_effects_def fallbacks_def Let_def
      split: sum.splits prod.splits)

lemma fallbacks_round [simp]: "fallbacks (round_log g w i p req a) = 0"
  by (simp add: attempt_round_split Let_def fallbacks_Cons)

lemma fallbacks_loop [simp]: "fallbacks (snd (retry_loop g w i p req a)) = 0"
proof (induction a rule: retry_induct [of g w i p req])
  case (1 a)
  then show ?case
    by (cases "round_end g w i p req a") (simp_all add: retry_loop_Leave retry_loop_Again)
qed

lemma fallbacks_retry [simp]: "fallbacks (snd (generate_with_retry g w i p req)) = 0"
  by (simp add: retry_log fallbacks_Cons)

text \<open>The turn under the invariant: how it ends, the router it leaves, the calls it makes and
  whether it announces a fallback.\<close>

text \<open>The handler that catches an error, by the kinds \<open>falls_back\<close> and authentication.\<close>

lemma error_kinds:
  obtains (fb) "falls_back e" "is_rate_limit_error e \<or> is_unavailable_error e \<or> is_timeout_error e"
      "is_provider_error e"
  | (auth) "\<not> falls_back e" "\<not> (is_rate_limit_error e \<or> is_unavailable_error e \<or> is_timeout_error e)"
      "is_authentication_error e" "is_provider_error e"
  | (other) "\<not> falls_back e" "\<not> (is_rate_limit_error e \<or> is_unavailable_error e \<or> is_timeout_error e)"
      "\<not> is_authentication_error e" "is_provider_error e"
  | (uncaught) "\<not> falls_back e" "\<not> (is_rate_limit_error e \<or> is_unavailable_error e \<or> is_timeout_error e)"
      "\<not> is_authentication_error e" "\<not> is_provider_error e"
  using falls_back_provider_error [of e] authentication_provider_error [of e] unfolding falls_back_def by blast

lemma stats_of_keep:
  assumes "managed r p"
  shows "r\<lparr>rt_stats := (rt_stats r)(router_name p \<mapsto> stats_of r p)\<rparr> = r"
proof -
  have "(rt_stats r)(router_name p \<mapsto> stats_of r p) = rt_stats r"
    using assms by (auto simp: managed_def stats_of_def)
  then show ?thesis by simp
qed

lemma settle_turn_closed:
  assumes inv: "gateway_inv g" and mem: "p \<in> set (gw_providers g)" and ok: "steady w"
  shows "\<exists>es. settle_turn g w i p rest res
      = (turn_of res, g\<lparr>gw_router := settle_router w i p res (gw_router g)\<rparr>, es)
    \<and> called es = [] \<and> sleeps es = []
    \<and> fallbacks es = (case turn_of res of Continue e \<Rightarrow> (if rest = [] then 0 else 1) | _ \<Rightarrow> 0)"
proof -
  let ?r = "gw_router g"
  let ?l = "snd (env_route_time w i) - fst (env_route_time w i)"
  obtain t0 t1 where t: "env_route_time w i = (t0, t1)" by (metis surjective_pairing)
  have nonneg: "0 \<le> ?l" using ok by (simp add: steady_def)
  from note_success_ok [OF inv mem nonneg] obtain ss where
    succ: "note_success g w i p ?l = (Inr (), g\<lparr>gw_router := ?r\<lparr>rt_stats :=
      (rt_stats ?r)(router_name p \<mapsto> stats_success ?l (stats_of ?r p))\<rparr>\<rparr>, ss)"
    and ss: "list_all is_gauge_set ss" by auto
  from note_failure_ok [OF inv mem] obtain fs where
    fail: "note_failure g w i p = (Inr (), g\<lparr>gw_router := ?r\<lparr>rt_stats :=
      (rt_stats ?r)(router_name p \<mapsto> stats_failure (env_failure_clock w i) (stats_of ?r p))\<rparr>\<rparr>, fs)"
    and fs: "list_all is_gauge_set fs" by auto
  have keep: "?r\<lparr>rt_stats := (rt_stats ?r)(router_name p \<mapsto> stats_of ?r p)\<rparr> = ?r"
    using stats_of_keep gateway_inv_managed [OF inv mem] by simp
  note gauges = gauges_only [OF ss] gauges_only [OF fs] fallbacks_gauges [OF ss] fallbacks_gauges [OF fs]
  note defs = settle_turn_def t turn_of_def settle_router_def turn_stats_def Let_def fallbacks_Cons
  show ?thesis
  proof (cases res)
    case (Inr resp)
    with succ t gauges show ?thesis by (simp add: defs)
  next
    case (Inl e)
    with fail keep gauges show ?thesis
      by (cases e rule: error_kinds; cases rest) (simp_all add: defs failure_events_def)
  qed
qed

lemma provider_turn_closed:
  assumes inv: "gateway_inv g" and ok: "env_ok w" and mem: "p \<in> set (gw_providers g)"
    and res: "res = fst (generate_with_retry g w i p req)"
  shows "\<exists>es. provider_turn g w req i p rest
      = (turn_of res, g\<lparr>gw_router := turn_router w i p res (gw_router g)\<rparr>, es)
    \<and> called es = called (snd (generate_with_retry g w i p req))
    \<and> sleeps es = sleeps (snd (generate_with_retry g w i p req))
    \<and> fallbacks es = (case turn_of res of Continue e \<Rightarrow> (if rest = [] then 0 else 1) | _ \<Rightarrow> 0)"
proof -
  let ?g = "g\<lparr>gw_router := env_others w i (gw_router g)\<rparr>"
  obtain log where log: "generate_with_retry g w i p req = (res, log)"
    using res by (metis surjective_pairing)
  then have "fallbacks log = 0" using fallbacks_retry [of g w i p req] by simp
  moreover have "gateway_inv ?g" using inv ok
    by (intro gateway_inv_router) (auto simp: gateway_inv_def env_ok_def)
  from settle_turn_closed [OF this, of p w i rest res] mem ok obtain es where
    "settle_turn ?g w i p rest res = (turn_of res, g\<lparr>gw_router := turn_router w i p res (gw_router g)\<rparr>, es)"
    "called es = []" "sleeps es = []"
    "fallbacks es = (case turn_of res of Continue e \<Rightarrow> (if rest = [] then 0 else 1) | _ \<Rightarrow> 0)"
    by (auto simp: env_ok_def turn_router_def)
  ultimately show ?thesis by (simp add: provider_turn_def await_turn_def log fallbacks_Cons)
qed

subsection \<open>The fallback loop\<close>

text \<open>The reference semantics of fallback: the first result that ends the loop, else the last
  error.\<close>

fun fallback_spec :: "llm_response result list \<Rightarrow> exn option \<Rightarrow> llm_response result" where
  "fallback_spec [] last_error =
     Inl (case last_error of Some e \<Rightarrow> e | None \<Rightarrow> LLMProviderError (u ''all LLM providers failed''))"
| "fallback_spec (Inr r # rs) last_error = Inr r"
| "fallback_spec (Inl e # rs) last_error =
     (if falls_back e then fallback_spec rs (Some e) else Inl e)"

text \<open>How many providers are tried: up to and including the first whose error, if any, does
  not fall back.\<close>

fun tried :: "llm_response result list \<Rightarrow> nat" where
  "tried [] = 0"
| "tried (Inr r # rs) = 1"
| "tried (Inl e # rs) = (if falls_back e then Suc (tried rs) else 1)"

lemma tried_le: "tried rs \<le> length rs"
  by (induction rs rule: tried.induct) auto

lemma tried_pos: "rs \<noteq> [] \<Longrightarrow> 0 < tried rs"
  by (cases rs rule: tried.cases) auto

definition outcome :: "gateway \<Rightarrow> env \<Rightarrow> llm_request \<Rightarrow> nat \<Rightarrow> provider \<Rightarrow> llm_response result" where
  "outcome g w req i p = fst (generate_with_retry g w i p req)"

fun outcomes :: "gateway \<Rightarrow> env \<Rightarrow> llm_request \<Rightarrow> nat \<Rightarrow> provider list \<Rightarrow> llm_response result list" where
  "outcomes g w req i [] = []"
| "outcomes g w req i (p # ps) = outcome g w req i p # outcomes g w req (Suc i) ps"

lemma outcome_router [simp]: "outcome (g\<lparr>gw_router := r\<rparr>) w req i p = outcome g w req i p"
  by (simp add: outcome_def)

lemma outcomes_router [simp]: "outcomes (g\<lparr>gw_router := r\<rparr>) w req i ps = outcomes g w req i ps"
  by (induction ps arbitrary: i) simp_all

lemma length_outcomes [simp]: "length (outcomes g w req i ps) = length ps"
  by (induction ps arbitrary: i) simp_all

lemma nth_outcomes: "j < length ps \<Longrightarrow> outcomes g w req i ps ! j = outcome g w req (i + j) (ps ! j)"
proof (induction ps arbitrary: i j)
  case (Cons p ps)
  then show ?case by (cases j) simp_all
qed simp

text \<open>The router after the turns that are taken.\<close>

fun run_turns :: "env \<Rightarrow> nat \<Rightarrow> provider list \<Rightarrow> llm_response result list \<Rightarrow> router \<Rightarrow> router" where
  "run_turns w i (p # ps) (res # rs) r =
     (let r' = turn_router w i p res r
      in case turn_of res of Continue e \<Rightarrow> run_turns w (Suc i) ps rs r' | _ \<Rightarrow> r')"
| "run_turns w i _ _ r = r"

text \<open>The log of the retry loops of the turns that are taken, from index \<open>i\<close>.\<close>

fun retry_logs :: "gateway \<Rightarrow> env \<Rightarrow> llm_request \<Rightarrow> nat \<Rightarrow> provider list \<Rightarrow> effect list list" where
  "retry_logs g w req i [] = []"
| "retry_logs g w req i (p # ps) =
     snd (generate_with_retry g w i p req) # retry_logs g w req (Suc i) ps"

lemma retry_logs_router [simp]: "retry_logs (g\<lparr>gw_router := r\<rparr>) w req i ps = retry_logs g w req i ps"
  by (induction ps arbitrary: i) simp_all

lemma outcomes_append:
  "outcomes g w req i (xs @ ys) = outcomes g w req i xs @ outcomes g w req (i + length xs) ys"
  by (induction xs arbitrary: i) simp_all

lemma retry_logs_append:
  "retry_logs g w req i (xs @ ys) = retry_logs g w req i xs @ retry_logs g w req (i + length xs) ys"
  by (induction xs arbitrary: i) simp_all

lemma length_retry_logs [simp]: "length (retry_logs g w req i ps) = length ps"
  by (induction ps arbitrary: i) simp_all

lemma take_retry_logs: "take (length xs) (retry_logs g w req i (xs @ ys)) = retry_logs g w req i xs"
  by (simp add: retry_logs_append)

text \<open>A provider's turn calls no other provider.\<close>

lemma called_loop_subset: "set (called (snd (retry_loop g w i p req a))) \<subseteq> {p}"
proof (induction a rule: retry_induct [of g w i p req])
  case (1 a)
  then show ?case
    by (cases "round_end g w i p req a") (simp_all add: retry_loop_Leave retry_loop_Again)
qed

lemma called_logs_subset: "set (concat (map called (retry_logs g w req i ps))) \<subseteq> set ps"
proof (induction ps arbitrary: i)
  case (Cons p ps)
  with called_loop_subset [of g w i p req 0] show ?case by (fastforce simp: retry_log)
qed simp

text \<open>Errors that fall back lead to the results after them.\<close>

lemma fallback_spec_pass:
  assumes "\<forall>x \<in> set xs. \<exists>e. x = Inl e \<and> falls_back e" and "ys \<noteq> []"
  shows "fallback_spec (xs @ ys) last_error = fallback_spec ys None \<and> tried (xs @ ys) = length xs + tried ys"
proof -
  have "fallback_spec ys a = fallback_spec ys None" for a
    using assms(2) by (cases ys; cases "hd ys") auto
  then show ?thesis using assms(1) by (induction xs arbitrary: last_error) auto
qed

lemma fallback_spec_member:
  "fallback_spec rs last_error \<in> set rs \<or> (\<exists>e. last_error = Some e \<and> fallback_spec rs last_error = Inl e)
     \<or> (rs = [] \<and> last_error = None)"
  by (induction rs last_error rule: fallback_spec.induct) (auto split: if_splits)

lemma turn_ofD:
  "turn_of res = Continue e \<Longrightarrow> res = Inl e \<and> falls_back e"
  "turn_of res = Return x \<Longrightarrow> res = Inr x"
  "turn_of res = Raise e \<Longrightarrow> res = Inl e \<and> \<not> falls_back e"
  by (auto simp: turn_of_def split: sum.splits if_splits)

lemma try_providers_closed:
  assumes "gateway_inv g" and ok: "env_ok w" and "set ps \<subseteq> set (gw_providers g)"
  shows "\<exists>es. try_providers g w req i ps last_error
      = (fallback_spec (outcomes g w req i ps) last_error,
         g\<lparr>gw_router := run_turns w i ps (outcomes g w req i ps) (gw_router g)\<rparr>, es)
    \<and> called es = concat (map called (take (tried (outcomes g w req i ps)) (retry_logs g w req i ps)))
    \<and> sleeps es = concat (map sleeps (take (tried (outcomes g w req i ps)) (retry_logs g w req i ps)))
    \<and> fallbacks es = tried (outcomes g w req i ps) - 1"
  using assms(1,3)
proof (induction ps arbitrary: g i last_error)
  case Nil
  then show ?case by (cases last_error) (simp_all add: Let_def fallbacks_Cons)
next
  case (Cons p ps)
  let ?res = "outcome g w req i p"
  let ?r = "turn_router w i p ?res (gw_router g)"
  let ?g = "g\<lparr>gw_router := ?r\<rparr>"
  from Cons.prems have mem: "p \<in> set (gw_providers g)" by simp
  from provider_turn_closed [OF Cons.prems(1) ok mem outcome_def, where rest = ps] obtain es where
    turn: "provider_turn g w req i p ps = (turn_of ?res, ?g, es)"
    and calls: "called es = called (snd (generate_with_retry g w i p req))"
    and sl: "sleeps es = sleeps (snd (generate_with_retry g w i p req))"
    and fb: "fallbacks es = (case turn_of ?res of Continue e \<Rightarrow> (if ps = [] then 0 else 1) | _ \<Rightarrow> 0)"
    by blast
  have inv: "gateway_inv ?g"
    using Cons.prems turn_router_inv [OF ok, of "gw_router g" p i ?res]
    by (intro gateway_inv_router) (auto simp: gateway_inv_def)
  show ?case
  proof (cases "turn_of ?res")
    case (Continue e)
    note res = turn_ofD(1) [OF this]
    from Cons.IH [OF inv, of "Suc i" "Some e"] Cons.prems(2) obtain es' where
      rest: "try_providers ?g w req (Suc i) ps (Some e) = (fallback_spec (outcomes g w req (Suc i) ps) (Some e),
        ?g\<lparr>gw_router := run_turns w (Suc i) ps (outcomes g w req (Suc i) ps) ?r\<rparr>, es')"
      and rest': "called es' = concat (map called (take (tried (outcomes g w req (Suc i) ps)) (retry_logs g w req (Suc i) ps)))"
        "sleeps es' = concat (map sleeps (take (tried (outcomes g w req (Suc i) ps)) (retry_logs g w req (Suc i) ps)))"
        "fallbacks es' = tried (outcomes g w req (Suc i) ps) - 1" by auto
    have "fallbacks es + fallbacks es' = tried (outcomes g w req (Suc i) ps)"
      using fb Continue rest'(3) tried_pos [of "outcomes g w req (Suc i) ps"] by (cases ps) auto
    with turn Continue rest res rest' calls sl show ?thesis
      by (simp add: Let_def)
  next
    case (Return x)
    with turn turn_ofD(2) [OF this] calls sl fb show ?thesis by (simp add: Let_def)
  next
    case (Raise e)
    with turn turn_ofD(3) [OF this] calls sl fb show ?thesis by (simp add: Let_def)
  qed
qed

subsection \<open>\<open>generate\<close>\<close>

lemma set_ordered: "selected \<in> set (gw_providers g) \<Longrightarrow> set (ordered_providers g selected) \<subseteq> set (gw_providers g)"
  by (auto simp: ordered_providers_def)

lemma ordered_nonempty [simp]: "ordered_providers g selected \<noteq> []"
  by (simp add: ordered_providers_def)

lemma select_in_gateway:
  "gateway_inv g \<Longrightarrow> \<exists>p \<in> set (gw_providers g). select_provider (gw_router g) clk = Inr p"
  using select_total [of "gw_router g" clk] by (simp add: gateway_inv_def)

lemma generate_closed:
  assumes inv: "gateway_inv g" and ok: "env_ok w"
    and sel: "select_provider (gw_router g) (env_select_clock w) = Inr selected"
    and ps: "ps = ordered_providers g selected" and outs: "outs = outcomes g w req 0 ps"
  shows "\<exists>es. generate g w req
      = (fallback_spec outs None, g\<lparr>gw_router := run_turns w 0 ps outs (gw_router g)\<rparr>, es)
    \<and> called es = concat (map called (take (tried outs) (retry_logs g w req 0 ps)))
    \<and> sleeps es = concat (map sleeps (take (tried outs) (retry_logs g w req 0 ps)))
    \<and> fallbacks es = tried outs - 1"
proof -
  have "selected \<in> set (gw_providers g)"
    using select_in_gateway [OF inv, of "env_select_clock w"] sel by auto
  then have "set ps \<subseteq> set (gw_providers g)" using set_ordered ps by blast
  from try_providers_closed [OF inv ok this, of req 0 None] obtain es where
    turns: "try_providers g w req 0 ps None
      = (fallback_spec outs None, g\<lparr>gw_router := run_turns w 0 ps outs (gw_router g)\<rparr>, es)"
    and facts: "called es = concat (map called (take (tried outs) (retry_logs g w req 0 ps)))"
      "sleeps es = concat (map sleeps (take (tried outs) (retry_logs g w req 0 ps)))"
      "fallbacks es = tried outs - 1"
    by (auto simp: outs)
  obtain ms where ms: "update_provider_metrics g (env_metrics_clock w 0) = (Inr (), ms)"
    using update_pair [OF inv] by blast
  then have "list_all is_gauge_set ms" using update_gauges [of g "env_metrics_clock w 0"] by simp
  from gauges_only [OF this] fallbacks_gauges [OF this] turns facts show ?thesis
    by (simp add: generate_def open_request_def sel ms ps [symmetric] Let_def fallbacks_Cons)
qed

lemma run_turns_inv:
  assumes "env_ok w"
  shows "router_inv r \<Longrightarrow> set ps \<subseteq> set (rt_providers r) \<Longrightarrow>
    router_inv (run_turns w i ps rs r) \<and> rt_providers (run_turns w i ps rs r) = rt_providers r"
proof (induction ps arbitrary: i rs r)
  case (Cons p ps)
  show ?case
  proof (cases rs)
    case (Cons res rs')
    let ?r = "turn_router w i p res r"
    have "router_inv ?r \<and> rt_providers ?r = rt_providers r"
      using Cons.prems turn_router_inv [OF assms, of r p i res] by simp
    with Cons Cons.prems Cons.IH [of ?r "Suc i" rs'] show ?thesis
      by (cases "turn_of res") (simp_all add: Let_def)
  qed (use Cons.prems in simp)
qed simp

end
