(* ===== verification/Gateway_Properties.thy ===== *)
theory Gateway_Properties
  imports Gateway_Fallback Router_Properties
begin

text \<open>
  The properties of the gateway, and the concrete gateway and environments on which their
  hypotheses are exhibited: the two providers of \<open>Router_Properties\<close> under the default
  settings.
\<close>

subsection \<open>A concrete gateway\<close>

definition demo_gateway :: gateway where
  "demo_gateway = \<lparr>gw_providers = two_providers, gw_router = fresh_router, gw_timeout_seconds = 30,
     gw_max_retries = 2, gw_retry_base_delay = 1 / 2, gw_retry_max_delay = 5\<rparr>"

definition demo_request :: llm_request where
  "demo_request = mk_request (u ''hello'')"

text \<open>An environment given by what the attempts yield: every call takes a second and nobody
  else is running.\<close>

definition quiet_env :: "(nat \<Rightarrow> nat \<Rightarrow> llm_response result) \<Rightarrow> env" where
  "quiet_env f = \<lparr>env_result = (\<lambda>i a p req. f i a), env_attempt_time = (\<lambda>i a. (0, 1)),
     env_route_time = (\<lambda>i. (0, 1)), env_select_clock = (\<lambda>j. 0), env_metrics_clock = (\<lambda>k j. 0),
     env_failure_clock = (\<lambda>i. 0), env_others = (\<lambda>i r. r)\<rparr>"

definition demo_response :: llm_response where
  "demo_response = mk_response (u ''hi'') (u ''demo-model'')"

text \<open>The first provider is always rate limited, the others answer.\<close>

definition limited_then_ok :: "nat \<Rightarrow> nat \<Rightarrow> llm_response result" where
  "limited_then_ok i a = (if i = 0 then Inl (LLMProviderRateLimitError []) else Inr demo_response)"

lemma quiet_env_sel [simp]:
  "env_result (quiet_env f) i a p req = f i a" "env_route_time (quiet_env f) i = (0, 1)"
  "env_others (quiet_env f) i r = r" "env_select_clock (quiet_env f) = (\<lambda>j. 0)"
  "env_failure_clock (quiet_env f) i = 0"
  by (simp_all add: quiet_env_def)

lemma quiet_env_ok [simp]: "env_ok (quiet_env f)"
  by (simp add: env_ok_def steady_def)

lemma demo_gateway_sel [simp]:
  "gw_providers demo_gateway = [p_mistral, p_groq]" "gw_router demo_gateway = fresh_router"
  "gw_max_retries demo_gateway = 2" "gw_retry_base_delay demo_gateway = 1 / 2"
  "gw_retry_max_delay demo_gateway = 5" "gw_timeout_seconds demo_gateway = 30"
  by (simp_all add: demo_gateway_def two_providers_def)

lemma demo_gateway_inv [simp]: "gateway_inv demo_gateway"
  by (simp add: gateway_inv_def)

lemma demo_select [simp]: "select_provider fresh_router clk = Inr p_mistral"
  by (simp add: select_provider_def lookup_stats_def fresh_stats_def)

lemma demo_ids [simp]: "prov_id p_mistral = 0" "prov_id p_groq = 1"
  by (simp_all add: p_mistral_def p_groq_def)

lemma demo_ordered [simp]: "ordered_providers demo_gateway p_mistral = [p_mistral, p_groq]"
  by (simp add: ordered_providers_def)

lemma demo_distinct [simp]: "p_mistral \<noteq> p_groq"
  by (simp add: p_mistral_def p_groq_def)

subsection \<open>Shared facts\<close>

lemma outcome_policy:
  "outcome g w req i p = retry_policy (nat (gw_max_retries g)) (\<lambda>a. env_result w i a p req)"
  by (simp add: outcome_def retry_result retry_loop_policy [OF refl])

lemma outcomes_policy:
  "outcomes g w req i ps
     = map (\<lambda>(j, p). retry_policy (nat (gw_max_retries g)) (\<lambda>a. env_result w j a p req)) (enumerate i ps)"
  by (induction ps arbitrary: i) (simp_all add: outcome_policy)

lemma outcome_retry_spec:
  "gw_max_retries g \<le> 1024 \<Longrightarrow>
     outcome g w req i p = retry_spec (nat (gw_max_retries g)) (\<lambda>a. env_result w i a p req)"
  by (simp add: outcome_policy retry_policy_spec)

lemma outcomes_retry_spec:
  "gw_max_retries g \<le> 1024 \<Longrightarrow> outcomes g w req i ps
     = map (\<lambda>(j, p). retry_spec (nat (gw_max_retries g)) (\<lambda>a. env_result w j a p req)) (enumerate i ps)"
  by (simp add: outcomes_policy retry_policy_spec)

text \<open>What the router must hold after the turns: for every provider tried, one more request, with its
  latency or the time of its failure, counted on what other tasks left while it was awaited.\<close>

definition policy_stats :: "env \<Rightarrow> nat \<Rightarrow> llm_response result \<Rightarrow> provider_stats \<Rightarrow> provider_stats" where
  "policy_stats w i res s =
     (case res of
        Inr _ \<Rightarrow> \<lparr>requests = requests s + 1, successes = successes s + 1, failures = failures s,
          total_latency_seconds = total_latency_seconds s + (snd (env_route_time w i) - fst (env_route_time w i)),
          consecutive_failures = 0, last_failure_at = None\<rparr>
      | Inl e \<Rightarrow> if is_provider_error e
          then \<lparr>requests = requests s + 1, successes = successes s, failures = failures s + 1,
            total_latency_seconds = total_latency_seconds s,
            consecutive_failures = consecutive_failures s + 1, last_failure_at = Some (env_failure_clock w i)\<rparr>
          else s)"

fun policy_router :: "env \<Rightarrow> nat \<Rightarrow> provider list \<Rightarrow> llm_response result list \<Rightarrow> router \<Rightarrow> router" where
  "policy_router w i (p # ps) (res # rs) r =
     (let r0 = env_others w i r;
          r1 = r0\<lparr>rt_stats := (rt_stats r0)(router_name p \<mapsto> policy_stats w i res (stats_of r0 p))\<rparr>
      in case res of
           Inl e \<Rightarrow> if falls_back e then policy_router w (Suc i) ps rs r1 else r1
         | Inr _ \<Rightarrow> r1)"
| "policy_router w i _ _ r = r"

lemma policy_router_run: "policy_router w i ps rs r = run_turns w i ps rs r"
proof (induction ps arbitrary: i rs r)
  case (Cons p ps)
  have stats: "policy_stats w i res s = turn_stats w i res s" for res s
    by (simp add: policy_stats_def turn_stats_def stats_success_def stats_failure_def split: sum.split)
  show ?case
    by (cases rs) (simp_all add: Cons.IH stats turn_router_def settle_router_def turn_of_def Let_def split: sum.split)
qed simp

lemma mset_ordered:
  assumes "distinct (map prov_id (gw_providers g))" and "p \<in> set (gw_providers g)"
  shows "\<exists>pre post. gw_providers g = pre @ p # post \<and> ordered_providers g p = p # pre @ post"
proof -
  from assms(2) obtain pre post where eq: "gw_providers g = pre @ p # post" by (meson split_list)
  with assms(1) have "\<forall>q \<in> set (pre @ post). prov_id q \<noteq> prov_id p" by (auto simp: image_iff)
  then have "filter (\<lambda>q. prov_id q \<noteq> prov_id p) (pre @ post) = pre @ post"
    by (simp add: filter_id_conv)
  with eq have "ordered_providers g p = p # pre @ post" by (simp add: ordered_providers_def)
  with eq show ?thesis by blast
qed

lemma called_retry_logs:
  assumes "gw_max_retries g \<le> 1024"
  shows "map called (retry_logs g w req i ps) =
    map (\<lambda>(j, p). replicate (Suc (retries (nat (gw_max_retries g)) (\<lambda>a. env_result w j a p req))) p) (enumerate i ps)"
  by (induction ps arbitrary: i) (simp_all add: called_retry [OF assms] del: replicate_Suc)

lemma delay_at_bounds:
  "gateway_inv g \<Longrightarrow> 0 < delay_at g a \<and> delay_at g a \<le> gw_retry_max_delay g"
  by (simp add: delay_at_def gateway_inv_def)

lemma delay_at_mono: "gateway_inv g \<Longrightarrow> a \<le> b \<Longrightarrow> delay_at g a \<le> delay_at g b"
  by (simp add: delay_at_def gateway_inv_def min_le_iff_disj power_increasing mult_left_mono)

lemma new_gateway_inv:
  assumes "new_gateway ps st clk = (Inr g, es)"
  shows "gateway_inv g"
proof -
  from assms obtain r where r: "new_router ps 30 = Inr r"
    and g: "g = \<lparr>gw_providers = ps, gw_router = r, gw_timeout_seconds = llm_request_timeout_seconds st,
      gw_max_retries = llm_max_retries st, gw_retry_base_delay = llm_retry_base_delay_seconds st,
      gw_retry_max_delay = llm_retry_max_delay_seconds st\<rparr>"
    and v: "0 < llm_request_timeout_seconds st" "0 \<le> llm_max_retries st"
      "0 < llm_retry_base_delay_seconds st" "llm_retry_base_delay_seconds st \<le> llm_retry_max_delay_seconds st"
    by (auto simp: new_gateway_def Let_def split: if_splits sum.splits prod.splits)
  have "rt_providers r = ps" using r by (auto simp: new_router_def split: if_splits)
  with new_router_inv [OF r] g v show ?thesis by (simp add: gateway_inv_def)
qed

text \<open>The outcome of a request is the outcome of some configured provider's turn.\<close>

lemma generate_source:
  assumes inv: "gateway_inv g" and ok: "env_ok w"
  shows "\<exists>j. \<exists>p \<in> set (gw_providers g). outcome g w req j p = fst (generate g w req)"
proof -
  from select_in_gateway [OF inv, of "env_select_clock w"] obtain selected where
    mem: "selected \<in> set (gw_providers g)"
    and sel: "select_provider (gw_router g) (env_select_clock w) = Inr selected" by blast
  let ?ps = "ordered_providers g selected"
  have "fst (generate g w req) = fallback_spec (outcomes g w req 0 ?ps) None"
    using generate_closed [OF inv ok sel refl refl, of req] by auto
  moreover have "outcomes g w req 0 ?ps \<noteq> []"
    by (metis length_0_conv length_outcomes ordered_nonempty)
  ultimately have "fst (generate g w req) \<in> set (outcomes g w req 0 ?ps)"
    using fallback_spec_member [of "outcomes g w req 0 ?ps" None] by simp
  then obtain j where j: "j < length ?ps" "outcome g w req j (?ps ! j) = fst (generate g w req)"
    by (auto simp: in_set_conv_nth nth_outcomes)
  moreover have "?ps ! j \<in> set (gw_providers g)" using set_ordered [OF mem] nth_mem j(1) by blast
  ultimately show ?thesis by blast
qed

text \<open>... and that is what one of the attempts yielded, a timeout turned into the provider error,
  or the overflow of the backoff.\<close>

lemma generate_attempt_source:
  assumes "gateway_inv g" and "env_ok w"
  obtains "fst (generate g w req) = Inl OverflowError" "1024 < gw_max_retries g"
    | i a p where "p \<in> set (gw_providers g)" "surface (env_result w i a p req) = fst (generate g w req)"
proof -
  let ?m = "nat (gw_max_retries g)"
  obtain i p where p: "p \<in> set (gw_providers g)" "outcome g w req i p = fst (generate g w req)"
    using generate_source [OF assms, of req] by blast
  show ?thesis
  proof (cases "1024 < retries ?m (\<lambda>a. env_result w i a p req)")
    case True
    with retries_le [of ?m "\<lambda>a. env_result w i a p req"] have "1024 < gw_max_retries g" by linarith
    with True p(2) that(1) show ?thesis by (simp add: outcome_policy retry_policy_def)
  next
    case False
    with p that(2) show ?thesis by (simp add: outcome_policy retry_policy_def)
  qed
qed

text \<open>What is known of a request once it has got past the first providers.\<close>

lemma generate_reaches:
  assumes inv: "gateway_inv g" and ok: "env_ok w"
    and sel: "select_provider (gw_router g) (env_select_clock w) = Inr selected"
    and ps: "ordered_providers g selected = pre @ p # post"
    and fb: "\<forall>j < length pre. \<exists>e. outcome g w req j (pre ! j) = Inl e \<and> falls_back e"
    and trace: "trace = snd (snd (generate g w req))"
    and n: "n = tried (outcomes g w req (length pre) (p # post))"
  shows "fst (generate g w req) = fallback_spec (outcomes g w req (length pre) (p # post)) None"
    and "fallbacks trace = length pre + (n - 1)"
    and "\<exists>ls. set ls \<subseteq> set pre \<and> called trace = ls
      @ concat (map called (take n (retry_logs g w req (length pre) (p # post))))"
proof -
  have "\<forall>x \<in> set (outcomes g w req 0 pre). \<exists>e. x = Inl e \<and> falls_back e"
    using fb by (auto simp: in_set_conv_nth nth_outcomes)
  from fallback_spec_pass [OF this, of "outcomes g w req (length pre) (p # post)" None]
  have spec: "fallback_spec (outcomes g w req 0 (pre @ p # post)) None
      = fallback_spec (outcomes g w req (length pre) (p # post)) None"
    and tried: "tried (outcomes g w req 0 (pre @ p # post)) = length pre + n"
    by (simp_all add: outcomes_append n)
  have pos: "0 < n" unfolding n by (rule tried_pos) simp
  have "take (length pre + n) (retry_logs g w req 0 (pre @ p # post))
      = retry_logs g w req 0 pre @ take n (retry_logs g w req (length pre) (p # post))"
    by (simp add: retry_logs_append)
  with generate_closed [OF inv ok sel ps [symmetric] refl, of req] spec tried trace pos
  show "fst (generate g w req) = fallback_spec (outcomes g w req (length pre) (p # post)) None"
    "fallbacks trace = length pre + (n - 1)"
    "\<exists>ls. set ls \<subseteq> set pre \<and> called trace = ls
      @ concat (map called (take n (retry_logs g w req (length pre) (p # post))))"
    using called_logs_subset [of g w req 0 pre] by auto
qed

text \<open>The turn of the provider that is reached, when it does not fall back, is the last.\<close>

lemma generate_ends:
  assumes "gateway_inv g" and "env_ok w"
    and "select_provider (gw_router g) (env_select_clock w) = Inr selected"
    and "ordered_providers g selected = pre @ p # post"
    and "\<forall>j < length pre. \<exists>e. outcome g w req j (pre ! j) = Inl e \<and> falls_back e"
    and "outcome g w req (length pre) p = Inl e" and "\<not> falls_back e"
    and trace: "trace = snd (snd (generate g w req))"
  shows "fst (generate g w req) = Inl e \<and> fallbacks trace = length pre
    \<and> (\<exists>ls. set ls \<subseteq> set pre \<and> called trace = ls @ called (snd (generate_with_retry g w (length pre) p req)))"
  using generate_reaches [OF assms(1-5) trace refl] assms(6,7) by simp

lemma demo_generate: "fst (generate demo_gateway (quiet_env limited_then_ok) req) = Inr demo_response"
  using generate_closed [OF demo_gateway_inv quiet_env_ok _ refl refl, of limited_then_ok p_mistral req]
  by (auto simp: outcome_retry_spec retry_spec_def limited_then_ok_def surface_def falls_back_def retries_all
      retries_none retryable_def)

subsection \<open>Properties: result and calls\<close>

text \<open>
  C1: The gateway implements its policy. Whatever the providers do, \<open>generate\<close> returns the
  result of the abstract policy applied to the ordered providers, the router's choice first:
  each provider's outcome is that of its first attempt that is not a transient failure (a
  gateway timeout, a rate limit, an unavailable provider), or of the last permitted attempt (or
  an \<open>OverflowError\<close>, should it fail transiently 1025 times); and the first outcome that is
  neither a rate limit, an unavailability nor a timeout decides, or else the last provider's
  error. The gateway differs afterwards in its router only, which holds what other tasks made of
  it with exactly one success or failure recorded for each provider tried that ended in a
  response or in a provider error. Other tasks keep the router's invariant, and the clock that
  measures latencies does not run backwards.
\<close>

theorem generate_refines_policy:
  assumes "gateway_inv g" and "env_ok w"
  shows "\<exists>selected \<in> set (gw_providers g).
    select_provider (gw_router g) (env_select_clock w) = Inr selected
    \<and> (let ps = ordered_providers g selected;
           outs = map (\<lambda>(i, p). retry_policy (nat (gw_max_retries g)) (\<lambda>a. env_result w i a p req)) (enumerate 0 ps)
       in \<exists>es. generate g w req
            = (fallback_spec outs None, g\<lparr>gw_router := policy_router w 0 ps outs (gw_router g)\<rparr>, es))"
proof -
  from select_in_gateway [OF assms(1), of "env_select_clock w"] obtain selected where
    sel: "selected \<in> set (gw_providers g)" "select_provider (gw_router g) (env_select_clock w) = Inr selected"
    by blast
  from generate_closed [OF assms(1,2) sel(2) refl refl, of req] sel show ?thesis
    by (auto simp: Let_def policy_router_run simp flip: outcomes_policy)
qed

theorem generate_refines_policy_witness:
  "let r = gw_router (fst (snd (generate demo_gateway (quiet_env limited_then_ok) demo_request)))
   in fst (generate demo_gateway (quiet_env limited_then_ok) demo_request) = Inr demo_response
     \<and> failures (stats_of r p_mistral) = 1 \<and> successes (stats_of r p_groq) = 1"
proof -
  have "router_name p_mistral \<noteq> router_name p_groq" using router_name_examples by (simp add: u_def)
  moreover have "retry_policy 2 (limited_then_ok 0) = Inl (LLMProviderRateLimitError [])"
    "retry_policy 2 (limited_then_ok (Suc 0)) = Inr demo_response"
    by (simp_all add: retry_policy_spec retry_spec_def limited_then_ok_def surface_def retries_all retries_none
        retryable_def)
  ultimately show ?thesis
    using generate_refines_policy [OF demo_gateway_inv quiet_env_ok, of limited_then_ok demo_request]
    by (auto simp: Let_def falls_back_def policy_stats_def fresh_stats_def stats_of_def u_def)
qed

text \<open>
  C9: Calls are bounded and exactly accounted for. The provider calls of one \<open>generate\<close> are,
  in this order, for each provider that is tried one call per attempt, that is one more than
  its retries; with \<open>n\<close> configured providers and \<open>m\<close> permitted retries no request ever makes
  more than \<open>n * (m + 1)\<close> calls.
\<close>

theorem generate_calls:
  assumes inv: "gateway_inv g" and ok: "env_ok w" and max: "gw_max_retries g \<le> 1024"
    and dist: "distinct (map prov_id (gw_providers g))"
    and sel: "select_provider (gw_router g) (env_select_clock w) = Inr selected"
    and outs: "outs = map (\<lambda>(i, p). retry_spec (nat (gw_max_retries g)) (\<lambda>a. env_result w i a p req))
           (enumerate 0 (ordered_providers g selected))"
    and trace: "trace = snd (snd (generate g w req))"
  shows "called trace = concat (take (tried outs)
      (map (\<lambda>(i, p). replicate (Suc (retries (nat (gw_max_retries g)) (\<lambda>a. env_result w i a p req))) p)
         (enumerate 0 (ordered_providers g selected))))
    \<and> length (called trace) \<le> length (gw_providers g) * (nat (gw_max_retries g) + 1)"
proof -
  let ?m = "nat (gw_max_retries g)"
  let ?calls = "map (\<lambda>(i, p). replicate (Suc (retries ?m (\<lambda>a. env_result w i a p req))) p)
      (enumerate 0 (ordered_providers g selected))"
  from generate_closed [OF inv ok sel refl refl, of req] have
    "called trace = concat (take (tried outs) ?calls)"
    by (auto simp: trace outs outcomes_retry_spec [OF max] take_map [symmetric] called_retry_logs [OF max])
  moreover have "\<forall>xs \<in> set ?calls. length xs \<le> ?m + 1"
    using retries_le by auto
  then have "length (concat (take n ?calls)) \<le> length ?calls * (?m + 1)" for n
  proof -
    assume all: "\<forall>xs \<in> set ?calls. length xs \<le> ?m + 1"
    have "length (concat xss) \<le> length xss * (?m + 1)" if "\<forall>xs \<in> set xss. length xs \<le> ?m + 1" for xss :: "provider list list"
      using that by (induction xss) auto
    then have "length (concat (take n ?calls)) \<le> length (take n ?calls) * (?m + 1)"
      using all by (meson in_set_takeD)
    also have "\<dots> \<le> length ?calls * (?m + 1)" by (intro mult_le_mono1) simp
    finally show ?thesis .
  qed
  moreover have "length ?calls = length (gw_providers g)"
    using select_in_gateway [OF inv, of "env_select_clock w"] mset_ordered [OF dist, of selected] sel by auto
  ultimately show ?thesis by auto
qed

theorem generate_calls_witness:
  "called (snd (snd (generate demo_gateway (quiet_env limited_then_ok) demo_request)))
     = [p_mistral, p_mistral, p_mistral, p_groq]"
proof -
  have "distinct (map prov_id (gw_providers demo_gateway))"
    "select_provider (gw_router demo_gateway) (env_select_clock (quiet_env limited_then_ok)) = Inr p_mistral"
    by simp_all
  from generate_calls [OF demo_gateway_inv quiet_env_ok _ this refl refl, of demo_request] show ?thesis
    by (simp add: retry_spec_def surface_def limited_then_ok_def falls_back_def retries_all retries_none
        retryable_def numeral_2_eq_2)
qed

subsection \<open>Properties: backoff\<close>

text \<open>
  C32: Exponential backoff with a cap. A provider's turn sleeps exactly once after each
  retried attempt, the \<open>a\<close>-th time for \<open>min(base * 2**a, max)\<close> seconds; every sleep is
  positive and at most the cap, no sleep is shorter than the one before, and the whole turn
  sleeps for at most the permitted retries times the cap.
\<close>

theorem backoff_schedule:
  assumes inv: "gateway_inv g" and max: "gw_max_retries g \<le> 1024"
    and ds: "ds = sleeps (snd (generate_with_retry g w i p req))"
  shows "ds = map (\<lambda>a. min (gw_retry_base_delay g * 2 ^ a) (gw_retry_max_delay g))
      [0..<retries (nat (gw_max_retries g)) (\<lambda>a. env_result w i a p req)]
    \<and> (\<forall>d \<in> set ds. 0 < d \<and> d \<le> gw_retry_max_delay g) \<and> sorted ds
    \<and> sum_list ds \<le> real_of_int (gw_max_retries g) * gw_retry_max_delay g"
proof -
  let ?k = "retries (nat (gw_max_retries g)) (\<lambda>a. env_result w i a p req)"
  have eq: "ds = map (delay_at g) [0..<?k]" by (simp add: ds sleeps_retry [OF max refl])
  have b: "\<forall>d \<in> set ds. 0 < d \<and> d \<le> gw_retry_max_delay g"
    using delay_at_bounds [OF inv] by (auto simp: eq)
  have s: "sorted ds"
    using delay_at_mono [OF inv] by (simp add: eq sorted_iff_nth_mono)
  have "sum_list ds \<le> real (length ds) * gw_retry_max_delay g"
    using b by (induction ds) (auto simp: algebra_simps)
  also have "\<dots> \<le> real_of_int (gw_max_retries g) * gw_retry_max_delay g"
  proof (rule mult_right_mono)
    have "int ?k \<le> gw_max_retries g"
      using retries_le [of "nat (gw_max_retries g)" "\<lambda>a. env_result w i a p req"] inv
      unfolding gateway_inv_def by linarith
    then show "real (length ds) \<le> real_of_int (gw_max_retries g)" by (simp add: eq)
    show "0 \<le> gw_retry_max_delay g" using inv by (simp add: gateway_inv_def)
  qed
  finally have total: "sum_list ds \<le> real_of_int (gw_max_retries g) * gw_retry_max_delay g" .
  have "delay_at g = (\<lambda>a. min (gw_retry_base_delay g * 2 ^ a) (gw_retry_max_delay g))"
    by (simp add: fun_eq_iff delay_at_def)
  with eq b s total show ?thesis by (intro conjI) (simp_all only:)
qed

theorem backoff_schedule_witness:
  "sleeps (snd (generate_with_retry demo_gateway (quiet_env limited_then_ok) 0 p_mistral demo_request)) = [1 / 2, 1]"
  using backoff_schedule [OF demo_gateway_inv _ refl, of "quiet_env limited_then_ok" 0 p_mistral demo_request]
  by (simp add: limited_then_ok_def retries_all retryable_def numeral_2_eq_2)

text \<open>
  C35: The cap does not reach beyond 1024 retries. If more than 1024 retries are permitted and the
  first 1025 attempts at a provider that a request has come to all fail transiently, the request
  does not end in a provider error and does not fall back: the power \<open>2**1024\<close> no longer fits a
  float, and the request raises \<open>OverflowError\<close> after exactly 1025 calls to this provider.
\<close>

theorem backoff_overflow:
  assumes inv: "gateway_inv g" and ok: "env_ok w"
    and sel: "select_provider (gw_router g) (env_select_clock w) = Inr selected"
    and ps: "ordered_providers g selected = pre @ p # post"
    and fb: "\<forall>j < length pre. \<exists>e. outcome g w req j (pre ! j) = Inl e \<and> falls_back e"
    and many: "1024 < gw_max_retries g" and fails: "\<forall>a \<le> 1024. transient (env_result w (length pre) a p req)"
    and trace: "trace = snd (snd (generate g w req))"
  shows "fst (generate g w req) = Inl OverflowError \<and> \<not> is_provider_error OverflowError
    \<and> fallbacks trace = length pre
    \<and> (\<exists>ls. set ls \<subseteq> set pre \<and> called trace = ls @ replicate 1025 p)"
proof -
  let ?f = "\<lambda>a. env_result w (length pre) a p req" and ?m = "nat (gw_max_retries g)"
  have "1024 < retries ?m ?f"
  proof (rule ccontr)
    assume "\<not> 1024 < retries ?m ?f"
    with many have "retries ?m ?f < ?m" "retries ?m ?f \<le> 1024" by linarith+
    with retries_stops [of ?m ?f] fails show False by blast
  qed
  then have out: "outcome g w req (length pre) p = Inl OverflowError"
    and "called (snd (generate_with_retry g w (length pre) p req)) = replicate 1025 p"
    by (simp_all add: outcome_policy retry_policy_def called_retry_policy del: replicate_Suc)
  with generate_ends [OF inv ok sel ps fb out _ trace] show ?thesis by (simp add: falls_back_def)
qed

theorem backoff_overflow_witness:
  "fst (generate (demo_gateway\<lparr>gw_max_retries := 2000\<rparr>)
     (quiet_env (\<lambda>i a. Inl TimeoutError)) demo_request) = Inl OverflowError"
proof -
  have "gateway_inv (demo_gateway\<lparr>gw_max_retries := 2000\<rparr>)" by (simp add: gateway_inv_def)
  moreover have "ordered_providers (demo_gateway\<lparr>gw_max_retries := 2000\<rparr>) p_mistral = [] @ p_mistral # [p_groq]"
    by (simp add: ordered_providers_def)
  ultimately show ?thesis
    using backoff_overflow [OF _ quiet_env_ok _ _ _ _ _ refl, of "demo_gateway\<lparr>gw_max_retries := 2000\<rparr>"
        "\<lambda>i a. Inl TimeoutError" p_mistral "[]" p_mistral "[p_groq]" demo_request]
    by (simp add: retryable_def)
qed

text \<open>
  C34: A timeout the provider itself reports is not retried, but falls back. If the first attempt
  at a provider that a request has come to raises \<open>LLMProviderTimeoutError\<close>, as every HTTP
  provider does when its client times out, this provider is called once and nothing is slept in
  its turn, however many retries are permitted; the next provider is called right after it, and
  the rest of the chain decides the request. Only the gateway's own \<open>wait_for\<close> timeout is retried.
\<close>

theorem provider_timeout_not_retried:
  assumes inv: "gateway_inv g" and ok: "env_ok w"
    and sel: "select_provider (gw_router g) (env_select_clock w) = Inr selected"
    and ps: "ordered_providers g selected = pre @ p # q # post"
    and fb: "\<forall>j < length pre. \<exists>e. outcome g w req j (pre ! j) = Inl e \<and> falls_back e"
    and out: "env_result w (length pre) 0 p req = Inl (LLMProviderTimeoutError m)"
    and trace: "trace = snd (snd (generate g w req))"
  shows "sleeps (snd (generate_with_retry g w (length pre) p req)) = []
    \<and> (\<exists>ls rs. set ls \<subseteq> set pre \<and> set rs \<subseteq> set (q # post) \<and> called trace = ls @ p # q # rs)
    \<and> length pre < fallbacks trace
    \<and> fst (generate g w req) = fallback_spec (outcomes g w req (Suc (length pre)) (q # post)) None"
proof -
  let ?i = "length pre" and ?os = "outcomes g w req (Suc (length pre)) (q # post)"
  let ?n = "tried ?os" and ?logs = "retry_logs g w req (Suc (length pre)) (q # post)"
  have leave: "round_end g w ?i p req 0 = Leave (Inl (LLMProviderTimeoutError m))"
    "sleeps (round_log g w ?i p req 0) = []"
    using out by (simp_all add: attempt_round_split Let_def handle_attempt_def)
  from retry_loop_Leave [OF this(1)] this(2) have
    o: "outcome g w req ?i p = Inl (LLMProviderTimeoutError m)"
    and c: "called (snd (generate_with_retry g w ?i p req)) = [p]"
    and s: "sleeps (snd (generate_with_retry g w ?i p req)) = []"
    by (simp_all add: outcome_def retry_result retry_log)
  have pos: "0 < ?n" by (rule tried_pos) simp
  obtain k where k: "called (snd (generate_with_retry g w (Suc ?i) q req)) = q # replicate k q"
    by (simp add: called_retry_policy)
  obtain n' where n': "?n = Suc n'" using pos by (cases ?n) auto
  define rs where "rs = replicate k q @ concat (map called (take n' (retry_logs g w req (Suc (Suc ?i)) post)))"
  have "set rs \<subseteq> set (q # post)"
    using called_logs_subset [of g w req "Suc (Suc ?i)" post] by (auto simp: rs_def dest: in_set_takeD)
  moreover have "concat (map called (take ?n ?logs)) = q # rs"
    unfolding n' rs_def by (simp add: k)
  ultimately have rs: "set rs \<subseteq> set (q # post)" "concat (map called (take ?n ?logs)) = q # rs" by blast+
  have os: "outcomes g w req ?i (p # q # post) = [Inl (LLMProviderTimeoutError m)] @ ?os" using o by simp
  have pass: "fallback_spec (outcomes g w req ?i (p # q # post)) None = fallback_spec ?os None"
    "tried (outcomes g w req ?i (p # q # post)) = Suc ?n"
    unfolding os by (subst fallback_spec_pass; simp add: falls_back_def)+
  note reach = generate_reaches [OF inv ok sel ps fb trace refl, unfolded pass]
  from reach(3) obtain ls where "set ls \<subseteq> set pre" "called trace = ls @ p # concat (map called (take ?n ?logs))"
    using c by auto
  then have "set ls \<subseteq> set pre \<and> set rs \<subseteq> set (q # post) \<and> called trace = ls @ p # q # rs"
    using rs by simp
  moreover have "length pre < fallbacks trace" using reach(2) pos by linarith
  ultimately show ?thesis using reach(1) s by blast
qed

theorem provider_timeout_not_retried_witness:
  "\<exists>rs. called (snd (snd (generate demo_gateway
     (quiet_env (\<lambda>i a. Inl (LLMProviderTimeoutError []))) demo_request))) = p_mistral # p_groq # rs"
  using provider_timeout_not_retried [OF demo_gateway_inv quiet_env_ok _ _ _ _ refl,
      of "\<lambda>i a. Inl (LLMProviderTimeoutError [])" p_mistral "[]" p_mistral p_groq "[]" demo_request "[]"]
  by auto

subsection \<open>Properties: errors\<close>

text \<open>
  C33: Errors other than rate limits, unavailability and timeouts end the request. If a request
  has come to a provider and, after attempts that failed transiently, attempt \<open>a\<close> raises any other
  error, for instance an authentication failure, that attempt is the provider's last, no later
  provider is called, and \<open>generate\<close> raises exactly that error. (The attempt is one that is made: at
  most the permitted retries, and at most 1024, beyond which the backoff overflows.)
\<close>

theorem other_errors_end_the_request:
  assumes inv: "gateway_inv g" and ok: "env_ok w"
    and sel: "select_provider (gw_router g) (env_select_clock w) = Inr selected"
    and ps: "ordered_providers g selected = pre @ p # post"
    and fb: "\<forall>j < length pre. \<exists>e. outcome g w req j (pre ! j) = Inl e \<and> falls_back e"
    and before: "\<forall>b < a. transient (env_result w (length pre) b p req)"
    and made: "int a \<le> gw_max_retries g" "a \<le> 1024"
    and err: "env_result w (length pre) a p req = Inl e" "\<not> retryable e" "\<not> falls_back e"
    and trace: "trace = snd (snd (generate g w req))"
  shows "fst (generate g w req) = Inl e \<and> fallbacks trace = length pre
    \<and> (\<exists>ls. set ls \<subseteq> set pre \<and> called trace = ls @ replicate (Suc a) p)"
proof -
  have "retries (nat (gw_max_retries g)) (\<lambda>b. env_result w (length pre) b p req) = a"
    using before err made by (intro retries_eqI) auto
  moreover from err(2) have "e \<noteq> TimeoutError" by (auto simp: retryable_def)
  ultimately have out: "outcome g w req (length pre) p = Inl e"
    and "called (snd (generate_with_retry g w (length pre) p req)) = replicate (Suc a) p"
    using err(1) made(2)
    by (simp_all add: outcome_policy retry_policy_def surface_def called_retry_policy min_def del: replicate_Suc)
  with generate_ends [OF inv ok sel ps fb out err(3) trace] show ?thesis by simp
qed

theorem other_errors_end_the_request_witness:
  "let w = quiet_env (\<lambda>i a. if a = 0 then Inl TimeoutError else Inl (LLMProviderAuthenticationError [])) in
   fst (generate demo_gateway w demo_request) = Inl (LLMProviderAuthenticationError [])
   \<and> called (snd (snd (generate demo_gateway w demo_request))) = [p_mistral, p_mistral]"
  using other_errors_end_the_request [OF demo_gateway_inv quiet_env_ok _ _ _ _ _ _ _ _ _ refl,
      of "\<lambda>i a. if a = 0 then Inl TimeoutError else Inl (LLMProviderAuthenticationError [])" p_mistral "[]"
        p_mistral "[p_groq]" demo_request 1 "LLMProviderAuthenticationError []"]
  by (simp add: falls_back_def retryable_def Let_def)

text \<open>
  The contract with the providers carries over. If every attempt returns, times out or
  raises one of the \<open>LLMProviderError\<close> classes, then so does \<open>generate\<close>: its errors are
  provider errors that some provider's turn ended in, the gateway's own \<open>TimeoutError\<close> never
  escapes, and the closing \<open>"all LLM providers failed"\<close> is never reached without a provider
  having raised it.
\<close>

lemma generate_raises_provider_errors:
  assumes inv: "gateway_inv g" and ok: "env_ok w" and max: "gw_max_retries g \<le> 1024"
    and contract: "\<forall>i a p e. env_result w i a p req = Inl e \<longrightarrow> e = TimeoutError \<or> is_provider_error e"
    and raised: "fst (generate g w req) = Inl e"
  shows "is_provider_error e \<and> (\<exists>i. \<exists>p \<in> set (gw_providers g). outcome g w req i p = Inl e)"
proof -
  from generate_source [OF inv ok, of req] raised obtain j p where
    p: "p \<in> set (gw_providers g)" "outcome g w req j p = Inl e" by auto
  obtain a where "surface (env_result w j a p req) = Inl e"
    using p(2) by (auto simp: outcome_retry_spec [OF max] retry_spec_def)
  with contract have "is_provider_error e" by (auto simp: surface_def split: sum.splits if_splits)
  with p show ?thesis by blast
qed

lemma generate_raises_example:
  "\<exists>e. fst (generate demo_gateway (quiet_env (\<lambda>i a. Inl TimeoutError)) demo_request) = Inl e
     \<and> is_provider_error e"
proof -
  let ?w = "quiet_env (\<lambda>i a. Inl TimeoutError :: llm_response result)"
  have "outcomes demo_gateway ?w demo_request 0 [p_mistral, p_groq]
      = [Inl (LLMProviderTimeoutError (u ''LLM provider request timed out'')),
         Inl (LLMProviderTimeoutError (u ''LLM provider request timed out''))]"
    by (simp add: outcome_retry_spec retry_spec_def surface_def)
  then have raised: "fst (generate demo_gateway ?w demo_request)
      = Inl (LLMProviderTimeoutError (u ''LLM provider request timed out''))"
    using generate_closed [OF demo_gateway_inv quiet_env_ok _ refl refl,
        of "\<lambda>i a. Inl TimeoutError" p_mistral demo_request]
    by (auto simp: falls_back_def)
  from generate_raises_provider_errors [OF demo_gateway_inv quiet_env_ok _ _ this] raised
  show ?thesis by auto
qed

text \<open>
  C36: An exception outside \<open>LLMProviderError\<close> is invisible to the router. If the selected
  provider has no recorded request, its first call raises such an exception, and no other task
  changes the router in the meantime, the request fails with it, no fallback takes place, the router is left as it was, and the next request selects
  the same provider again: a provider that fails this way from the start blocks all the others.
\<close>

theorem unclassified_error_starves_fallback:
  assumes inv: "gateway_inv g" and ok: "env_ok w" and alone: "\<forall>i r. env_others w i r = r"
    and sel: "select_provider (gw_router g) (env_select_clock w) = Inr p"
    and fresh: "requests (stats_of (gw_router g) p) = 0"
    and bad: "env_result w 0 0 p req = Inl e" "e \<noteq> TimeoutError" "\<not> is_provider_error e"
  shows "fst (generate g w req) = Inl e \<and> gw_router (fst (snd (generate g w req))) = gw_router g
    \<and> select_provider (gw_router (fst (snd (generate g w req)))) clk = Inr p"
proof -
  have nb: "\<not> retryable e" "\<not> falls_back e"
    using bad by (cases e; simp add: retryable_def falls_back_def)+
  have "round_end g w 0 p req 0 = Leave (Inl e)"
    using bad nb by (cases e) (simp_all add: attempt_round_split Let_def handle_attempt_def)
  then have out: "outcome g w req 0 p = Inl e"
    by (simp add: outcome_def retry_result retry_loop_Leave)
  have mem: "p \<in> set (rt_providers (gw_router g))"
    using select_in_gateway [OF inv, of "env_select_clock w"] sel inv by (auto simp: gateway_inv_def)
  have man: "managed (gw_router g) p" using inv mem managed_member by (auto simp: gateway_inv_def)
  have keep: "turn_router w 0 p (Inl e) (gw_router g) = gw_router g"
  proof -
    have "(rt_stats (gw_router g))(router_name p \<mapsto> stats_of (gw_router g) p) = rt_stats (gw_router g)"
      using man by (auto simp: managed_def stats_of_def)
    with alone bad(3) show ?thesis by (simp add: turn_router_def settle_router_def turn_stats_def)
  qed
  have gen: "fst (generate g w req) = Inl e \<and> gw_router (fst (snd (generate g w req))) = gw_router g"
    using generate_closed [OF inv ok sel refl refl, of req] out nb keep
    by (auto simp: ordered_providers_def turn_of_def Let_def)
  have "select_provider (gw_router g) clk = select_provider (gw_router g) (env_select_clock w)"
  proof -
    have "\<forall>q \<in> set (rt_providers (gw_router g)). managed (gw_router g) q"
      using inv managed_member by (auto simp: gateway_inv_def)
    from first_unobserved_cases [OF this] mem fresh show ?thesis
      by (auto simp: select_provider_def)
  qed
  with gen sel show ?thesis by simp
qed

theorem unclassified_error_starves_fallback_witness:
  "fst (generate demo_gateway (quiet_env (\<lambda>i a. Inl (RuntimeError []))) demo_request) = Inl (RuntimeError [])"
  using unclassified_error_starves_fallback [OF demo_gateway_inv quiet_env_ok,
      of "\<lambda>i a. Inl (RuntimeError [])" p_mistral demo_request "RuntimeError []"]
  by (simp add: fresh_stats_def)

end
