(* ===== verification/Gateway_State.thy ===== *)
theory Gateway_State
  imports Gateway_Properties
begin

text \<open>
  What a request leaves behind: the statistics of every provider, the invariant of the
  gateway over any sequence of requests, and the shape of the telemetry on every path.
\<close>

subsection \<open>Statistics after the turns\<close>

lemma turn_router_stats:
  assumes "env_others w i r = r"
  shows "stats_of (turn_router w i p res r) q =
    (if router_name q = router_name p then turn_stats w i res (stats_of r p) else stats_of r q)"
  using assms by (simp add: turn_router_def)

lemma stats_of_name: "router_name p = router_name q \<Longrightarrow> stats_of r p = stats_of r q"
  by (simp add: stats_of_def)

lemma run_turns_other:
  assumes "\<forall>i r. env_others w i r = r"
  shows "router_name q \<notin> router_name ` set ps \<Longrightarrow> stats_of (run_turns w i ps rs r) q = stats_of r q"
proof (induction ps arbitrary: i rs r)
  case (Cons p ps)
  then show ?case
    using assms
    by (cases rs) (auto simp: Let_def turn_router_stats split: turn_end.splits)
qed simp

lemma run_turns_stats:
  assumes alone: "\<forall>i r. env_others w i r = r"
  shows "distinct (map router_name ps) \<Longrightarrow> length rs = length ps \<Longrightarrow> j < length ps \<Longrightarrow>
    stats_of (run_turns w i ps rs r) (ps ! j) =
      (if j < tried rs then turn_stats w (i + j) (rs ! j) (stats_of r (ps ! j)) else stats_of r (ps ! j))"
proof (induction ps arbitrary: i rs r j)
  case (Cons p ps)
  from Cons.prems obtain res rs' where rs: "rs = res # rs'" "length rs' = length ps"
    by (cases rs) auto
  let ?r = "turn_router w i p res r"
  have p: "stats_of ?r p = turn_stats w i res (stats_of r p)"
    using alone by (simp add: turn_router_stats)
  have q: "stats_of ?r q = stats_of r q" if "q \<in> set ps" for q
  proof -
    have "router_name q \<noteq> router_name p" using that Cons.prems(1) by (metis distinct.simps(2) image_eqI list.simps(9) set_map)
    with alone show ?thesis by (simp add: turn_router_stats)
  qed
  show ?case
  proof (cases "turn_of res")
    case (Continue e)
    then have t: "tried rs = Suc (tried rs')"
      using rs by (auto simp: turn_of_def split: sum.splits if_splits)
    show ?thesis
    proof (cases j)
      case 0
      with rs Continue p t run_turns_other [OF alone, of p ps "Suc i" rs' ?r] Cons.prems(1) show ?thesis
        by (simp add: Let_def)
    next
      case (Suc k)
      with Cons.prems rs Continue t Cons.IH [of rs' k "Suc i" ?r] q [of "ps ! k"] show ?thesis
        by (simp add: Let_def)
    qed
  next
    case (Return x)
    then have t: "tried rs = 1" using rs by (auto simp: turn_of_def split: sum.splits if_splits)
    with rs Return p q Cons.prems show ?thesis by (cases j) (simp_all add: Let_def)
  next
    case (Raise e)
    then have t: "tried rs = 1" using rs by (auto simp: turn_of_def split: sum.splits if_splits)
    with rs Raise p q Cons.prems show ?thesis by (cases j) (simp_all add: Let_def)
  qed
qed simp

subsection \<open>Sequences of requests\<close>

text \<open>The gateways that serving requests, one after the other, can produce. Within each
  request other tasks may interfere as \<open>env_ok\<close> allows.\<close>

inductive served :: "provider list \<Rightarrow> settings \<Rightarrow> gateway \<Rightarrow> bool" for ps st where
  built: "new_gateway ps st clk = (Inr g, es) \<Longrightarrow> served ps st g"
| request: "served ps st g \<Longrightarrow> env_ok w \<Longrightarrow> generate g w req = (res, g', es) \<Longrightarrow> served ps st g'"

lemma generate_keeps_inv:
  assumes inv: "gateway_inv g" and ok: "env_ok w"
  shows "\<exists>r. fst (snd (generate g w req)) = g\<lparr>gw_router := r\<rparr> \<and> router_inv r
    \<and> rt_providers r = gw_providers g"
proof -
  from select_in_gateway [OF inv, of "env_select_clock w"] obtain selected where
    mem: "selected \<in> set (gw_providers g)"
    and sel: "select_provider (gw_router g) (env_select_clock w) = Inr selected" by blast
  have r: "router_inv (gw_router g)" "rt_providers (gw_router g) = gw_providers g"
    using inv by (simp_all add: gateway_inv_def)
  from generate_closed [OF inv ok sel refl refl, of req]
    run_turns_inv [OF ok r(1), of "ordered_providers g selected"] set_ordered [OF mem] r(2)
  show ?thesis by auto
qed

lemma served_inv: "served ps st g \<Longrightarrow> gateway_inv g \<and> gw_providers g = ps
  \<and> gw_max_retries g = llm_max_retries st"
proof (induction rule: served.induct)
  case (built clk g es)
  from new_gateway_inv [OF this] built show ?case
    by (auto simp: new_gateway_def Let_def split: if_splits sum.splits prod.splits)
next
  case (request g w req res g' es)
  from generate_keeps_inv [of g w req] request obtain r where
    "g' = g\<lparr>gw_router := r\<rparr>" "router_inv r" "rt_providers r = gw_providers g" by auto
  with request.IH show ?case by (auto simp: gateway_inv_def)
qed

subsection \<open>Telemetry on every path\<close>

lemma update_spans: "spans st (snd (update_provider_metrics g clk)) = Some st"
  using gauges_only update_gauges by blast

lemma update_labels: "list_all llm_labelled (snd (update_provider_metrics g clk))"
  using update_gauges by blast

lemma note_success_telemetry:
  "spans st (snd (snd (note_success g w i p l))) = Some st
   \<and> list_all llm_labelled (snd (snd (note_success g w i p l)))"
  by (simp add: note_success_def split_beta update_spans update_labels split: sum.splits)

lemma note_failure_telemetry:
  "spans st (snd (snd (note_failure g w i p))) = Some st
   \<and> list_all llm_labelled (snd (snd (note_failure g w i p)))"
  by (simp add: note_failure_def split_beta update_spans update_labels split: sum.splits)

lemma failure_events_telemetry:
  "gateway_span \<in> set st \<Longrightarrow> spans st (failure_events n i e rest) = Some st"
  "list_all llm_labelled (failure_events n i e rest)"
  by (simp_all add: failure_events_def metric_spec_def split: list.splits)

lemma provider_turn_telemetry:
  "(gateway_span \<in> set st \<longrightarrow> spans st (snd (snd (provider_turn g w req i p rest))) = Some st)
   \<and> list_all llm_labelled (snd (snd (provider_turn g w req i p rest)))"
proof -
  let ?g = "g\<lparr>gw_router := env_others w i (gw_router g)\<rparr>"
  obtain res es where retry: "generate_with_retry g w i p req = (res, es)" by fastforce
  have es: "spans st es = Some st" "list_all llm_labelled es" for st
    using generate_with_retry_spans [of st g w i p req] generate_with_retry_labels [of g w i p req]
    by (simp_all add: retry)
  obtain t0 t1 where t: "env_route_time w i = (t0, t1)" by fastforce
  obtain sr sg se where succ: "note_success ?g w i p (t1 - t0) = (sr, sg, se)" by (metis surjective_pairing)
  obtain fr fg fe where fail: "note_failure ?g w i p = (fr, fg, fe)" by (metis surjective_pairing)
  have "spans st se = Some st" "list_all llm_labelled se" "spans st fe = Some st" "list_all llm_labelled fe" for st
    using note_success_telemetry [of st ?g w i p "t1 - t0"] note_failure_telemetry [of st ?g w i p]
    by (simp_all add: succ fail)
  with es show ?thesis
    by (simp add: provider_turn_def await_turn_def settle_turn_def Let_def retry t succ fail spans_append failure_events_telemetry
        split: sum.splits)
qed

lemma try_providers_telemetry:
  "(gateway_span \<in> set st \<longrightarrow> spans st (snd (snd (try_providers g w req i ps last_error))) = Some st)
   \<and> list_all llm_labelled (snd (snd (try_providers g w req i ps last_error)))"
proof (induction ps arbitrary: g i last_error)
  case Nil
  then show ?case by (simp add: Let_def split: option.splits)
next
  case (Cons p ps)
  obtain t g' es where turn: "provider_turn g w req i p ps = (t, g', es)" by (metis surjective_pairing)
  with provider_turn_telemetry [of st g w req i p ps] Cons.IH show ?case
    by (cases t) (simp_all add: split_beta spans_append)
qed

lemma generate_telemetry:
  "spans [] (snd (snd (generate g w req))) = Some [] \<and> list_all llm_labelled (snd (snd (generate g w req)))"
proof -
  obtain ur ue where upd: "update_provider_metrics g (env_metrics_clock w 0) = (ur, ue)" by fastforce
  have ue: "spans st ue = Some st" "list_all llm_labelled ue" for st
    using update_spans [of st g "env_metrics_clock w 0"] update_labels [of g "env_metrics_clock w 0"]
    by (simp_all add: upd)
  have try1: "spans [gateway_span] (snd (snd (try_providers g w req 0 ps None))) = Some [gateway_span]"
    "list_all llm_labelled (snd (snd (try_providers g w req 0 ps None)))" for ps
    using try_providers_telemetry [of "[gateway_span]" g w req 0 ps None] by simp_all
  show ?thesis
    by (simp add: generate_def open_request_def upd Let_def split_beta spans_append ue try1 metric_spec_def split: sum.splits)
qed

subsection \<open>Properties\<close>

text \<open>
  Each request is accounted for exactly once per provider. When no other task interferes
  and names and identities are distinct, \<open>generate\<close> changes the statistics of precisely the
  providers it tried: the one that answered gains one request and one success with the
  measured latency and loses its failure streak; each one that ended in a provider error gains
  one request and one failure; everyone else is unchanged.
\<close>

lemma generate_accounting:
  assumes inv: "gateway_inv g" and ok: "env_ok w" and alone: "\<forall>i r. env_others w i r = r"
    and names: "distinct (map router_name (gw_providers g))" "distinct (map prov_id (gw_providers g))"
    and sel: "select_provider (gw_router g) (env_select_clock w) = Inr selected"
    and ps: "ps = ordered_providers g selected" and j: "j < length ps"
    and r': "r' = gw_router (fst (snd (generate g w req)))"
    and n: "n = tried (outcomes g w req 0 ps)"
  shows "stats_of r' (ps ! j) =
    (let s = stats_of (gw_router g) (ps ! j); (t0, t1) = env_route_time w j
     in if n \<le> j then s
        else case outcome g w req j (ps ! j) of
               Inr resp \<Rightarrow> stats_success (t1 - t0) s
             | Inl e \<Rightarrow> if is_provider_error e then stats_failure (env_failure_clock w j) s else s)"
proof -
  have "distinct (map router_name ps)"
  proof -
    have "selected \<in> set (gw_providers g)"
      using select_in_gateway [OF inv, of "env_select_clock w"] sel by auto
    from mset_ordered [OF names(2) this] names(1) ps show ?thesis by auto
  qed
  from run_turns_stats [OF alone this, of "outcomes g w req 0 ps" j 0 "gw_router g"] j
  have "stats_of (run_turns w 0 ps (outcomes g w req 0 ps) (gw_router g)) (ps ! j) =
      (if j < n then turn_stats w j (outcome g w req j (ps ! j)) (stats_of (gw_router g) (ps ! j))
       else stats_of (gw_router g) (ps ! j))"
    by (simp add: nth_outcomes n)
  with generate_closed [OF inv ok sel ps refl, of req] r' show ?thesis
    by (auto simp: turn_stats_def Let_def split: prod.splits sum.splits)
qed

lemma generate_accounting_example:
  "stats_of (gw_router (fst (snd (generate demo_gateway (quiet_env limited_then_ok) demo_request)))) p_mistral
     = stats_failure 0 fresh_stats
   \<and> stats_of (gw_router (fst (snd (generate demo_gateway (quiet_env limited_then_ok) demo_request)))) p_groq
     = stats_success 1 fresh_stats"
proof -
  have outs: "outcome demo_gateway (quiet_env limited_then_ok) demo_request 0 p_mistral = Inl (LLMProviderRateLimitError [])"
    "outcome demo_gateway (quiet_env limited_then_ok) demo_request (Suc 0) p_groq = Inr demo_response"
    by (simp_all add: outcome_retry_spec retry_spec_def limited_then_ok_def surface_def retries_none)
  from generate_accounting [OF demo_gateway_inv quiet_env_ok _ _ _ _ demo_ordered [symmetric] _ refl refl,
      of limited_then_ok 0 demo_request]
    generate_accounting [OF demo_gateway_inv quiet_env_ok _ _ _ _ demo_ordered [symmetric] _ refl refl,
      of limited_then_ok 1 demo_request] outs
  show ?thesis by (simp add: falls_back_def)
qed

text \<open>
  The gateway's state stays sound over any sequence of requests, whatever the providers
  do and however other tasks interleave within the router's contract: the providers never
  change, every configured provider keeps an entry with consistent statistics, selection always
  finds a configured provider, and the metrics update never raises.
\<close>

lemma served_gateway_sound:
  assumes "served ps st g" and "p \<in> set ps"
  shows "gw_providers g = ps
    \<and> (\<exists>s. get_stats (gw_router g) p = Inr s \<and> requests s = successes s + failures s
        \<and> 0 \<le> consecutive_failures s \<and> (last_failure_at s = None \<longleftrightarrow> consecutive_failures s = 0))
    \<and> (\<exists>q \<in> set ps. select_provider (gw_router g) clk = Inr q)
    \<and> fst (update_provider_metrics g clk') = Inr ()"
proof -
  from served_inv [OF assms(1)] have inv: "gateway_inv g" and ps: "gw_providers g = ps" by auto
  from gateway_inv_managed [OF inv] assms(2) ps have "get_stats (gw_router g) p = Inr (stats_of (gw_router g) p)"
    by simp
  moreover have "stats_inv (stats_of (gw_router g) p)" using inv stats_inv_of by (simp add: gateway_inv_def)
  ultimately show ?thesis
    using select_in_gateway [OF inv, of clk] update_ok [OF inv] ps by (auto simp: stats_inv_def)
qed

lemma demo_built: "\<exists>es. new_gateway two_providers default_settings clk = (Inr demo_gateway, es)"
proof -
  let ?g = "\<lparr>gw_providers = two_providers, gw_router = fresh_router, gw_timeout_seconds = 30,
     gw_max_retries = 2, gw_retry_base_delay = 1 / 2, gw_retry_max_delay = 5\<rparr>"
  have g: "?g = demo_gateway" by (simp add: demo_gateway_def)
  obtain es where "update_provider_metrics demo_gateway clk = (Inr (), es)"
    using update_pair [OF demo_gateway_inv] by blast
  then show ?thesis
    by (simp add: new_gateway_def default_settings_def g Let_def) (simp add: two_providers_def)
qed

lemma served_gateway_sound_example:
  "\<exists>g'. generate demo_gateway (quiet_env limited_then_ok) demo_request
      = (fst (generate demo_gateway (quiet_env limited_then_ok) demo_request), g',
         snd (snd (generate demo_gateway (quiet_env limited_then_ok) demo_request)))
    \<and> gw_providers g' = two_providers \<and> (\<exists>q \<in> set two_providers. select_provider (gw_router g') (\<lambda>i. 0) = Inr q)"
proof -
  let ?gen = "generate demo_gateway (quiet_env limited_then_ok) demo_request"
  obtain es where "new_gateway two_providers default_settings (\<lambda>i. 0) = (Inr demo_gateway, es)"
    using demo_built by blast
  then have "served two_providers default_settings demo_gateway" by (rule served.built)
  moreover have gen: "?gen = (fst ?gen, fst (snd ?gen), snd (snd ?gen))" by simp
  ultimately have s: "served two_providers default_settings (fst (snd ?gen))"
    using served.request [OF _ quiet_env_ok] by blast
  have "p_groq \<in> set two_providers" by (simp add: two_providers_def)
  from served_gateway_sound [OF s this, of "\<lambda>i. 0" "\<lambda>i. 0"] gen show ?thesis by blast
qed

text \<open>
  C37: Telemetry is well formed on every path of \<open>generate\<close>, success, retry, fallback or any
  exception: each metric is updated with exactly its declared label names and the operation of
  its kind, spans are closed in the reverse order of opening and all closed at the end, and
  attributes, events and exceptions go to open spans only.
\<close>

theorem generate_telemetry_well_formed:
  "list_all well_labelled (snd (snd (generate g w req)))
   \<and> spans [] (snd (snd (generate g w req))) = Some []"
  using generate_telemetry llm_labelled_all_well by blast

end
