(* ===== verification/Gateway_Tasks.thy ===== *)
theory Gateway_Tasks
  imports Gateway_State
begin

text \<open>
  Concurrent requests on one gateway (\<open>nexus/llm/gateway.py\<close>). asyncio switches tasks at an
  \<open>await\<close> only, and \<open>generate\<close> awaits only inside \<open>_generate_with_retry\<close>, which does not touch
  the router. So a request in flight is either waiting for its \<open>i\<close>-th provider or answered,
  and between two awaits it runs in one piece on the router it finds: \<open>start_call\<close> up to the
  first await, \<open>resume_call\<close> from the end of one await to the next. \<open>tasks_step\<close> lets requests
  arrive and lets any waiting one go on. The invariant says that every request runs as
  \<open>generate\<close> does in an environment whose other tasks are the requests around it.
\<close>

subsection \<open>Requests in flight\<close>

datatype call_state = Awaiting nat provider "provider list" | Answered "llm_response result"

text \<open>\<open>gc_start\<close> and \<open>gc_turns\<close> are history: the gateway the request met, and its ended turns.\<close>

record gateway_call =
  gc_request :: llm_request
  gc_env :: env
  gc_state :: call_state
  gc_log :: "effect list"
  gc_start :: gateway
  gc_turns :: "(provider \<times> llm_response result) list"

definition close_call :: "llm_response result \<Rightarrow> effect list \<Rightarrow> gateway_call \<Rightarrow> gateway_call" where
  "close_call res es c = c\<lparr>gc_state := Answered res, gc_log := gc_log c @ es @ [SpanEnd gateway_span]\<rparr>"

definition start_call :: "gateway \<Rightarrow> env \<Rightarrow> llm_request \<Rightarrow> gateway_call" where
  "start_call g w req =
     (case open_request g w req of
        (opened, es) \<Rightarrow>
          (let c = \<lparr>gc_request = req, gc_env = w,
                 gc_state = Answered (Inl (LLMProviderError (u ''all LLM providers failed''))),
                 gc_log = es, gc_start = g, gc_turns = []\<rparr>
           in case opened of
                Inl e \<Rightarrow> close_call (Inl e) [] c
              | Inr [] \<Rightarrow>
                  (let e = LLMProviderError (u ''all LLM providers failed'')
                   in close_call (Inl e) [SpanException gateway_span e] c)
              | Inr (p # ps) \<Rightarrow> c\<lparr>gc_state := Awaiting 0 p ps\<rparr>))"

definition resume_call :: "gateway \<Rightarrow> gateway_call \<Rightarrow> gateway \<times> gateway_call" where
  "resume_call g c =
     (case gc_state c of
        Answered res \<Rightarrow> (g, c)
      | Awaiting i p rest \<Rightarrow>
          (case await_turn g (gc_env c) (gc_request c) i p of
             (res, es) \<Rightarrow>
               (case settle_turn g (gc_env c) i p rest res of
                  (outc, g', es') \<Rightarrow>
                    (let c' = c\<lparr>gc_log := gc_log c @ es @ es', gc_turns := gc_turns c @ [(p, res)]\<rparr>
                     in (g', case outc of
                               Return r \<Rightarrow> close_call (Inr r) [] c'
                             | Raise e \<Rightarrow> close_call (Inl e) [] c'
                             | Continue e \<Rightarrow>
                                 (case rest of
                                    [] \<Rightarrow> close_call (Inl e) [SpanException gateway_span e] c'
                                  | q # qs \<Rightarrow> c'\<lparr>gc_state := Awaiting (Suc i) q qs\<rparr>))))))"

record gateway_tasks =
  gt_gateway :: gateway
  gt_calls :: "gateway_call list"

inductive tasks_step :: "gateway_tasks \<Rightarrow> gateway_tasks \<Rightarrow> bool" where
  Arrive: "steady w \<Longrightarrow>
     tasks_step s (s\<lparr>gt_calls := gt_calls s @ [start_call (gt_gateway s) w req]\<rparr>)"
| Resume: "k < length (gt_calls s) \<Longrightarrow> gc_state (gt_calls s ! k) = Awaiting i p rest
     \<Longrightarrow> resume_call (gt_gateway s) (gt_calls s ! k) = (g', c')
     \<Longrightarrow> tasks_step s \<lparr>gt_gateway = g', gt_calls = (gt_calls s)[k := c']\<rparr>"

inductive tasks_reach :: "provider list \<Rightarrow> settings \<Rightarrow> gateway_tasks \<Rightarrow> bool" for ps st where
  Built: "new_gateway ps st clk = (Inr g, es) \<Longrightarrow> tasks_reach ps st \<lparr>gt_gateway = g, gt_calls = []\<rparr>"
| Step: "tasks_reach ps st s \<Longrightarrow> tasks_step s s' \<Longrightarrow> tasks_reach ps st s'"

subsection \<open>What a request reads of the world\<close>

text \<open>The parts of \<open>generate\<close> between the awaits do not ask what the other tasks do, and the
  awaited part does not ask for the router.\<close>

lemma note_others [simp]:
  "note_success g (w\<lparr>env_others := h\<rparr>) i p l = note_success g w i p l"
  "note_failure g (w\<lparr>env_others := h\<rparr>) i p = note_failure g w i p"
  by (simp_all add: note_success_def note_failure_def split: sum.split)

lemma settle_turn_others [simp]:
  "settle_turn g (w\<lparr>env_others := h\<rparr>) i p rest res = settle_turn g w i p rest res"
  unfolding settle_turn_def note_others by simp

lemma attempt_round_others [simp]:
  "attempt_round g (w\<lparr>env_others := h\<rparr>) i p req a = attempt_round g w i p req a"
  by (simp add: attempt_round_def)

lemma retry_loop_others [simp]: "retry_loop g (w\<lparr>env_others := h\<rparr>) i p req a = retry_loop g w i p req a"
proof (induction a rule: retry_induct [of g w i p req])
  case (1 a)
  then show ?case
    by (cases "attempt_round g w i p req a")
      (auto simp: retry_loop.simps [of _ _ _ _ _ a] split: attempt_end.split)
qed

lemma await_turn_others [simp]: "await_turn g (w\<lparr>env_others := h\<rparr>) req i p = await_turn g w req i p"
  by (simp add: await_turn_def generate_with_retry_def)

lemma await_turn_router [simp]: "await_turn (g\<lparr>gw_router := r\<rparr>) w req i p = await_turn g w req i p"
  by (simp add: await_turn_def)

lemma open_request_others [simp]: "open_request g (w\<lparr>env_others := h\<rparr>) req = open_request g w req"
  by (simp add: open_request_def Let_def split: sum.split)

lemma steady_others [simp]: "steady (w\<lparr>env_others := h\<rparr>) = steady w"
  by (simp add: steady_def)

subsection \<open>What is left of a request\<close>

text \<open>What \<open>generate\<close> still does for a request in flight, in the world \<open>w\<close> from the gateway \<open>g\<close> on.\<close>

definition finish_call :: "env \<Rightarrow> gateway \<Rightarrow> gateway_call \<Rightarrow> llm_response result \<times> gateway \<times> effect list" where
  "finish_call w g c =
     (case gc_state c of
        Answered res \<Rightarrow> (res, g, gc_log c)
      | Awaiting i p rest \<Rightarrow>
          (case try_providers g w (gc_request c) i (p # rest) None of
             (res, g', es) \<Rightarrow> (res, g', gc_log c @ es @ [SpanEnd gateway_span])))"

lemma try_providers_last_error:
  "try_providers g w req i (p # ps) last_error = try_providers g w req i (p # ps) None"
  by simp

lemma close_call_sel [simp]:
  "gc_request (close_call res es c) = gc_request c" "gc_env (close_call res es c) = gc_env c"
  "gc_state (close_call res es c) = Answered res" "gc_start (close_call res es c) = gc_start c"
  "gc_log (close_call res es c) = gc_log c @ es @ [SpanEnd gateway_span]"
  "gc_turns (close_call res es c) = gc_turns c"
  by (simp_all add: close_call_def)

lemma start_call_sel [simp]:
  "gc_request (start_call g w req) = req" "gc_env (start_call g w req) = w"
  "gc_start (start_call g w req) = g" "gc_turns (start_call g w req) = []"
  by (simp_all add: start_call_def Let_def split_beta split: sum.split list.split)

lemma finish_start:
  "finish_call (w\<lparr>env_others := h\<rparr>) g (start_call g w req) = generate g (w\<lparr>env_others := h\<rparr>) req"
proof -
  obtain opened es where o: "open_request g w req = (opened, es)" by fastforce
  show ?thesis
  proof (cases opened)
    case (Inl e)
    with o show ?thesis by (simp add: generate_def start_call_def finish_call_def)
  next
    case (Inr ps)
    with o show ?thesis
      by (cases ps) (simp_all add: generate_def start_call_def finish_call_def Let_def split_beta)
  qed
qed

text \<open>A resumption is the next turn of \<open>generate\<close>, if the others leave the router it resumes on.\<close>

lemma finish_resume:
  assumes state: "gc_state c = Awaiting i p rest" and resume: "resume_call g c = (g', c')"
    and others: "h i r = gw_router g"
  shows "finish_call (gc_env c\<lparr>env_others := h\<rparr>) (g\<lparr>gw_router := r\<rparr>) c
    = finish_call (gc_env c\<lparr>env_others := h\<rparr>) g' c'"
proof -
  obtain res es where a: "await_turn g (gc_env c) (gc_request c) i p = (res, es)" by fastforce
  obtain outc g1 es' where t: "settle_turn g (gc_env c) i p rest res = (outc, g1, es')"
    by (metis prod_cases3)
  have turn: "provider_turn (g\<lparr>gw_router := r\<rparr>) (gc_env c\<lparr>env_others := h\<rparr>) (gc_request c) i p rest
      = (outc, g1, es @ es')"
    using a t others by (simp add: provider_turn_def)
  let ?w = "gc_env c\<lparr>env_others := h\<rparr>"
  have step: "try_providers (g\<lparr>gw_router := r\<rparr>) ?w (gc_request c) i (p # rest) None =
      (case outc of
         Return resp \<Rightarrow> (Inr resp, g1, es @ es')
       | Raise e \<Rightarrow> (Inl e, g1, es @ es')
       | Continue e \<Rightarrow> (case try_providers g1 ?w (gc_request c) (Suc i) rest (Some e) of
           (res, g2, es2) \<Rightarrow> (res, g2, (es @ es') @ es2)))"
    using turn by (simp split: turn_end.split)
  show ?thesis
  proof (cases outc)
    case (Continue e)
    show ?thesis
    proof (cases rest)
      case Nil
      with state resume a t step Continue show ?thesis
        by (auto simp: resume_call_def finish_call_def Let_def simp del: try_providers.simps(2))
    next
      case (Cons q qs)
      with state resume a t step Continue
        try_providers_last_error [of g1 ?w "gc_request c" "Suc i" q qs "Some e"]
      show ?thesis
        by (auto simp: resume_call_def finish_call_def Let_def split: prod.splits
            simp del: try_providers.simps(2))
    qed
  qed (use state resume a t turn in \<open>auto simp: resume_call_def finish_call_def Let_def\<close>)
qed

subsection \<open>The invariant\<close>

text \<open>How many providers a request has left to wait for.\<close>

fun providers_left :: "call_state \<Rightarrow> provider list" where
  "providers_left (Awaiting i p rest) = p # rest"
| "providers_left (Answered res) = []"

fun turn_index :: "call_state \<Rightarrow> nat option" where
  "turn_index (Awaiting i p rest) = Some i"
| "turn_index (Answered res) = None"

text \<open>The request has behaved as \<open>generate\<close> does among tasks that act as \<open>h\<close>; the turns to come
  are still open.\<close>

definition explained :: "gateway \<Rightarrow> gateway_call \<Rightarrow> bool" where
  "explained g c \<longleftrightarrow>
     (\<exists>h r. env_ok (gc_env c\<lparr>env_others := h\<rparr>) \<and> router_inv r \<and> rt_providers r = gw_providers g
       \<and> (\<forall>h'. (\<forall>j. (case turn_index (gc_state c) of Some i \<Rightarrow> j < i | None \<Rightarrow> True) \<longrightarrow> h' j = h j)
            \<longrightarrow> generate (gc_start c) (gc_env c\<lparr>env_others := h'\<rparr>) (gc_request c)
                 = finish_call (gc_env c\<lparr>env_others := h'\<rparr>) (g\<lparr>gw_router := r\<rparr>) c))"

text \<open>The ended turns are the outcomes of the awaited retry loops, in order.\<close>

definition turns_recorded :: "gateway_call \<Rightarrow> bool" where
  "turns_recorded c \<longleftrightarrow>
     (\<forall>j < length (gc_turns c). snd (gc_turns c ! j)
        = outcome (gc_start c) (gc_env c) (gc_request c) j (fst (gc_turns c ! j)))
     \<and> (case turn_index (gc_state c) of Some i \<Rightarrow> length (gc_turns c) = i | None \<Rightarrow> True)"

text \<open>No turn calls its provider more often than attempts are permitted.\<close>

definition within_budget :: "gateway \<Rightarrow> gateway_call \<Rightarrow> bool" where
  "within_budget g c \<longleftrightarrow>
     length (called (gc_log c)) \<le> length (gc_turns c) * (nat (gw_max_retries g) + 1)
     \<and> length (gc_turns c) + length (providers_left (gc_state c)) \<le> length (gw_providers g)"

definition call_inv :: "gateway \<Rightarrow> gateway_call \<Rightarrow> bool" where
  "call_inv g c \<longleftrightarrow> steady (gc_env c) \<and> gateway_inv (gc_start c)
     \<and> (\<exists>r. gc_start c = g\<lparr>gw_router := r\<rparr>)
     \<and> set (providers_left (gc_state c)) \<subseteq> set (gw_providers g)
     \<and> explained g c \<and> turns_recorded c \<and> within_budget g c"

text \<open>The counters of the router, against the ended turns of all requests.\<close>

definition settled :: "gateway_call list \<Rightarrow> pystr \<Rightarrow> (llm_response result \<Rightarrow> bool) \<Rightarrow> nat" where
  "settled cs n P =
     sum_list (map (\<lambda>c. length (filter (\<lambda>(q, res). router_name q = n \<and> P res) (gc_turns c))) cs)"

definition answered :: "llm_response result \<Rightarrow> bool" where
  "answered res = (case res of Inr _ \<Rightarrow> True | Inl e \<Rightarrow> False)"

definition failed :: "llm_response result \<Rightarrow> bool" where
  "failed res = (case res of Inr _ \<Rightarrow> False | Inl e \<Rightarrow> is_provider_error e)"

definition counted :: "gateway_tasks \<Rightarrow> bool" where
  "counted s \<longleftrightarrow> (\<forall>p.
     successes (stats_of (gw_router (gt_gateway s)) p) = int (settled (gt_calls s) (router_name p) answered)
     \<and> failures (stats_of (gw_router (gt_gateway s)) p) = int (settled (gt_calls s) (router_name p) failed))"

end
