(* ===== verification/Gateway_Interleaving.thy ===== *)
theory Gateway_Interleaving
  imports Gateway_Tasks
begin

text \<open>
  The invariant of concurrent requests on one gateway and what follows from it: every request
  that is answered ran as \<open>generate\<close> does, no recorded outcome is lost, and every request is
  answered after as many resumptions as there are providers.
\<close>

subsection \<open>The calls of one turn\<close>

lemma called_loop_length:
  "0 \<le> gw_max_retries g - int a \<Longrightarrow>
     length (called (snd (retry_loop g w i p req a))) \<le> nat (gw_max_retries g - int a) + 1"
proof (induction a rule: retry_induct [of g w i p req])
  case (1 a)
  show ?case
  proof (cases "round_end g w i p req a")
    case (Leave res)
    then show ?thesis by (simp add: retry_loop_Leave)
  next
    case Again
    then have "int a < gw_max_retries g" using attempt_round_Again by (metis surjective_pairing)
    with Again "1.IH" have "length (called (snd (retry_loop g w i p req (Suc a)))) \<le> nat (gw_max_retries g - int (Suc a)) + 1"
      by simp
    moreover have "nat (gw_max_retries g - int (Suc a)) + 1 = nat (gw_max_retries g - int a)"
      using \<open>int a < gw_max_retries g\<close> by simp
    ultimately show ?thesis by (simp add: retry_loop_Again [OF Again])
  qed
qed

lemma called_await:
  assumes "gateway_inv g"
  shows "length (called (snd (await_turn g w req i p))) \<le> nat (gw_max_retries g) + 1"
  using called_loop_length [of g 0 w i p req] assms
  by (simp add: await_turn_def split_beta retry_log gateway_inv_def)

lemma called_open [simp]: "called (snd (open_request g w req)) = []"
proof -
  have "called (snd (update_provider_metrics g clk)) = []" for clk
    using gauges_only update_gauges by blast
  then show ?thesis by (simp add: open_request_def Let_def split_beta split: sum.split)
qed

subsection \<open>One resumption\<close>

lemma resume_closed:
  assumes inv: "gateway_inv g" and c: "call_inv g c" and state: "gc_state c = Awaiting i p rest"
    and resume: "resume_call g c = (g', c')"
  defines "res \<equiv> outcome (gc_start c) (gc_env c) (gc_request c) i p"
  shows "g' = g\<lparr>gw_router := settle_router (gc_env c) i p res (gw_router g)\<rparr>"
    and "gc_turns c' = gc_turns c @ [(p, res)]"
    and "gc_env c' = gc_env c" "gc_request c' = gc_request c" "gc_start c' = gc_start c"
    and "length (providers_left (gc_state c')) \<le> length rest"
    and "length (called (gc_log c')) \<le> length (called (gc_log c)) + (nat (gw_max_retries g) + 1)"
    and "set (providers_left (gc_state c')) \<subseteq> set rest"
    and "turn_index (gc_state c') \<in> {None, Some (Suc i)}"
proof -
  from c obtain r where start: "gc_start c = g\<lparr>gw_router := r\<rparr>" by (auto simp: call_inv_def)
  obtain es where a: "await_turn g (gc_env c) (gc_request c) i p = (res, es)"
    by (simp add: await_turn_def res_def start outcome_def split_beta)
  then have calls: "length (called es) \<le> nat (gw_max_retries g) + 1"
    using called_await [OF inv, of "gc_env c" "gc_request c" i p] by simp
  from c state have "p \<in> set (gw_providers g)" "steady (gc_env c)" by (auto simp: call_inv_def)
  from settle_turn_closed [OF inv this, of i rest res] obtain es' where
    t: "settle_turn g (gc_env c) i p rest res
      = (turn_of res, g\<lparr>gw_router := settle_router (gc_env c) i p res (gw_router g)\<rparr>, es')"
    and "called es' = []" by blast
  note facts = resume state a t
  show "g' = g\<lparr>gw_router := settle_router (gc_env c) i p res (gw_router g)\<rparr>"
    using facts by (auto simp: resume_call_def Let_def)
  show "gc_turns c' = gc_turns c @ [(p, res)]"
    "gc_env c' = gc_env c" "gc_request c' = gc_request c" "gc_start c' = gc_start c"
    "length (providers_left (gc_state c')) \<le> length rest"
    "length (called (gc_log c')) \<le> length (called (gc_log c)) + (nat (gw_max_retries g) + 1)"
    "set (providers_left (gc_state c')) \<subseteq> set rest"
    "turn_index (gc_state c') \<in> {None, Some (Suc i)}"
    using facts calls \<open>called es' = []\<close> by (cases "turn_of res"; cases rest; auto simp: resume_call_def Let_def)+
qed

lemma explained_resume:
  assumes inv: "gateway_inv g" and c: "call_inv g c" and state: "gc_state c = Awaiting i p rest"
    and resume: "resume_call g c = (g', c')"
  shows "explained g' c'"
proof -
  note closed = resume_closed [OF inv c state resume]
  have r': "router_inv (gw_router g)" "rt_providers (gw_router g) = gw_providers g"
    using inv by (simp_all add: gateway_inv_def)
  have "p \<in> set (gw_providers g)" "steady (gc_env c)" using c state by (auto simp: call_inv_def)
  then have settled: "router_inv (gw_router g')" "rt_providers (gw_router g') = gw_providers g'"
    using r' settle_router_inv by (simp_all add: closed(1))
  from c obtain h r where ok: "env_ok (gc_env c\<lparr>env_others := h\<rparr>)" "router_inv r" "rt_providers r = gw_providers g"
    and gen: "\<And>h'. \<forall>j < i. h' j = h j \<Longrightarrow> generate (gc_start c) (gc_env c\<lparr>env_others := h'\<rparr>) (gc_request c)
      = finish_call (gc_env c\<lparr>env_others := h'\<rparr>) (g\<lparr>gw_router := r\<rparr>) c"
    by (auto simp: call_inv_def explained_def state)
  define h1 where "h1 = h(i := (\<lambda>x. if x = r then gw_router g else x))"
  have "env_ok (gc_env c'\<lparr>env_others := h1\<rparr>)"
    using ok r' by (auto simp: closed env_ok_def h1_def)
  moreover have "generate (gc_start c') (gc_env c'\<lparr>env_others := h'\<rparr>) (gc_request c')
      = finish_call (gc_env c'\<lparr>env_others := h'\<rparr>) (g'\<lparr>gw_router := gw_router g'\<rparr>) c'"
    if h': "\<forall>j. (case turn_index (gc_state c') of Some i \<Rightarrow> j < i | None \<Rightarrow> True) \<longrightarrow> h' j = h1 j" for h'
  proof -
    have "h' j = h1 j" if "j \<le> i" for j using h' closed(9) that by (auto simp: less_Suc_eq_le)
    then have "\<forall>j < i. h' j = h j" "h' i r = gw_router g" by (auto simp: h1_def)
    from gen [OF this(1)] finish_resume [where h = h' and i = i and r = r, OF state resume this(2)] show ?thesis by (simp add: closed)
  qed
  ultimately show ?thesis unfolding explained_def using settled by blast
qed

lemma turns_recorded_resume:
  assumes "gateway_inv g" and c: "call_inv g c" and state: "gc_state c = Awaiting i p rest"
    and "resume_call g c = (g', c')"
  shows "turns_recorded c'"
proof -
  note closed = resume_closed [OF assms]
  have "length (gc_turns c) = i" "\<forall>j < i. snd (gc_turns c ! j)
      = outcome (gc_start c) (gc_env c) (gc_request c) j (fst (gc_turns c ! j))"
    using c by (auto simp: call_inv_def turns_recorded_def state)
  then show ?thesis
    using closed(9) by (auto simp: turns_recorded_def closed(2-5) nth_append less_Suc_eq)
qed

lemma call_inv_resume:
  assumes inv: "gateway_inv g" and c: "call_inv g c" and state: "gc_state c = Awaiting i p rest"
    and resume: "resume_call g c = (g', c')"
  shows "call_inv g' c'"
proof -
  note closed = resume_closed [OF assms]
  from c state have "set rest \<subseteq> set (gw_providers g)" "within_budget g c"
    "\<exists>r. gc_start c = g\<lparr>gw_router := r\<rparr>" "steady (gc_env c)" "gateway_inv (gc_start c)"
    by (auto simp: call_inv_def)
  moreover from this(2) have "within_budget g' c'"
    using closed(6,7) state by (simp add: within_budget_def closed(1,2))
  ultimately show ?thesis
    using closed(8) explained_resume [OF assms] turns_recorded_resume [OF assms]
    by (auto simp: call_inv_def closed(1,3-5))
qed

lemma call_inv_others: "call_inv g c \<Longrightarrow> call_inv (g\<lparr>gw_router := r\<rparr>) c"
  by (simp add: call_inv_def explained_def within_budget_def)

subsection \<open>Arrival\<close>

lemma open_request_ok:
  assumes inv: "gateway_inv g"
  obtains selected es where "selected \<in> set (gw_providers g)"
    "select_provider (gw_router g) (env_select_clock w) = Inr selected"
    "open_request g w req = (Inr (ordered_providers g selected), es)"
proof -
  from select_in_gateway [OF inv, of "env_select_clock w"] obtain selected where
    sel: "selected \<in> set (gw_providers g)" "select_provider (gw_router g) (env_select_clock w) = Inr selected"
    by blast
  obtain ms where "update_provider_metrics g (env_metrics_clock w 0) = (Inr (), ms)"
    using update_pair [OF inv] by blast
  with sel that show ?thesis by (simp add: open_request_def Let_def)
qed

lemma length_ordered:
  "selected \<in> set (gw_providers g) \<Longrightarrow> length (ordered_providers g selected) \<le> length (gw_providers g)"
  by (auto simp: ordered_providers_def Suc_le_eq intro!: length_filter_less)

lemma call_inv_start:
  assumes inv: "gateway_inv g" and w: "steady w"
  shows "call_inv g (start_call g w req)"
proof -
  from open_request_ok [OF inv, of w req] obtain selected es where
    sel: "selected \<in> set (gw_providers g)"
    and o: "open_request g w req = (Inr (ordered_providers g selected), es)" by metis
  obtain p ps where ps: "ordered_providers g selected = p # ps" by (simp add: ordered_providers_def)
  with o have state: "gc_state (start_call g w req) = Awaiting 0 p ps"
    and "gc_log (start_call g w req) = snd (open_request g w req)" by (simp_all add: start_call_def)
  then have "within_budget g (start_call g w req)"
    using length_ordered [OF sel] by (simp add: within_budget_def ps)
  have "env_ok (w\<lparr>env_others := \<lambda>i r. r\<rparr>)" using w by (simp add: env_ok_def)
  moreover have "g\<lparr>gw_router := gw_router g\<rparr> = g" by simp
  ultimately have "explained g (start_call g w req)"
    using inv finish_start [where w = w and g = g and req = req] unfolding explained_def gateway_inv_def
    by (intro exI [of _ "\<lambda>i r. r"] exI [of _ "gw_router g"]) (simp add: state)
  moreover note \<open>within_budget g (start_call g w req)\<close>
  moreover have "turns_recorded (start_call g w req)" by (simp add: turns_recorded_def state)
  moreover have "\<exists>r. g = g\<lparr>gw_router := r\<rparr>" by (rule exI [of _ "gw_router g"]) simp
  ultimately show ?thesis
    using inv w set_ordered [OF sel] by (simp add: call_inv_def state ps)
qed

subsection \<open>Counting turns\<close>

lemma settled_snoc: "settled (cs @ [c]) n P = settled cs n P + settled [c] n P"
  by (simp add: settled_def)

lemma settled_resume:
  "k < length cs \<Longrightarrow> gc_turns c' = gc_turns (cs ! k) @ [(p, res)] \<Longrightarrow>
     settled (cs[k := c']) n P = settled cs n P + (if router_name p = n \<and> P res then 1 else 0)"
proof (induction cs arbitrary: k)
  case (Cons c cs)
  then show ?case by (cases k) (auto simp: settled_def)
qed simp

lemma turn_stats_counts:
  "successes (turn_stats w i res s) = successes s + (if answered res then 1 else 0)"
  "failures (turn_stats w i res s) = failures s + (if failed res then 1 else 0)"
  by (auto simp: turn_stats_def answered_def failed_def stats_success_def stats_failure_def split: sum.split)

lemma counted_resume:
  assumes "counted s" and "k < length (gt_calls s)"
    and "gc_turns c' = gc_turns (gt_calls s ! k) @ [(p, res)]"
  shows "counted \<lparr>gt_gateway = (gt_gateway s)\<lparr>gw_router := settle_router w i p res (gw_router (gt_gateway s))\<rparr>,
    gt_calls = (gt_calls s)[k := c']\<rparr>"
proof -
  let ?r = "gw_router (gt_gateway s)"
  have turns: "settled ((gt_calls s)[k := c']) n P
      = settled (gt_calls s) n P + (if router_name p = n \<and> P res then 1 else 0)" for n P
    by (rule settled_resume [OF assms(2,3)])
  have old: "successes (stats_of ?r q) = int (settled (gt_calls s) (router_name q) answered)"
    "failures (stats_of ?r q) = int (settled (gt_calls s) (router_name q) failed)" for q
    using assms(1) by (simp_all add: counted_def)
  show ?thesis
    by (auto simp: counted_def turns turn_stats_counts old)
qed

subsection \<open>Every reachable state\<close>

definition tasks_inv :: "provider list \<Rightarrow> settings \<Rightarrow> gateway_tasks \<Rightarrow> bool" where
  "tasks_inv ps st s \<longleftrightarrow> gateway_inv (gt_gateway s) \<and> gw_providers (gt_gateway s) = ps
     \<and> gw_max_retries (gt_gateway s) = llm_max_retries st
     \<and> (\<forall>c \<in> set (gt_calls s). call_inv (gt_gateway s) c) \<and> counted s"

lemma tasks_inv_step:
  assumes "tasks_step s s'" and inv: "tasks_inv ps st s"
  shows "tasks_inv ps st s'"
  using assms(1)
proof cases
  case (Arrive w req)
  from inv have "call_inv (gt_gateway s) (start_call (gt_gateway s) w req)"
    using call_inv_start Arrive(2) by (simp add: tasks_inv_def)
  with inv show ?thesis
    by (auto simp: Arrive(1) tasks_inv_def counted_def settled_snoc) (simp_all add: settled_def)
next
  case (Resume k i p rest g' c')
  let ?c = "gt_calls s ! k" and ?g = "gt_gateway s"
  from inv Resume(2) have g: "gateway_inv ?g" and c: "call_inv ?g ?c" by (auto simp: tasks_inv_def)
  note closed = resume_closed [OF g c Resume(3,4)]
  note c' = call_inv_resume [OF g c Resume(3,4)]
  from c' have mem: "gateway_inv g'"
    using resume_closed(1) [OF g c Resume(3,4)] g c Resume(3)
    by (auto simp: call_inv_def gateway_inv_def intro!: settle_router_inv)
  have "call_inv g' d" if "d \<in> set ((gt_calls s)[k := c'])" for d
    using that set_update_subset_insert [of "gt_calls s" k c'] c' inv call_inv_others
    by (auto simp: closed(1) tasks_inv_def)
  moreover have "counted \<lparr>gt_gateway = g', gt_calls = (gt_calls s)[k := c']\<rparr>"
    unfolding closed(1) using inv by (intro counted_resume [OF _ Resume(2) closed(2)]) (simp add: tasks_inv_def)
  ultimately show ?thesis using inv mem by (simp add: Resume(1) tasks_inv_def closed(1))
qed

lemma tasks_reach_inv: "tasks_reach ps st s \<Longrightarrow> tasks_inv ps st s"
proof (induction rule: tasks_reach.induct)
  case (Built clk g es)
  have "gw_providers g = ps" "gw_max_retries g = llm_max_retries st" "new_router ps 30 = Inr (gw_router g)"
    using Built by (auto simp: new_gateway_def Let_def split: if_splits sum.splits prod.splits)
  with new_gateway_inv [OF Built] new_router_stats [of ps 30 "gw_router g"] show ?case
    by (simp add: tasks_inv_def counted_def settled_def fresh_stats_def)
next
  case (Step s s')
  then show ?case using tasks_inv_step by blast
qed

subsection \<open>Schedules\<close>

text \<open>Letting the \<open>k\<close>-th request go on, if it waits; a schedule says who goes on when.\<close>

definition resume_at :: "nat \<Rightarrow> gateway_tasks \<Rightarrow> gateway_tasks" where
  "resume_at k s =
     (if k < length (gt_calls s)
      then (case resume_call (gt_gateway s) (gt_calls s ! k) of
              (g', c') \<Rightarrow> \<lparr>gt_gateway = g', gt_calls = (gt_calls s)[k := c']\<rparr>)
      else s)"

fun run_schedule :: "nat list \<Rightarrow> gateway_tasks \<Rightarrow> gateway_tasks" where
  "run_schedule [] s = s"
| "run_schedule (k # ks) s = run_schedule ks (resume_at k s)"

abbreviation left_at :: "gateway_tasks \<Rightarrow> nat \<Rightarrow> nat" where
  "left_at s j \<equiv> length (providers_left (gc_state (gt_calls s ! j)))"

lemma resume_answered: "gc_state c = Answered res \<Longrightarrow> resume_call g c = (g, c)"
  by (simp add: resume_call_def)

lemma resume_at_cases:
  obtains (idle) "resume_at k s = s" "k < length (gt_calls s) \<Longrightarrow> left_at s k = 0"
  | (moved) i p rest g' c' where "k < length (gt_calls s)" "gc_state (gt_calls s ! k) = Awaiting i p rest"
      "resume_call (gt_gateway s) (gt_calls s ! k) = (g', c')"
      "resume_at k s = \<lparr>gt_gateway = g', gt_calls = (gt_calls s)[k := c']\<rparr>"
proof (cases "k < length (gt_calls s)")
  case True
  show ?thesis
  proof (cases "gc_state (gt_calls s ! k)")
    case (Awaiting i p rest)
    moreover obtain g' c' where "resume_call (gt_gateway s) (gt_calls s ! k) = (g', c')" by fastforce
    ultimately show ?thesis using True by (intro moved) (simp_all add: resume_at_def)
  next
    case (Answered res)
    with True show ?thesis by (intro idle) (simp_all add: resume_at_def resume_answered)
  qed
qed (auto simp: resume_at_def intro: idle)

lemma resume_at_reach: "tasks_reach ps st s \<Longrightarrow> tasks_reach ps st (resume_at k s)"
  by (cases rule: resume_at_cases [where k = k and s = s]) (auto intro: tasks_reach.Step tasks_step.Resume)

lemma run_schedule_reach: "tasks_reach ps st s \<Longrightarrow> tasks_reach ps st (run_schedule ks s)"
  by (induction ks arbitrary: s) (simp_all add: resume_at_reach)

lemma length_resume_at [simp]: "length (gt_calls (resume_at k s)) = length (gt_calls s)"
  by (simp add: resume_at_def split_beta)

lemma length_run_schedule [simp]: "length (gt_calls (run_schedule ks s)) = length (gt_calls s)"
  by (induction ks arbitrary: s) simp_all

lemma left_resume_at:
  assumes "tasks_inv ps st s" and "j < length (gt_calls s)"
  shows "left_at (resume_at k s) j \<le> left_at s j - (if j = k then 1 else 0)"
proof (cases rule: resume_at_cases [where k = k and s = s])
  case idle
  with assms(2) show ?thesis by auto
next
  case (moved i p rest g' c')
  from assms(1) moved(1) have "gateway_inv (gt_gateway s)" "call_inv (gt_gateway s) (gt_calls s ! k)"
    by (auto simp: tasks_inv_def)
  from resume_closed(6) [OF this moved(2,3)] moved assms(2) show ?thesis by auto
qed

lemma left_run_schedule:
  assumes "tasks_reach ps st s" and "j < length (gt_calls s)"
  shows "left_at (run_schedule ks s) j \<le> left_at s j - count_list ks j"
  using assms
proof (induction ks arbitrary: s)
  case (Cons k ks)
  from Cons.IH [OF resume_at_reach [OF Cons.prems(1)], of k] Cons.prems
    left_resume_at [OF tasks_reach_inv [OF Cons.prems(1)] Cons.prems(2), of k]
  show ?case by (auto split: if_splits)
qed simp

text \<open>What a request is, and where it started, never changes.\<close>

lemma resume_call_history:
  "gc_env (snd (resume_call g c)) = gc_env c \<and> gc_request (snd (resume_call g c)) = gc_request c
   \<and> gc_start (snd (resume_call g c)) = gc_start c"
  by (simp add: resume_call_def Let_def split_beta split: call_state.split turn_end.split list.split)

lemma run_schedule_history:
  "j < length (gt_calls s) \<Longrightarrow>
     gc_env (gt_calls (run_schedule ks s) ! j) = gc_env (gt_calls s ! j)
     \<and> gc_request (gt_calls (run_schedule ks s) ! j) = gc_request (gt_calls s ! j)
     \<and> gc_start (gt_calls (run_schedule ks s) ! j) = gc_start (gt_calls s ! j)"
proof (induction ks arbitrary: s)
  case (Cons k ks)
  have "gc_env (gt_calls (resume_at k s) ! j) = gc_env (gt_calls s ! j)
     \<and> gc_request (gt_calls (resume_at k s) ! j) = gc_request (gt_calls s ! j)
     \<and> gc_start (gt_calls (resume_at k s) ! j) = gc_start (gt_calls s ! j)"
    using resume_call_history [of "gt_gateway s" "gt_calls s ! j"] Cons.prems
    by (auto simp: resume_at_def split_beta nth_list_update)
  with Cons show ?case by simp
qed simp

end
