(* ===== verification/Gateway_Concurrency.thy ===== *)
theory Gateway_Concurrency
  imports Gateway_Interleaving
begin

text \<open>
  The properties of concurrent requests on one gateway (\<open>nexus/llm/gateway.py\<close>), with a
  concrete state of two requests in flight on which their hypotheses are exhibited.
\<close>

subsection \<open>Two requests in flight\<close>

definition demo_tasks :: gateway_tasks where
  "demo_tasks =
     (let c = start_call demo_gateway (quiet_env limited_then_ok) demo_request
      in \<lparr>gt_gateway = demo_gateway, gt_calls = [c, c]\<rparr>)"

lemma demo_tasks_reach: "tasks_reach two_providers default_settings demo_tasks"
proof -
  obtain es where "new_gateway two_providers default_settings (\<lambda>i. 0) = (Inr demo_gateway, es)"
    using demo_built by blast
  then have "tasks_reach two_providers default_settings \<lparr>gt_gateway = demo_gateway, gt_calls = []\<rparr>"
    by (rule tasks_reach.Built)
  moreover have "steady (quiet_env limited_then_ok)" by (simp add: steady_def)
  ultimately have "tasks_reach two_providers default_settings
      \<lparr>gt_gateway = demo_gateway, gt_calls = [start_call demo_gateway (quiet_env limited_then_ok) demo_request]\<rparr>"
    using tasks_reach.Step [OF _ tasks_step.Arrive [where req = demo_request]] by fastforce
  from tasks_reach.Step [OF this tasks_step.Arrive [where req = demo_request, OF \<open>steady _\<close>]]
  show ?thesis by (simp add: demo_tasks_def Let_def)
qed

lemma demo_tasks_sel [simp]:
  "gt_gateway demo_tasks = demo_gateway" "length (gt_calls demo_tasks) = 2"
  "gt_calls demo_tasks ! 0 = start_call demo_gateway (quiet_env limited_then_ok) demo_request"
  by (simp_all add: demo_tasks_def Let_def)

lemma demo_start_state:
  "gc_state (start_call demo_gateway (quiet_env limited_then_ok) demo_request) = Awaiting 0 p_mistral [p_groq]"
proof -
  from open_request_ok [OF demo_gateway_inv, of "quiet_env limited_then_ok" demo_request]
  obtain es where "open_request demo_gateway (quiet_env limited_then_ok) demo_request
      = (Inr [p_mistral, p_groq], es)" by auto
  then show ?thesis by (simp add: start_call_def)
qed

subsection \<open>Properties\<close>

text \<open>
  C2: Interleaving adds no behaviour. However the requests of one process interleave at their
  awaits, every answered request ran exactly as \<open>generate\<close> does from the gateway it met, in an
  environment in which the other tasks keep the router's invariant: the same result, the same
  calls, sleeps, spans and metrics in the same order. So everything shown of \<open>generate\<close> under
  \<open>env_ok\<close> holds for each request of a concurrent run.
\<close>

theorem concurrent_requests_refine_generate:
  assumes "tasks_reach ps st s" and "c \<in> set (gt_calls s)" and "gc_state c = Answered res"
  shows "gateway_inv (gc_start c) \<and> gw_providers (gc_start c) = ps
    \<and> (\<exists>h r. env_ok (gc_env c\<lparr>env_others := h\<rparr>)
        \<and> generate (gc_start c) (gc_env c\<lparr>env_others := h\<rparr>) (gc_request c)
          = (res, (gc_start c)\<lparr>gw_router := r\<rparr>, gc_log c))"
proof -
  from tasks_reach_inv [OF assms(1)] assms(2) have inv: "call_inv (gt_gateway s) c"
    and ps: "gw_providers (gt_gateway s) = ps" by (auto simp: tasks_inv_def)
  then obtain h r r0 where h: "env_ok (gc_env c\<lparr>env_others := h\<rparr>)"
    and gen: "generate (gc_start c) (gc_env c\<lparr>env_others := h\<rparr>) (gc_request c)
      = finish_call (gc_env c\<lparr>env_others := h\<rparr>) ((gt_gateway s)\<lparr>gw_router := r\<rparr>) c"
    and start: "gc_start c = (gt_gateway s)\<lparr>gw_router := r0\<rparr>"
    by (auto simp: call_inv_def explained_def assms(3))
  have "generate (gc_start c) (gc_env c\<lparr>env_others := h\<rparr>) (gc_request c)
      = (res, (gc_start c)\<lparr>gw_router := r\<rparr>, gc_log c)"
    using gen by (simp add: finish_call_def assms(3) start)
  with inv ps h show ?thesis unfolding call_inv_def start by auto
qed

theorem concurrent_requests_refine_generate_witness:
  "\<exists>res h r. env_ok (quiet_env limited_then_ok\<lparr>env_others := h\<rparr>)
    \<and> generate demo_gateway (quiet_env limited_then_ok\<lparr>env_others := h\<rparr>) demo_request
        = (res, demo_gateway\<lparr>gw_router := r\<rparr>, gc_log (gt_calls (run_schedule [0, 1, 0] demo_tasks) ! 0))"
proof -
  let ?s = "run_schedule [0, 1, 0] demo_tasks"
  let ?c = "gt_calls ?s ! 0"
  have reach: "tasks_reach two_providers default_settings ?s"
    by (rule run_schedule_reach [OF demo_tasks_reach])
  have mem: "?c \<in> set (gt_calls ?s)" by (rule nth_mem) (simp del: run_schedule.simps)
  have "left_at ?s 0 = 0"
    using left_run_schedule [OF demo_tasks_reach, of 0 "[0, 1, 0]"] by (simp add: demo_start_state)
  then obtain res where "gc_state ?c = Answered res" by (cases "gc_state ?c") auto
  from concurrent_requests_refine_generate [OF reach mem this] run_schedule_history [of 0 demo_tasks "[0, 1, 0]"]
  show ?thesis by auto
qed

text \<open>
  C8: No outcome is lost. In every interleaving of concurrent requests the router's counters are
  exactly the ended turns of all requests taken together: a provider's successes are the turns
  it answered, its failures the turns that ended in a provider error, its requests their sum;
  each such turn is the outcome of its retry loop. Selection finds a configured provider and
  publishing the metrics does not raise.
\<close>

theorem no_outcome_is_lost:
  assumes "tasks_reach ps st s" and "p \<in> set ps"
  shows "(\<exists>t. get_stats (gw_router (gt_gateway s)) p = Inr t
        \<and> successes t = int (settled (gt_calls s) (router_name p) answered)
        \<and> failures t = int (settled (gt_calls s) (router_name p) failed)
        \<and> requests t = successes t + failures t)
    \<and> (\<forall>c \<in> set (gt_calls s). \<forall>j < length (gc_turns c). snd (gc_turns c ! j)
          = fst (generate_with_retry (gc_start c) (gc_env c) j (fst (gc_turns c ! j)) (gc_request c)))
    \<and> (\<exists>q \<in> set ps. select_provider (gw_router (gt_gateway s)) clk = Inr q)
    \<and> fst (update_provider_metrics (gt_gateway s) clk') = Inr ()"
proof -
  from tasks_reach_inv [OF assms(1)] have inv: "gateway_inv (gt_gateway s)"
    and ps: "gw_providers (gt_gateway s) = ps" and counts: "counted s"
    and calls: "\<forall>c \<in> set (gt_calls s). turns_recorded c"
    by (auto simp: tasks_inv_def call_inv_def)
  let ?t = "stats_of (gw_router (gt_gateway s)) p"
  from gateway_inv_managed [OF inv] assms(2) ps have "get_stats (gw_router (gt_gateway s)) p = Inr ?t" by simp
  moreover have "requests ?t = successes ?t + failures ?t"
    using inv stats_inv_of by (simp add: gateway_inv_def stats_inv_def)
  ultimately show ?thesis
    using counts calls select_in_gateway [OF inv, of clk] update_ok [OF inv] ps
    by (auto simp: counted_def turns_recorded_def outcome_def)
qed

theorem no_outcome_is_lost_witness:
  "\<exists>t. get_stats (gw_router (gt_gateway (run_schedule [0] demo_tasks))) p_mistral = Inr t
    \<and> successes t = 0 \<and> failures t = 1"
proof -
  let ?c = "start_call demo_gateway (quiet_env limited_then_ok) demo_request"
  obtain g' c' where r: "resume_call demo_gateway ?c = (g', c')" by fastforce
  have "call_inv demo_gateway ?c" by (rule call_inv_start) (simp_all add: steady_def)
  from resume_closed(2) [OF demo_gateway_inv this demo_start_state r]
  have turns: "gc_turns c' = [(p_mistral, Inl (LLMProviderRateLimitError []))]"
    by (simp add: outcome_retry_spec retry_spec_def surface_def limited_then_ok_def)
  have run: "run_schedule [0] demo_tasks = \<lparr>gt_gateway = g', gt_calls = [c', ?c]\<rparr>"
    using r by (simp add: resume_at_def demo_tasks_def Let_def)
  have "p_mistral \<in> set two_providers" by (simp add: two_providers_def)
  from no_outcome_is_lost [OF run_schedule_reach [OF demo_tasks_reach, of "[0]"] this] turns
  show ?thesis unfolding run by (auto simp: settled_def answered_def failed_def)
qed

text \<open>
  C13: Every request is answered. From any reachable state, and whoever goes on when, a request
  is answered at the latest when it has gone on once for each configured provider; in
  particular no request can keep another one from its answer.
\<close>

theorem every_request_is_answered:
  assumes "tasks_reach ps st s" and "j < length (gt_calls s)" and "length ps \<le> count_list ks j"
  shows "\<exists>res. gc_state (gt_calls (run_schedule ks s) ! j) = Answered res
    \<and> tasks_reach ps st (run_schedule ks s)"
proof -
  have "left_at s j \<le> length ps"
    using tasks_reach_inv [OF assms(1)] nth_mem [OF assms(2)] by (auto simp: tasks_inv_def call_inv_def within_budget_def)
  with left_run_schedule [OF assms(1,2), of ks] assms(3) have "left_at (run_schedule ks s) j = 0" by simp
  then show ?thesis
    using run_schedule_reach [OF assms(1)] by (cases "gc_state (gt_calls (run_schedule ks s) ! j)") auto
qed

theorem every_request_is_answered_witness:
  "\<exists>res. gc_state (gt_calls (run_schedule [0, 1, 1, 0] demo_tasks) ! 0) = Answered res"
  using every_request_is_answered [OF demo_tasks_reach, of 0 "[0, 1, 1, 0]"]
  by (simp add: two_providers_def)

end
