(* ===== verification/Sha256.thy ===== *)
theory Sha256
  imports Nexus_Prelude "HOL-Library.Word"
begin

unbundle bit_operations_syntax

text \<open>
  What the program uses of \<open>hashlib\<close>: \<open>sha256(s.encode("utf-8")).hexdigest()\<close>, the SHA-256
  function of FIPS 180-4 on 32-bit words with wrap-around addition, and the UTF-8 encoding
  that feeds it. The lemmas say what the rest of the development needs of a digest: it is a
  string of 64 lower-case hexadecimal digits, so it never contains a colon.
\<close>

subsection \<open>\<open>str.encode("utf-8")\<close>\<close>

definition utf8_char :: "nat \<Rightarrow> nat list" where
  "utf8_char c =
     (if c < 128 then [c]
      else if c < 2048 then [192 + c div 64, 128 + c mod 64]
      else if c < 65536 then [224 + c div 4096, 128 + (c div 64) mod 64, 128 + c mod 64]
      else [240 + c div 262144, 128 + (c div 4096) mod 64, 128 + (c div 64) mod 64, 128 + c mod 64])"

definition utf8_encode :: "pystr \<Rightarrow> nat list result" where
  "utf8_encode s = (if scalar_str s then Inr (concat (map utf8_char s)) else Inl UnicodeEncodeError)"

lemma length_utf8_char: "length (utf8_char c) = utf8_width c"
  by (simp add: utf8_char_def utf8_width_def)

lemma length_utf8_encode: "utf8_encode s = Inr bs \<Longrightarrow> length bs = utf8_length s"
  by (auto simp: utf8_encode_def utf8_length_def length_concat length_utf8_char comp_def
      split: if_splits)

lemma utf8_encode_ascii: "is_ascii s \<Longrightarrow> utf8_encode s = Inr s"
proof -
  assume a: "is_ascii s"
  then have "concat (map utf8_char s) = s"
    by (induction s) (auto simp: is_ascii_def utf8_char_def)
  with a show ?thesis by (simp add: utf8_encode_def is_ascii_scalar)
qed

lemma utf8_char_bytes: "is_scalar c \<Longrightarrow> b \<in> set (utf8_char c) \<Longrightarrow> b < 256"
  by (auto simp: utf8_char_def is_scalar_def split: if_splits)

subsection \<open>SHA-256\<close>

type_synonym w32 = "32 word"

definition round_constants :: "w32 list" where
  "round_constants =
    [0x428a2f98, 0x71374491, 0xb5c0fbcf, 0xe9b5dba5, 0x3956c25b, 0x59f111f1,
     0x923f82a4, 0xab1c5ed5, 0xd807aa98, 0x12835b01, 0x243185be, 0x550c7dc3,
     0x72be5d74, 0x80deb1fe, 0x9bdc06a7, 0xc19bf174, 0xe49b69c1, 0xefbe4786,
     0x0fc19dc6, 0x240ca1cc, 0x2de92c6f, 0x4a7484aa, 0x5cb0a9dc, 0x76f988da,
     0x983e5152, 0xa831c66d, 0xb00327c8, 0xbf597fc7, 0xc6e00bf3, 0xd5a79147,
     0x06ca6351, 0x14292967, 0x27b70a85, 0x2e1b2138, 0x4d2c6dfc, 0x53380d13,
     0x650a7354, 0x766a0abb, 0x81c2c92e, 0x92722c85, 0xa2bfe8a1, 0xa81a664b,
     0xc24b8b70, 0xc76c51a3, 0xd192e819, 0xd6990624, 0xf40e3585, 0x106aa070,
     0x19a4c116, 0x1e376c08, 0x2748774c, 0x34b0bcb5, 0x391c0cb3, 0x4ed8aa4a,
     0x5b9cca4f, 0x682e6ff3, 0x748f82ee, 0x78a5636f, 0x84c87814, 0x8cc70208,
     0x90befffa, 0xa4506ceb, 0xbef9a3f7, 0xc67178f2]"

definition initial_hash :: "w32 list" where
  "initial_hash = [0x6a09e667, 0xbb67ae85, 0x3c6ef372, 0xa54ff53a, 0x510e527f, 0x9b05688c,
     0x1f83d9ab, 0x5be0cd19]"

definition big_sigma0 :: "w32 \<Rightarrow> w32" where
  "big_sigma0 x = word_rotr 2 x XOR word_rotr 13 x XOR word_rotr 22 x"

definition big_sigma1 :: "w32 \<Rightarrow> w32" where
  "big_sigma1 x = word_rotr 6 x XOR word_rotr 11 x XOR word_rotr 25 x"

definition small_sigma0 :: "w32 \<Rightarrow> w32" where
  "small_sigma0 x = word_rotr 7 x XOR word_rotr 18 x XOR drop_bit 3 x"

definition small_sigma1 :: "w32 \<Rightarrow> w32" where
  "small_sigma1 x = word_rotr 17 x XOR word_rotr 19 x XOR drop_bit 10 x"

definition ch :: "w32 \<Rightarrow> w32 \<Rightarrow> w32 \<Rightarrow> w32" where
  "ch x y z = (x AND y) XOR (NOT x AND z)"

definition maj :: "w32 \<Rightarrow> w32 \<Rightarrow> w32 \<Rightarrow> w32" where
  "maj x y z = (x AND y) XOR (x AND z) XOR (y AND z)"

text \<open>Padding: a one bit, zeros up to 56 bytes modulo 64, and the length in bits as 8 bytes.\<close>

definition be_bytes :: "nat \<Rightarrow> nat \<Rightarrow> nat list" where
  "be_bytes k n = map (\<lambda>i. n div 256 ^ (k - 1 - i) mod 256) [0..<k]"

definition pad :: "nat list \<Rightarrow> nat list" where
  "pad bs = bs @ [128] @ replicate ((119 - length bs mod 64) mod 64) 0 @ be_bytes 8 (8 * length bs)"

fun words_of :: "nat list \<Rightarrow> w32 list" where
  "words_of (a # b # c # d # bs) =
     of_nat (a * 16777216 + b * 65536 + c * 256 + d) # words_of bs"
| "words_of _ = []"

text \<open>The message schedule, newest word first: \<open>n\<close> more words after the 16 of the block.\<close>

fun extend :: "nat \<Rightarrow> w32 list \<Rightarrow> w32 list" where
  "extend 0 ws = ws"
| "extend (Suc n) ws =
     extend n ((small_sigma1 (ws ! 1) + ws ! 6 + small_sigma0 (ws ! 14) + ws ! 15) # ws)"

definition schedule :: "w32 list \<Rightarrow> w32 list" where
  "schedule block = rev (extend 48 (rev block))"

fun sha_round :: "w32 list \<Rightarrow> w32 \<times> w32 \<Rightarrow> w32 list" where
  "sha_round [a, b, c, d, e, f, g, h] (k, w) =
     (let t1 = h + big_sigma1 e + ch e f g + k + w;
          t2 = big_sigma0 a + maj a b c
      in [t1 + t2, a, b, c, d + t1, e, f, g])"
| "sha_round st _ = st"

definition compress :: "w32 list \<Rightarrow> w32 list \<Rightarrow> w32 list" where
  "compress st block = map2 (+) st (foldl sha_round st (zip round_constants (schedule block)))"

fun blocks :: "nat \<Rightarrow> w32 list \<Rightarrow> w32 list list" where
  "blocks 0 ws = []"
| "blocks (Suc n) ws = take 16 ws # blocks n (drop 16 ws)"

definition sha256 :: "nat list \<Rightarrow> w32 list" where
  "sha256 bs = (let ws = words_of (pad bs) in foldl compress initial_hash (blocks (length ws div 16) ws))"

subsection \<open>\<open>hexdigest\<close>\<close>

definition hex_digit :: "nat \<Rightarrow> nat" where
  "hex_digit n = (if n < 10 then 48 + n else 87 + n)"

definition hex_of :: "nat \<Rightarrow> nat \<Rightarrow> pystr" where
  "hex_of k n = map (\<lambda>i. hex_digit (n div 16 ^ (k - 1 - i) mod 16)) [0..<k]"

definition hexdigest :: "w32 list \<Rightarrow> pystr" where
  "hexdigest ws = concat (map (\<lambda>w. hex_of 8 (unat w)) ws)"

definition sha256_hex :: "nat list \<Rightarrow> pystr" where
  "sha256_hex bs = hexdigest (sha256 bs)"

definition is_hex :: "nat \<Rightarrow> bool" where
  "is_hex c \<longleftrightarrow> (48 \<le> c \<and> c \<le> 57) \<or> (97 \<le> c \<and> c \<le> 102)"

lemma is_hex_digit: "n < 16 \<Longrightarrow> is_hex (hex_digit n)"
  by (simp add: hex_digit_def is_hex_def)

lemma length_hex_of [simp]: "length (hex_of k n) = k"
  by (simp add: hex_of_def)

lemma hex_of_hex: "c \<in> set (hex_of k n) \<Longrightarrow> is_hex c"
  by (auto simp: hex_of_def intro: is_hex_digit)

lemma length_sha_round: "length (sha_round st kw) = length st"
  by (cases "(st, kw)" rule: sha_round.cases) (simp_all add: Let_def)

lemma length_sha_rounds: "length (foldl sha_round st kws) = length st"
  by (induction kws arbitrary: st) (simp_all add: length_sha_round)

lemma length_compress: "length (compress st block) = length st"
  by (simp add: compress_def length_sha_rounds)

lemma length_sha256 [simp]: "length (sha256 bs) = 8"
proof -
  have "length (foldl compress st bss) = length st" for st bss
    by (induction bss arbitrary: st) (simp_all add: length_compress)
  then show ?thesis by (simp add: sha256_def Let_def initial_hash_def)
qed

lemma length_sha256_hex [simp]: "length (sha256_hex bs) = 64"
  by (simp add: sha256_hex_def hexdigest_def length_concat comp_def sum_list_triv)

lemma sha256_hex_hex: "c \<in> set (sha256_hex bs) \<Longrightarrow> is_hex c"
  by (auto simp: sha256_hex_def hexdigest_def dest: hex_of_hex)

lemma sha256_hex_ascii: "is_ascii (sha256_hex bs)"
  using sha256_hex_hex by (fastforce simp: is_ascii_def list_all_iff is_hex_def)

lemma sha256_hex_no_colon: "58 \<notin> set (sha256_hex bs)"
  using sha256_hex_hex [of 58 bs] by (auto simp: is_hex_def)

end
