(* ===== verification/Keys.thy ===== *)
theory Keys
  imports Sha256
begin

text \<open>
  The key scheme of \<open>nexus/cache/keys.py\<close>: every key the program writes to Redis is built by
  one of these functions. The lemmas show that the families of keys never meet, that within
  a family different arguments give different keys, and that a rate-limit key determines its
  caller and its bucket even when the caller's name contains colons.
\<close>

definition KEY_NAMESPACE :: pystr where
  "KEY_NAMESPACE = u ''nexus''"

definition KEY_VERSION :: pystr where
  "KEY_VERSION = u ''v1''"

definition key_prefix :: pystr where
  "key_prefix = KEY_NAMESPACE @ u '':'' @ KEY_VERSION"

definition document_key :: "pystr \<Rightarrow> pystr" where
  "document_key document_hash = key_prefix @ u '':rag:doc:'' @ document_hash"

definition semantic_cache_key :: "pystr \<Rightarrow> pystr" where
  "semantic_cache_key cache_hash = key_prefix @ u '':semantic_cache:'' @ cache_hash"

definition rate_limit_minute_key :: "pystr \<Rightarrow> int \<Rightarrow> pystr" where
  "rate_limit_minute_key user_id bucket =
     key_prefix @ u '':rate_limit:'' @ user_id @ u '':minute:'' @ str_int bucket"

definition rate_limit_hour_key :: "pystr \<Rightarrow> int \<Rightarrow> pystr" where
  "rate_limit_hour_key user_id bucket =
     key_prefix @ u '':rate_limit:'' @ user_id @ u '':hour:'' @ str_int bucket"

definition session_memory_key :: "pystr \<Rightarrow> pystr" where
  "session_memory_key session_id = key_prefix @ u '':langchain:memory:session:'' @ session_id"

definition hash_text :: "pystr \<Rightarrow> pystr result" where
  "hash_text value =
     (case utf8_encode value of Inl e \<Rightarrow> Inl e | Inr bs \<Rightarrow> Inr (sha256_hex bs))"

lemmas key_defs [nexus_defs] =
  document_key_def semantic_cache_key_def rate_limit_minute_key_def rate_limit_hour_key_def
  session_memory_key_def

subsection \<open>Within a family\<close>

lemma document_key_inj [simp]: "document_key a = document_key b \<longleftrightarrow> a = b"
  by (simp add: document_key_def)

lemma semantic_cache_key_inj [simp]: "semantic_cache_key a = semantic_cache_key b \<longleftrightarrow> a = b"
  by (simp add: semantic_cache_key_def)

lemma session_memory_key_inj [simp]: "session_memory_key a = session_memory_key b \<longleftrightarrow> a = b"
  by (simp add: session_memory_key_def)

lemma str_int_no_colon: "58 \<notin> set (str_int n)"
  using str_int_range [of 58 n] by auto

text \<open>The part after the last colon of a string is determined by the string.\<close>

lemma last_segment_unique:
  assumes "x @ 58 # a = y @ 58 # b" and "58 \<notin> set a" and "58 \<notin> set b"
  shows "x = y \<and> a = b"
proof -
  have "rev a @ 58 # rev x = rev b @ 58 # rev y"
    using arg_cong [OF assms(1), of rev] by simp
  moreover have "takeWhile (\<lambda>c. c \<noteq> 58) (rev a @ 58 # rev x) = rev a"
    "takeWhile (\<lambda>c. c \<noteq> 58) (rev b @ 58 # rev y) = rev b"
    using assms(2,3) by (auto simp: takeWhile_tail intro: takeWhile_append2 [THEN trans])
  ultimately have "rev a = rev b \<and> rev x = rev y" by simp
  then show ?thesis by simp
qed

lemma bucket_segment:
  assumes "x @ u (s @ '':'') @ str_int a = y @ u (t @ '':'') @ str_int b"
  shows "x @ u s = y @ u t \<and> a = b"
proof -
  have "(x @ u s) @ 58 # str_int a = (y @ u t) @ 58 # str_int b"
    using assms by (simp add: u_def)
  from last_segment_unique [OF this str_int_no_colon str_int_no_colon] show ?thesis by simp
qed

lemma rate_limit_minute_key_inj [simp]:
  "rate_limit_minute_key v a = rate_limit_minute_key w b \<longleftrightarrow> v = w \<and> a = b"
proof
  assume "rate_limit_minute_key v a = rate_limit_minute_key w b"
  then have "v @ u ('':minute'' @ '':'') @ str_int a = w @ u ('':minute'' @ '':'') @ str_int b"
    by (simp add: rate_limit_minute_key_def)
  then show "v = w \<and> a = b" by (auto dest: bucket_segment [of _ "'':minute''" _ _ "'':minute''", simplified])
qed simp

lemma rate_limit_hour_key_inj [simp]:
  "rate_limit_hour_key v a = rate_limit_hour_key w b \<longleftrightarrow> v = w \<and> a = b"
proof
  assume "rate_limit_hour_key v a = rate_limit_hour_key w b"
  then have "v @ u ('':hour'' @ '':'') @ str_int a = w @ u ('':hour'' @ '':'') @ str_int b"
    by (simp add: rate_limit_hour_key_def)
  then show "v = w \<and> a = b" by (auto dest: bucket_segment [of _ "'':hour''" _ _ "'':hour''", simplified])
qed simp

subsection \<open>Between families\<close>

text \<open>A minute key and an hour key differ before the last colon: one reads \<open>e\<close>, the other \<open>r\<close>.\<close>

lemma minute_hour_disjoint [simp]:
  "rate_limit_minute_key v a \<noteq> rate_limit_hour_key w b"
  "rate_limit_hour_key w b \<noteq> rate_limit_minute_key v a"
proof -
  show "rate_limit_minute_key v a \<noteq> rate_limit_hour_key w b"
  proof
    assume "rate_limit_minute_key v a = rate_limit_hour_key w b"
    then have "v @ u ('':minute'' @ '':'') @ str_int a = w @ u ('':hour'' @ '':'') @ str_int b"
      by (simp add: rate_limit_minute_key_def rate_limit_hour_key_def)
    then have "v @ u '':minute'' = w @ u '':hour''"
      by (auto dest: bucket_segment [of _ "'':minute''" _ _ "'':hour''", simplified])
    then have "last (v @ u '':minute'') = last (w @ u '':hour'')" by (rule arg_cong)
    then show False by (simp add: u_def)
  qed
  then show "rate_limit_hour_key w b \<noteq> rate_limit_minute_key v a" by (rule not_sym)
qed

text \<open>The other families differ at the first character after \<open>nexus:v1:\<close>.\<close>

lemma families_disjoint [simp]:
  "semantic_cache_key h \<noteq> rate_limit_minute_key v a" "rate_limit_minute_key v a \<noteq> semantic_cache_key h"
  "semantic_cache_key h \<noteq> rate_limit_hour_key v a" "rate_limit_hour_key v a \<noteq> semantic_cache_key h"
  "semantic_cache_key h \<noteq> session_memory_key s" "session_memory_key s \<noteq> semantic_cache_key h"
  "semantic_cache_key h \<noteq> document_key d" "document_key d \<noteq> semantic_cache_key h"
  "session_memory_key s \<noteq> rate_limit_minute_key v a" "rate_limit_minute_key v a \<noteq> session_memory_key s"
  "session_memory_key s \<noteq> rate_limit_hour_key v a" "rate_limit_hour_key v a \<noteq> session_memory_key s"
  "session_memory_key s \<noteq> document_key d" "document_key d \<noteq> session_memory_key s"
  "document_key d \<noteq> rate_limit_minute_key v a" "rate_limit_minute_key v a \<noteq> document_key d"
  "document_key d \<noteq> rate_limit_hour_key v a" "rate_limit_hour_key v a \<noteq> document_key d"
  by (simp_all add: key_defs u_def)

text \<open>What a key is for, with the arguments of its function: the abstract name space the key scheme
  implements in strings.\<close>

datatype key_purpose =
    Document pystr
  | Cached_Response pystr
  | Minute_Window pystr int
  | Hour_Window pystr int
  | Session_Memory pystr

primrec redis_key :: "key_purpose \<Rightarrow> pystr" where
  "redis_key (Document d) = document_key d"
| "redis_key (Cached_Response h) = semantic_cache_key h"
| "redis_key (Minute_Window v b) = rate_limit_minute_key v b"
| "redis_key (Hour_Window v b) = rate_limit_hour_key v b"
| "redis_key (Session_Memory s) = session_memory_key s"

lemma redis_key_inj [simp]: "redis_key p = redis_key q \<longleftrightarrow> p = q"
  by (cases p; cases q) simp_all

lemma hash_text_cases:
  obtains "scalar_str s" "hash_text s = Inr (sha256_hex (concat (map utf8_char s)))"
  | "\<not> scalar_str s" "hash_text s = Inl UnicodeEncodeError"
  by (auto simp: hash_text_def utf8_encode_def split: if_splits)

end
