(* ===== verification/Redis.thy ===== *)
theory Redis
  imports Nexus_Prelude
begin

text \<open>
  The Redis/Valkey client the adapters call (\<open>redis.asyncio\<close>) is not part of the program, so it
  is a parameter: a record \<open>redis_client\<close> of the commands the adapters issue, over any state
  type \<open>'s\<close>. A command returns its reply or an exception and the state after it. \<open>rc_eval\<close> and
  \<open>rc_transaction\<close> take what runs on the server: a script's meaning, and the queued commands.

  What the program relies on is the documented effect of these commands on a keyspace with
  expiry times, for as long as the connection is up: the locale \<open>redis_laws\<close>. The keyspace
  itself, driven by the documented commands, is the model of the laws.
\<close>

subsection \<open>The client\<close>

text \<open>A reply to \<open>GET\<close>: nothing, a decoded string, or a value of another type.\<close>

datatype reply = RNone | RStr pystr | ROther

record 's redis_client =
  rc_ping :: "'s \<Rightarrow> bool result \<times> 's"
  rc_get :: "pystr \<Rightarrow> 's \<Rightarrow> reply result \<times> 's"
  rc_set :: "pystr \<Rightarrow> pystr \<Rightarrow> int option \<Rightarrow> 's \<Rightarrow> bool result \<times> 's"
  rc_ttl :: "pystr \<Rightarrow> 's \<Rightarrow> int result \<times> 's"
  rc_delete :: "pystr \<Rightarrow> 's \<Rightarrow> int result \<times> 's"
  rc_exists :: "pystr \<Rightarrow> 's \<Rightarrow> int result \<times> 's"
  rc_lrange :: "pystr \<Rightarrow> int \<Rightarrow> int \<Rightarrow> 's \<Rightarrow> pystr list result \<times> 's"
  rc_incr :: "pystr \<Rightarrow> 's \<Rightarrow> int result \<times> 's"
  rc_expire :: "pystr \<Rightarrow> int \<Rightarrow> 's \<Rightarrow> int result \<times> 's"
  rc_rpush :: "pystr \<Rightarrow> pystr \<Rightarrow> 's \<Rightarrow> int result \<times> 's"
  rc_ltrim :: "pystr \<Rightarrow> int \<Rightarrow> int \<Rightarrow> 's \<Rightarrow> int result \<times> 's"
  rc_eval :: "('s \<Rightarrow> int result \<times> 's) \<Rightarrow> 's \<Rightarrow> int result \<times> 's"
  rc_transaction :: "('s \<Rightarrow> int result \<times> 's) list \<Rightarrow> 's \<Rightarrow> unit result \<times> 's"
  rc_aclose :: "'s \<Rightarrow> 's"

subsection \<open>Keyspaces\<close>

datatype rvalue = VStr pystr | VList "pystr list"

record keyspace =
  ks_clock :: real
  ks_data :: "pystr \<rightharpoonup> rvalue \<times> real option"

text \<open>The value of a key that has not expired.\<close>

definition expired :: "real \<Rightarrow> real option \<Rightarrow> bool" where
  "expired now ex = (case ex of None \<Rightarrow> False | Some t \<Rightarrow> t \<le> now)"

definition live :: "keyspace \<Rightarrow> pystr \<Rightarrow> (rvalue \<times> real option) option" where
  "live k key =
     (case ks_data k key of
        None \<Rightarrow> None
      | Some (v, ex) \<Rightarrow> (if expired (ks_clock k) ex then None else Some (v, ex)))"

definition store_at :: "pystr \<Rightarrow> (rvalue \<times> real option) option \<Rightarrow> keyspace \<Rightarrow> keyspace" where
  "store_at key entry k = k\<lparr>ks_data := (ks_data k)(key := entry)\<rparr>"

definition elapse :: "real \<Rightarrow> keyspace \<Rightarrow> keyspace" where
  "elapse d k = k\<lparr>ks_clock := ks_clock k + d\<rparr>"

text \<open>The integer a stored string denotes, as \<open>INCR\<close> reads it.\<close>

definition digits_only :: "pystr \<Rightarrow> bool" where
  "digits_only s \<longleftrightarrow> s \<noteq> [] \<and> list_all (\<lambda>c. 48 \<le> c \<and> c \<le> 57) s"

definition parse_int :: "pystr \<Rightarrow> int option" where
  "parse_int s =
     (if digits_only s then Some (int (value_of s))
      else if take 1 s = [45] \<and> digits_only (drop 1 s) then Some (- int (value_of (drop 1 s)))
      else None)"

lemma digits_only_digits_of [simp]: "digits_only (digits_of n)"
  using digits_of_range by (auto simp: digits_only_def list_all_iff)

lemma parse_int_str_int [simp]: "parse_int (str_int n) = Some n"
  by (auto simp: parse_int_def str_int_def digits_only_def [of "45 # _"])

definition wrong_type :: exn where
  "wrong_type = OtherError (u ''WRONGTYPE Operation against a key holding the wrong kind of value'')"

definition not_an_integer :: exn where
  "not_an_integer = OtherError (u ''value is not an integer or out of range'')"

definition invalid_expire :: exn where
  "invalid_expire = OtherError (u ''invalid expire time in 'set' command'')"

subsection \<open>The documented commands\<close>

definition ks_get :: "pystr \<Rightarrow> keyspace \<Rightarrow> reply result \<times> keyspace" where
  "ks_get key k =
     (case live k key of
        None \<Rightarrow> (Inr RNone, k)
      | Some (VStr s, ex) \<Rightarrow> (Inr (RStr s), k)
      | Some (VList xs, ex) \<Rightarrow> (Inl wrong_type, k))"

definition ks_set :: "pystr \<Rightarrow> pystr \<Rightarrow> int option \<Rightarrow> keyspace \<Rightarrow> bool result \<times> keyspace" where
  "ks_set key v ex k =
     (if (case ex of None \<Rightarrow> False | Some t \<Rightarrow> t \<le> 0) then (Inl invalid_expire, k)
      else (Inr True, store_at key (Some (VStr v, map_option (\<lambda>t. ks_clock k + real_of_int t) ex)) k))"

text \<open>\<open>TTL\<close> rounds the remaining time to whole seconds.\<close>

definition ks_ttl :: "pystr \<Rightarrow> keyspace \<Rightarrow> int result \<times> keyspace" where
  "ks_ttl key k =
     (case live k key of
        None \<Rightarrow> (Inr (- 2), k)
      | Some (v, None) \<Rightarrow> (Inr (- 1), k)
      | Some (v, Some t) \<Rightarrow> (Inr \<lfloor>t - ks_clock k + 1 / 2\<rfloor>, k))"

definition ks_delete :: "pystr \<Rightarrow> keyspace \<Rightarrow> int result \<times> keyspace" where
  "ks_delete key k = (case live k key of None \<Rightarrow> (Inr 0, k) | Some _ \<Rightarrow> (Inr 1, store_at key None k))"

definition ks_exists :: "pystr \<Rightarrow> keyspace \<Rightarrow> int result \<times> keyspace" where
  "ks_exists key k = (case live k key of None \<Rightarrow> (Inr 0, k) | Some _ \<Rightarrow> (Inr 1, k))"

text \<open>\<open>INCR\<close> counts in 64 bits and keeps the expiry time.\<close>

definition ks_incr :: "pystr \<Rightarrow> keyspace \<Rightarrow> int result \<times> keyspace" where
  "ks_incr key k =
     (case live k key of
        None \<Rightarrow> (Inr 1, store_at key (Some (VStr (str_int 1), None)) k)
      | Some (VList xs, ex) \<Rightarrow> (Inl wrong_type, k)
      | Some (VStr s, ex) \<Rightarrow>
          (case parse_int s of
             None \<Rightarrow> (Inl not_an_integer, k)
           | Some n \<Rightarrow>
               (if n < 2 ^ 63 - 1
                then (Inr (n + 1), store_at key (Some (VStr (str_int (n + 1)), ex)) k)
                else (Inl not_an_integer, k))))"

definition ks_expire :: "pystr \<Rightarrow> int \<Rightarrow> keyspace \<Rightarrow> int result \<times> keyspace" where
  "ks_expire key ttl k =
     (case live k key of
        None \<Rightarrow> (Inr 0, k)
      | Some (v, ex) \<Rightarrow>
          (Inr 1, store_at key (if ttl \<le> 0 then None
             else Some (v, Some (ks_clock k + real_of_int ttl))) k))"

text \<open>The elements \<open>start\<close> to \<open>stop\<close>, both inclusive, negative positions from the end.\<close>

definition slice :: "int \<Rightarrow> int \<Rightarrow> 'a list \<Rightarrow> 'a list" where
  "slice start stop xs =
     (let n = int (length xs);
          i = max 0 (if start < 0 then n + start else start);
          j = (if stop < 0 then n + stop else stop)
      in if i > j then [] else drop (nat i) (take (nat (j + 1)) xs))"

definition ks_lrange :: "pystr \<Rightarrow> int \<Rightarrow> int \<Rightarrow> keyspace \<Rightarrow> pystr list result \<times> keyspace" where
  "ks_lrange key start stop k =
     (case live k key of
        None \<Rightarrow> (Inr [], k)
      | Some (VList xs, ex) \<Rightarrow> (Inr (slice start stop xs), k)
      | Some (VStr s, ex) \<Rightarrow> (Inl wrong_type, k))"

definition ks_rpush :: "pystr \<Rightarrow> pystr \<Rightarrow> keyspace \<Rightarrow> int result \<times> keyspace" where
  "ks_rpush key v k =
     (case live k key of
        None \<Rightarrow> (Inr 1, store_at key (Some (VList [v], None)) k)
      | Some (VList xs, ex) \<Rightarrow>
          (Inr (int (length xs) + 1), store_at key (Some (VList (xs @ [v]), ex)) k)
      | Some (VStr s, ex) \<Rightarrow> (Inl wrong_type, k))"

definition ks_ltrim :: "pystr \<Rightarrow> int \<Rightarrow> int \<Rightarrow> keyspace \<Rightarrow> int result \<times> keyspace" where
  "ks_ltrim key start stop k =
     (case live k key of
        None \<Rightarrow> (Inr 1, k)
      | Some (VList xs, ex) \<Rightarrow>
          (Inr 1, store_at key (if slice start stop xs = [] then None
             else Some (VList (slice start stop xs), ex)) k)
      | Some (VStr s, ex) \<Rightarrow> (Inl wrong_type, k))"

text \<open>\<open>MULTI\<close>/\<open>EXEC\<close> runs every queued command, also after one that failed; the client raises
  the first error.\<close>

fun run_queued :: "('s \<Rightarrow> int result \<times> 's) list \<Rightarrow> 's \<Rightarrow> unit result \<times> 's" where
  "run_queued [] s = (Inr (), s)"
| "run_queued (c # cs) s =
     (case c s of
        (Inr _, s') \<Rightarrow> run_queued cs s'
      | (Inl e, s') \<Rightarrow> (Inl e, snd (run_queued cs s')))"

text \<open>The client encodes keys and values in UTF-8 before it sends them.\<close>

definition encoded :: "pystr list \<Rightarrow> ('s \<Rightarrow> 'a result \<times> 's) \<Rightarrow> 's \<Rightarrow> 'a result \<times> 's" where
  "encoded ss f s = (if list_all scalar_str ss then f s else (Inl UnicodeEncodeError, s))"

definition ks_client :: "keyspace redis_client" where
  "ks_client = \<lparr>
     rc_ping = (\<lambda>k. (Inr True, k)),
     rc_get = (\<lambda>key. encoded [key] (ks_get key)),
     rc_set = (\<lambda>key v ex. encoded [key, v] (ks_set key v ex)),
     rc_ttl = (\<lambda>key. encoded [key] (ks_ttl key)),
     rc_delete = (\<lambda>key. encoded [key] (ks_delete key)),
     rc_exists = (\<lambda>key. encoded [key] (ks_exists key)),
     rc_lrange = (\<lambda>key i j. encoded [key] (ks_lrange key i j)),
     rc_incr = (\<lambda>key. encoded [key] (ks_incr key)),
     rc_expire = (\<lambda>key t. encoded [key] (ks_expire key t)),
     rc_rpush = (\<lambda>key v. encoded [key, v] (ks_rpush key v)),
     rc_ltrim = (\<lambda>key i j. encoded [key] (ks_ltrim key i j)),
     rc_eval = (\<lambda>f. f),
     rc_transaction = run_queued,
     rc_aclose = (\<lambda>k. k)\<rparr>"

lemma ks_client_sel [simp]:
  "rc_ping ks_client = (\<lambda>k. (Inr True, k))"
  "rc_get ks_client key = encoded [key] (ks_get key)"
  "rc_set ks_client key v ex = encoded [key, v] (ks_set key v ex)"
  "rc_ttl ks_client key = encoded [key] (ks_ttl key)"
  "rc_delete ks_client key = encoded [key] (ks_delete key)"
  "rc_exists ks_client key = encoded [key] (ks_exists key)"
  "rc_lrange ks_client key i j = encoded [key] (ks_lrange key i j)"
  "rc_incr ks_client key = encoded [key] (ks_incr key)"
  "rc_expire ks_client key t = encoded [key] (ks_expire key t)"
  "rc_rpush ks_client key v = encoded [key, v] (ks_rpush key v)"
  "rc_ltrim ks_client key i j = encoded [key] (ks_ltrim key i j)"
  "rc_eval ks_client f = f"
  "rc_transaction ks_client cs = run_queued cs"
  by (simp_all add: ks_client_def)

subsection \<open>The laws\<close>

text \<open>
  \<open>obeys up ks f g\<close>: while the connection is up, \<open>f\<close> answers as \<open>g\<close> does on the keyspace \<open>ks s\<close>,
  leaves the keyspace that \<open>g\<close> leaves, and the connection stays up.
\<close>

definition obeys ::
  "('s \<Rightarrow> bool) \<Rightarrow> ('s \<Rightarrow> 'k) \<Rightarrow> ('s \<Rightarrow> 'a \<times> 's) \<Rightarrow> ('k \<Rightarrow> 'a \<times> 'k) \<Rightarrow> bool"
where
  "obeys up ks f g \<longleftrightarrow>
     (\<forall>s. up s \<longrightarrow> fst (f s) = fst (g (ks s)) \<and> ks (snd (f s)) = snd (g (ks s)) \<and> up (snd (f s)))"

lemma obeysI:
  "(\<And>s. up s \<Longrightarrow> fst (f s) = fst (g (ks s)) \<and> ks (snd (f s)) = snd (g (ks s)) \<and> up (snd (f s)))
    \<Longrightarrow> obeys up ks f g"
  by (simp add: obeys_def)

lemma obeysD:
  assumes "obeys up ks f g" and "up s"
  obtains s' where "f s = (fst (g (ks s)), s')" "ks s' = snd (g (ks s))" "up s'"
  using assms by (metis obeys_def prod.collapse)

lemma obeys_return: "obeys up ks (\<lambda>s. (x, s)) (\<lambda>k. (x, k))"
  by (simp add: obeys_def)

text \<open>Programs that sequence obedient commands are obedient.\<close>

lemma obeys_bind:
  assumes "obeys up ks f g" and "\<And>x. obeys up ks (h x) (j x)"
  shows "obeys up ks (\<lambda>s. case f s of (x, s') \<Rightarrow> h x s') (\<lambda>k. case g k of (x, k') \<Rightarrow> j x k')"
proof (rule obeysI)
  fix s assume "up s"
  with assms(1) obtain s' where s': "f s = (fst (g (ks s)), s')" "ks s' = snd (g (ks s))" "up s'"
    by (rule obeysD)
  from assms(2) [of "fst (g (ks s))"] s' show
    "fst (case f s of (x, s') \<Rightarrow> h x s') = fst (case g (ks s) of (x, k') \<Rightarrow> j x k')
     \<and> ks (snd (case f s of (x, s') \<Rightarrow> h x s')) = snd (case g (ks s) of (x, k') \<Rightarrow> j x k')
     \<and> up (snd (case f s of (x, s') \<Rightarrow> h x s'))"
    by (auto simp: obeys_def split: prod.splits)
qed

lemma obeys_run_queued:
  "list_all2 (obeys up ks) cs ds \<Longrightarrow> obeys up ks (run_queued cs) (run_queued ds)"
proof (induction cs ds rule: list_all2_induct)
  case Nil
  show ?case by (simp add: obeys_def)
next
  case (Cons c cs d ds)
  show ?case
  proof (rule obeysI)
    fix s assume "up s"
    with Cons.hyps(1) obtain s' where s': "c s = (fst (d (ks s)), s')" "ks s' = snd (d (ks s))" "up s'"
      by (rule obeysD)
    with Cons.IH show "fst (run_queued (c # cs) s) = fst (run_queued (d # ds) (ks s))
       \<and> ks (snd (run_queued (c # cs) s)) = snd (run_queued (d # ds) (ks s))
       \<and> up (snd (run_queued (c # cs) s))"
      by (auto simp: obeys_def split: prod.splits sum.splits)
  qed
qed

locale redis_laws =
  fixes C :: "'s redis_client"
    and up :: "'s \<Rightarrow> bool"
    and ks :: "'s \<Rightarrow> keyspace"
  assumes ping_law: "obeys up ks (rc_ping C) (rc_ping ks_client)"
    and get_law: "obeys up ks (rc_get C key) (rc_get ks_client key)"
    and set_law: "obeys up ks (rc_set C key v ex) (rc_set ks_client key v ex)"
    and ttl_law: "obeys up ks (rc_ttl C key) (rc_ttl ks_client key)"
    and delete_law: "obeys up ks (rc_delete C key) (rc_delete ks_client key)"
    and exists_law: "obeys up ks (rc_exists C key) (rc_exists ks_client key)"
    and lrange_law: "obeys up ks (rc_lrange C key i j) (rc_lrange ks_client key i j)"
    and incr_law: "obeys up ks (rc_incr C key) (rc_incr ks_client key)"
    and expire_law: "obeys up ks (rc_expire C key t) (rc_expire ks_client key t)"
    and rpush_law: "obeys up ks (rc_rpush C key v) (rc_rpush ks_client key v)"
    and ltrim_law: "obeys up ks (rc_ltrim C key i j) (rc_ltrim ks_client key i j)"
    and eval_law: "obeys up ks f g \<Longrightarrow> obeys up ks (rc_eval C f) (rc_eval ks_client g)"
    and transaction_law: "list_all2 (obeys up ks) cs ds
      \<Longrightarrow> obeys up ks (rc_transaction C cs) (rc_transaction ks_client ds)"

interpretation ks: redis_laws ks_client "\<lambda>_. True" "\<lambda>k. k"
proof unfold_locales
  fix cs ds :: "(keyspace \<Rightarrow> int result \<times> keyspace) list"
  assume "list_all2 (obeys (\<lambda>_. True) (\<lambda>k. k)) cs ds"
  then show "obeys (\<lambda>_. True) (\<lambda>k. k) (rc_transaction ks_client cs) (rc_transaction ks_client ds)"
    by (simp add: obeys_run_queued)
qed (simp_all add: obeys_def)

end
