(* ===== verification/Cache_Store.thy ===== *)
theory Cache_Store
  imports Redis Settings
begin

text \<open>
  The storage protocols \<open>CacheStore\<close> and \<open>SessionMemoryStore\<close>
  (\<open>nexus/cache/adapters/protocol.py\<close>, \<open>memory_protocol.py\<close>) and the two Redis adapters that
  implement them (\<open>redis.py\<close>, \<open>redis_memory.py\<close>). Each adapter operation takes the client and
  returns a state transformer; the services see only the protocol records.

  The contracts the services rest on are locales: a text store, a counter store, a bounded
  list store. Each is interpreted for the Redis adapter on a keyspace.
\<close>

subsection \<open>The protocols\<close>

record 's cache_store =
  cs_get :: "pystr \<Rightarrow> 's \<Rightarrow> pystr option result \<times> 's"
  cs_set :: "pystr \<Rightarrow> pystr \<Rightarrow> int option \<Rightarrow> 's \<Rightarrow> bool result \<times> 's"
  cs_increment :: "pystr \<Rightarrow> int \<Rightarrow> 's \<Rightarrow> int result \<times> 's"
  cs_ttl :: "pystr \<Rightarrow> 's \<Rightarrow> int result \<times> 's"
  cs_delete :: "pystr \<Rightarrow> 's \<Rightarrow> int result \<times> 's"
  cs_exists :: "pystr \<Rightarrow> 's \<Rightarrow> bool result \<times> 's"
  cs_close :: "'s \<Rightarrow> 's"

record 's session_memory_store =
  ms_append_bounded :: "pystr \<Rightarrow> pystr \<Rightarrow> int \<Rightarrow> int \<Rightarrow> 's \<Rightarrow> unit result \<times> 's"
  ms_get_recent :: "pystr \<Rightarrow> int \<Rightarrow> 's \<Rightarrow> pystr list result \<times> 's"
  ms_delete :: "pystr \<Rightarrow> 's \<Rightarrow> int result \<times> 's"
  ms_close :: "'s \<Rightarrow> 's"

subsection \<open>\<open>RedisCacheAdapter\<close>\<close>

definition adapter_ping :: "'s redis_client \<Rightarrow> 's \<Rightarrow> bool result \<times> 's" where
  "adapter_ping C s = rc_ping C s"

definition adapter_get :: "'s redis_client \<Rightarrow> pystr \<Rightarrow> 's \<Rightarrow> pystr option result \<times> 's" where
  "adapter_get C key s =
     (case rc_get C key s of
        (Inl e, s') \<Rightarrow> (Inl e, s')
      | (Inr RNone, s') \<Rightarrow> (Inr None, s')
      | (Inr (RStr v), s') \<Rightarrow> (Inr (Some v), s')
      | (Inr ROther, s') \<Rightarrow> (Inl (TypeError (u ''Redis cache value must be a string'')), s'))"

definition adapter_set :: "'s redis_client \<Rightarrow> pystr \<Rightarrow> pystr \<Rightarrow> int option \<Rightarrow> 's \<Rightarrow> bool result \<times> 's" where
  "adapter_set C key value ttl_seconds s =
     (if (case ttl_seconds of None \<Rightarrow> False | Some t \<Rightarrow> t \<le> 0)
      then (Inl (ValueError (u ''ttl_seconds must be positive'')), s)
      else rc_set C key value ttl_seconds s)"

text \<open>The Lua script: \<open>INCR\<close>, and \<open>EXPIRE\<close> when the count is 1. An error of a command ends it.\<close>

definition increment_script :: "'s redis_client \<Rightarrow> pystr \<Rightarrow> int \<Rightarrow> 's \<Rightarrow> int result \<times> 's" where
  "increment_script C key ttl s =
     (case rc_incr C key s of
        (Inl e, s') \<Rightarrow> (Inl e, s')
      | (Inr count, s') \<Rightarrow>
          (if count = 1
           then (case rc_expire C key ttl s' of
                   (Inl e, s'') \<Rightarrow> (Inl e, s'')
                 | (Inr _, s'') \<Rightarrow> (Inr count, s''))
           else (Inr count, s')))"

definition adapter_increment :: "'s redis_client \<Rightarrow> pystr \<Rightarrow> int \<Rightarrow> 's \<Rightarrow> int result \<times> 's" where
  "adapter_increment C key ttl_seconds s =
     (if ttl_seconds \<le> 0 then (Inl (ValueError (u ''ttl_seconds must be positive'')), s)
      else rc_eval C (increment_script C key ttl_seconds) s)"

definition adapter_ttl :: "'s redis_client \<Rightarrow> pystr \<Rightarrow> 's \<Rightarrow> int result \<times> 's" where
  "adapter_ttl C key s = rc_ttl C key s"

definition adapter_delete :: "'s redis_client \<Rightarrow> pystr \<Rightarrow> 's \<Rightarrow> int result \<times> 's" where
  "adapter_delete C key s = rc_delete C key s"

definition adapter_exists :: "'s redis_client \<Rightarrow> pystr \<Rightarrow> 's \<Rightarrow> bool result \<times> 's" where
  "adapter_exists C key s =
     (case rc_exists C key s of
        (Inl e, s') \<Rightarrow> (Inl e, s')
      | (Inr n, s') \<Rightarrow> (Inr (n \<noteq> 0), s'))"

definition adapter_close :: "'s redis_client \<Rightarrow> 's \<Rightarrow> 's" where
  "adapter_close C s = rc_aclose C s"

definition redis_cache :: "'s redis_client \<Rightarrow> 's cache_store" where
  "redis_cache C = \<lparr>cs_get = adapter_get C, cs_set = adapter_set C,
     cs_increment = adapter_increment C, cs_ttl = adapter_ttl C, cs_delete = adapter_delete C,
     cs_exists = adapter_exists C, cs_close = adapter_close C\<rparr>"

lemma redis_cache_sel [simp]:
  "cs_get (redis_cache C) = adapter_get C"
  "cs_set (redis_cache C) = adapter_set C"
  "cs_increment (redis_cache C) = adapter_increment C"
  "cs_ttl (redis_cache C) = adapter_ttl C"
  "cs_delete (redis_cache C) = adapter_delete C"
  "cs_exists (redis_cache C) = adapter_exists C"
  "cs_close (redis_cache C) = adapter_close C"
  by (simp_all add: redis_cache_def)

subsection \<open>\<open>RedisSessionMemoryAdapter\<close>\<close>

definition memory_append_bounded ::
  "'s redis_client \<Rightarrow> pystr \<Rightarrow> pystr \<Rightarrow> int \<Rightarrow> int \<Rightarrow> 's \<Rightarrow> unit result \<times> 's"
where
  "memory_append_bounded C key value max_items ttl_seconds s =
     (if max_items \<le> 0 then (Inl (ValueError (u ''max_items must be positive'')), s)
      else if ttl_seconds \<le> 0 then (Inl (ValueError (u ''ttl_seconds must be positive'')), s)
      else rc_transaction C
             [rc_rpush C key value, rc_ltrim C key (- max_items) (- 1), rc_expire C key ttl_seconds] s)"

definition memory_get_recent :: "'s redis_client \<Rightarrow> pystr \<Rightarrow> int \<Rightarrow> 's \<Rightarrow> pystr list result \<times> 's" where
  "memory_get_recent C key max_items s =
     (if max_items \<le> 0 then (Inl (ValueError (u ''max_items must be positive'')), s)
      else rc_lrange C key (- max_items) (- 1) s)"

definition memory_delete :: "'s redis_client \<Rightarrow> pystr \<Rightarrow> 's \<Rightarrow> int result \<times> 's" where
  "memory_delete C key s = rc_delete C key s"

definition memory_close :: "'s redis_client \<Rightarrow> 's \<Rightarrow> 's" where
  "memory_close C s = rc_aclose C s"

definition redis_memory :: "'s redis_client \<Rightarrow> 's session_memory_store" where
  "redis_memory C = \<lparr>ms_append_bounded = memory_append_bounded C,
     ms_get_recent = memory_get_recent C, ms_delete = memory_delete C, ms_close = memory_close C\<rparr>"

lemma redis_memory_sel [simp]:
  "ms_append_bounded (redis_memory C) = memory_append_bounded C"
  "ms_get_recent (redis_memory C) = memory_get_recent C"
  "ms_delete (redis_memory C) = memory_delete C"
  "ms_close (redis_memory C) = memory_close C"
  by (simp_all add: redis_memory_def)

subsection \<open>\<open>from_settings\<close>\<close>

text \<open>The options both adapters pass to redis-py. Making the client is done by the library, from
  the options: it is the parameter \<open>connect\<close>, which may refuse the URL.\<close>

record redis_options =
  ro_url :: pystr
  ro_max_connections :: int
  ro_socket_connect_timeout :: real
  ro_socket_timeout :: real
  ro_health_check_interval :: int
  ro_decode_responses :: bool

definition redis_options_of :: "settings \<Rightarrow> redis_options" where
  "redis_options_of st = \<lparr>ro_url = redis_url st, ro_max_connections = redis_max_connections st,
     ro_socket_connect_timeout = redis_connect_timeout_seconds st,
     ro_socket_timeout = redis_socket_timeout_seconds st,
     ro_health_check_interval = redis_health_check_interval_seconds st, ro_decode_responses = True\<rparr>"

definition cache_from_settings ::
  "(redis_options \<Rightarrow> 's redis_client result) \<Rightarrow> settings \<Rightarrow> 's redis_client result"
where
  "cache_from_settings connect st = connect (redis_options_of st)"

definition memory_from_settings ::
  "(redis_options \<Rightarrow> 's redis_client result) \<Rightarrow> settings \<Rightarrow> 's session_memory_store result"
where
  "memory_from_settings connect st =
     (case connect (redis_options_of st) of Inl e \<Rightarrow> Inl e | Inr C \<Rightarrow> Inr (redis_memory C))"

subsection \<open>On a lawful client the adapters act as on the keyspace\<close>

lemma obeys_sum_bind:
  assumes "obeys up ks f g" and "\<And>x. obeys up ks (h x) (j x)"
  shows "obeys up ks
     (\<lambda>s. case f s of (Inl e, s') \<Rightarrow> (Inl e, s') | (Inr x, s') \<Rightarrow> h x s')
     (\<lambda>k. case g k of (Inl e, k') \<Rightarrow> (Inl e, k') | (Inr x, k') \<Rightarrow> j x k')"
proof -
  have "obeys up ks (\<lambda>s. case r of Inl e \<Rightarrow> (Inl e, s) | Inr x \<Rightarrow> h x s)
      (\<lambda>k. case r of Inl e \<Rightarrow> (Inl e, k) | Inr x \<Rightarrow> j x k)" for r
    by (cases r) (simp_all add: obeys_return assms(2))
  from obeys_bind [OF assms(1) this] show ?thesis
    by (simp add: case_prod_beta' sum.case_eq_if cong: sum.case_cong)
qed

context redis_laws
begin

lemma get_obeys: "obeys up ks (adapter_get C key) (adapter_get ks_client key)"
proof -
  have "obeys up ks (\<lambda>s. case r of RNone \<Rightarrow> (Inr None, s) | RStr v \<Rightarrow> (Inr (Some v), s)
        | ROther \<Rightarrow> (Inl (TypeError (u ''Redis cache value must be a string'')), s))
      (\<lambda>s. case r of RNone \<Rightarrow> (Inr None, s) | RStr v \<Rightarrow> (Inr (Some v), s)
        | ROther \<Rightarrow> (Inl (TypeError (u ''Redis cache value must be a string'')), s))" for r
    by (cases r) (simp_all add: obeys_return)
  from obeys_sum_bind [OF get_law this] show ?thesis
    by (simp add: adapter_get_def [abs_def] obeys_def split: prod.splits sum.splits reply.splits)
qed

lemma set_obeys: "obeys up ks (adapter_set C key v ttl) (adapter_set ks_client key v ttl)"
  using set_law [of key v ttl] by (simp add: adapter_set_def [abs_def] obeys_def)

lemma script_obeys: "obeys up ks (increment_script C key ttl) (increment_script ks_client key ttl)"
proof -
  have "obeys up ks
      (\<lambda>s. if n = 1 then (case rc_expire C key ttl s of (Inl e, s') \<Rightarrow> (Inl e, s') | (Inr _, s') \<Rightarrow> (Inr n, s'))
           else (Inr n, s))
      (\<lambda>s. if n = 1 then (case rc_expire ks_client key ttl s of (Inl e, s') \<Rightarrow> (Inl e, s') | (Inr _, s') \<Rightarrow> (Inr n, s'))
           else (Inr n, s))" for n
    using obeys_sum_bind [OF expire_law [of key ttl] obeys_return [of up ks "Inr n"]]
    by (cases "n = 1") (simp_all add: obeys_return)
  from obeys_sum_bind [OF incr_law this] show ?thesis
    by (simp add: increment_script_def [abs_def])
qed

lemma increment_obeys: "obeys up ks (adapter_increment C key ttl) (adapter_increment ks_client key ttl)"
  using eval_law [OF script_obeys [of key ttl]] by (simp add: adapter_increment_def [abs_def] obeys_def)

lemma delete_obeys: "obeys up ks (adapter_delete C key) (adapter_delete ks_client key)"
  using delete_law [of key] by (simp add: adapter_delete_def [abs_def])

lemma append_obeys: "obeys up ks (memory_append_bounded C key v m t) (memory_append_bounded ks_client key v m t)"
proof -
  have "obeys up ks
      (rc_transaction C [rc_rpush C key v, rc_ltrim C key (- m) (- 1), rc_expire C key t])
      (rc_transaction ks_client
        [rc_rpush ks_client key v, rc_ltrim ks_client key (- m) (- 1), rc_expire ks_client key t])"
    by (rule transaction_law) (simp only: list_all2_Cons list.rel_inject rpush_law ltrim_law expire_law list_all2_Nil)
  then show ?thesis by (simp add: memory_append_bounded_def [abs_def] obeys_def)
qed

lemma get_recent_obeys: "obeys up ks (memory_get_recent C key m) (memory_get_recent ks_client key m)"
  using lrange_law [of key "- m" "- 1"] by (simp add: memory_get_recent_def [abs_def] obeys_def)

end

subsection \<open>The contracts of the services\<close>

text \<open>What a key holds now: the value that has not expired.\<close>

definition entry :: "keyspace \<Rightarrow> pystr \<Rightarrow> rvalue option" where
  "entry k key = map_option fst (live k key)"

text \<open>
  A text store: reading gives what was last written at that key and nothing else, a write
  lasts for its time to live and not longer, and writing or deleting one key leaves every
  other key alone. \<open>holds s\<close> is what the keys hold, \<open>age d\<close> lets \<open>d\<close> seconds pass.
\<close>

locale text_store =
  fixes S :: "'s cache_store"
    and ok :: "'s \<Rightarrow> bool"
    and holds :: "'s \<Rightarrow> pystr \<Rightarrow> rvalue option"
    and age :: "real \<Rightarrow> 's \<Rightarrow> 's"
  assumes get_hit: "ok s \<Longrightarrow> scalar_str key \<Longrightarrow> holds s key = Some (VStr v)
      \<Longrightarrow> fst (cs_get S key s) = Inr (Some v)"
    and get_miss: "ok s \<Longrightarrow> scalar_str key \<Longrightarrow> holds s key = None \<Longrightarrow> fst (cs_get S key s) = Inr None"
    and get_same: "ok s \<Longrightarrow> ok t \<Longrightarrow> holds s key = holds t key
      \<Longrightarrow> fst (cs_get S key s) = fst (cs_get S key t)"
    and get_pure: "ok s \<Longrightarrow> ok (snd (cs_get S key s)) \<and> holds (snd (cs_get S key s)) = holds s"
    and set_done: "ok s \<Longrightarrow> scalar_str key \<Longrightarrow> scalar_str v \<Longrightarrow> 0 < ttl
      \<Longrightarrow> fst (cs_set S key v (Some ttl) s) = Inr True"
    and set_holds: "ok s \<Longrightarrow> scalar_str key \<Longrightarrow> scalar_str v \<Longrightarrow> 0 < ttl
      \<Longrightarrow> holds (snd (cs_set S key v (Some ttl) s)) = (holds s)(key \<mapsto> VStr v)"
    and set_ok: "ok s \<Longrightarrow> ok (snd (cs_set S key v ttl' s))"
    and set_lasts: "ok s \<Longrightarrow> scalar_str key \<Longrightarrow> scalar_str v \<Longrightarrow> 0 < ttl \<Longrightarrow> 0 \<le> d
      \<Longrightarrow> holds (age d (snd (cs_set S key v (Some ttl) s))) key
         = (if d < real_of_int ttl then Some (VStr v) else None)"
    and delete_done: "ok s \<Longrightarrow> scalar_str key
      \<Longrightarrow> fst (cs_delete S key s) = Inr (if holds s key = None then 0 else 1)"
    and delete_holds: "ok s \<Longrightarrow> scalar_str key
      \<Longrightarrow> holds (snd (cs_delete S key s)) = (holds s)(key := None)"
    and delete_ok: "ok s \<Longrightarrow> ok (snd (cs_delete S key s))"
    and age_ok: "ok s \<Longrightarrow> ok (age d s)"

text \<open>A lawful client in a world where time passes.\<close>

locale redis_world = redis_laws +
  fixes age :: "real \<Rightarrow> 'a \<Rightarrow> 'a"
  assumes age_law: "up s \<Longrightarrow> ks (age d s) = elapse d (ks s) \<and> up (age d s)"

lemma entry_store_at:
  "entry (store_at key x k) = (entry k)(key := (case x of None \<Rightarrow> None
     | Some (v, ex) \<Rightarrow> if expired (ks_clock k) ex then None else Some v))"
  by (rule ext) (auto simp: entry_def live_def store_at_def split: option.splits)

lemma entry_elapse_same:
  "ks_data k key = Some (v, Some t) \<Longrightarrow> entry (elapse d k) key = (if ks_clock k + d < t then Some v else None)"
  by (simp add: entry_def live_def elapse_def expired_def)

lemma entry_gets:
  "scalar_str key \<Longrightarrow> entry k key = Some (VStr v) \<Longrightarrow> adapter_get ks_client key k = (Inr (Some v), k)"
  "scalar_str key \<Longrightarrow> entry k key = None \<Longrightarrow> adapter_get ks_client key k = (Inr None, k)"
  by (auto simp: entry_def adapter_get_def encoded_def ks_get_def)

lemma adapter_get_pure: "snd (adapter_get ks_client key k) = k"
  by (auto simp: adapter_get_def encoded_def ks_get_def split: option.splits rvalue.splits)

lemma adapter_set_ks:
  "scalar_str key \<Longrightarrow> scalar_str v \<Longrightarrow> 0 < ttl \<Longrightarrow> adapter_set ks_client key v (Some ttl) k
    = (Inr True, store_at key (Some (VStr v, Some (ks_clock k + real_of_int ttl))) k)"
  by (simp add: adapter_set_def encoded_def ks_set_def)

lemma adapter_delete_ks:
  "scalar_str key \<Longrightarrow> adapter_delete ks_client key k
    = (if entry k key = None then (Inr 0, k) else (Inr 1, store_at key None k))"
  by (auto simp: adapter_delete_def encoded_def ks_delete_def entry_def split: option.splits)

sublocale redis_world \<subseteq> texts: text_store "redis_cache C" up "\<lambda>s. entry (ks s)" age
proof unfold_locales
  fix s key v d and ttl :: int and ttl' :: "int option"
  assume up: "up s"
  obtain g where g: "adapter_get C key s = (fst (adapter_get ks_client key (ks s)), g)"
    "ks g = snd (adapter_get ks_client key (ks s))" "up g"
    using get_obeys up by (rule obeysD)
  show "entry (ks s) key = Some (VStr v) \<Longrightarrow> scalar_str key
      \<Longrightarrow> fst (cs_get (redis_cache C) key s) = Inr (Some v)"
    by (simp add: g entry_gets)
  show "entry (ks s) key = None \<Longrightarrow> scalar_str key \<Longrightarrow> fst (cs_get (redis_cache C) key s) = Inr None"
    by (simp add: g entry_gets)
  show "up (snd (cs_get (redis_cache C) key s))
      \<and> entry (ks (snd (cs_get (redis_cache C) key s))) = entry (ks s)"
    using g by (simp add: adapter_get_pure)
  have get: "fst (adapter_get ks_client key k) = fst (adapter_get ks_client key k')"
    if "entry k key = entry k' key" for k k'
    using that by (auto simp: adapter_get_def encoded_def ks_get_def entry_def
        split: option.splits rvalue.splits)
  show "up t \<Longrightarrow> entry (ks s) key = entry (ks t) key
      \<Longrightarrow> fst (cs_get (redis_cache C) key s) = fst (cs_get (redis_cache C) key t)" for t
    using get_obeys [of key] up get [of "ks s" "ks t"] by (auto simp: obeys_def)
  show "up (snd (cs_set (redis_cache C) key v ttl' s))"
    using set_obeys [of key v ttl'] up by (simp add: obeys_def)
  obtain e where e: "adapter_delete C key s = (fst (adapter_delete ks_client key (ks s)), e)"
    "ks e = snd (adapter_delete ks_client key (ks s))" "up e"
    using delete_obeys up by (rule obeysD)
  show "up (snd (cs_delete (redis_cache C) key s))" using e by simp
  show "up (age d s)" using age_law up by blast
  assume key: "scalar_str key"
  show "fst (cs_delete (redis_cache C) key s) = Inr (if entry (ks s) key = None then 0 else 1)"
    using e key by (simp add: adapter_delete_ks)
  show "entry (ks (snd (cs_delete (redis_cache C) key s))) = (entry (ks s))(key := None)"
    using e key by (auto simp: adapter_delete_ks entry_store_at)
  assume v: "scalar_str v" and ttl: "0 < ttl"
  obtain t where t: "adapter_set C key v (Some ttl) s = (fst (adapter_set ks_client key v (Some ttl) (ks s)), t)"
    "ks t = snd (adapter_set ks_client key v (Some ttl) (ks s))" "up t"
    using set_obeys up by (rule obeysD)
  show "fst (cs_set (redis_cache C) key v (Some ttl) s) = Inr True"
    using t key v ttl by (simp add: adapter_set_ks)
  show "entry (ks (snd (cs_set (redis_cache C) key v (Some ttl) s))) = (entry (ks s))(key \<mapsto> VStr v)"
    using t key v ttl by (simp add: adapter_set_ks entry_store_at expired_def)
  assume "0 \<le> d"
  have "ks (age d t) = elapse d (ks t)" using age_law t(3) by blast
  moreover have "ks_data (ks t) key = Some (VStr v, Some (ks_clock (ks s) + real_of_int ttl))"
    "ks_clock (ks t) = ks_clock (ks s)"
    using t(2) key v ttl by (simp_all add: adapter_set_ks store_at_def)
  ultimately show "entry (ks (age d (snd (cs_set (redis_cache C) key v (Some ttl) s)))) key
      = (if d < real_of_int ttl then Some (VStr v) else None)"
    using t(1) by (simp add: entry_elapse_same)
qed

context redis_world
begin

lemma text_laws: "text_store (redis_cache C) up (\<lambda>s. entry (ks s)) age"
  by (rule texts.text_store_axioms)

end

interpretation kw: redis_world ks_client "\<lambda>_. True" "\<lambda>k. k" elapse
  by unfold_locales simp_all

interpretation kt: text_store "redis_cache ks_client" "\<lambda>_. True" entry elapse
  using kw.texts.text_store_axioms by simp

end
