(* ===== verification/Rate_Limiter.thy ===== *)
theory Rate_Limiter
  imports Keys Cache_Store Settings
begin

text \<open>
  The distributed rate limiter of \<open>nexus/cache/services/rate_limiter.py\<close>. \<open>check\<close> counts one
  request in the caller's minute bucket and in its hour bucket and decides from the two
  counts. It is composed of the two awaited increments and the pure decision, so that the
  interleaving of concurrent checks can be stated on the parts.
\<close>

subsection \<open>The limiter\<close>

record rate_limiter =
  rl_minute_limit :: int
  rl_hour_limit :: int

record rate_limit_result =
  allowed :: bool
  minute_count :: int
  hour_count :: int
  minute_limit :: int
  hour_limit :: int
  retry_after_seconds :: int

definition MINUTE_WINDOW_SECONDS :: int where
  "MINUTE_WINDOW_SECONDS = 60"

definition HOUR_WINDOW_SECONDS :: int where
  "HOUR_WINDOW_SECONDS = 3600"

lemmas windows [nexus_defs] = MINUTE_WINDOW_SECONDS_def HOUR_WINDOW_SECONDS_def

definition new_rate_limiter :: "settings \<Rightarrow> rate_limiter result" where
  "new_rate_limiter st =
     (let l = \<lparr>rl_minute_limit = rate_limit_per_minute st, rl_hour_limit = rate_limit_per_hour st\<rparr>
      in if rl_minute_limit l \<le> 0 then Inl (ValueError (u ''rate limit per minute must be positive''))
         else if rl_hour_limit l \<le> 0 then Inl (ValueError (u ''rate limit per hour must be positive''))
         else Inr l)"

text \<open>\<open>int(time())\<close> truncates towards zero.\<close>

definition int_time :: "real \<Rightarrow> int" where
  "int_time t = (if t \<ge> 0 then \<lfloor>t\<rfloor> else \<lceil>t\<rceil>)"

text \<open>The decision from the clock and the two counts.\<close>

definition decide :: "rate_limiter \<Rightarrow> int \<Rightarrow> int \<Rightarrow> int \<Rightarrow> rate_limit_result" where
  "decide l now mc hc =
     (let minute_exceeded = mc > rl_minute_limit l;
          hour_exceeded = hc > rl_hour_limit l;
          retry = (if minute_exceeded then MINUTE_WINDOW_SECONDS - now mod MINUTE_WINDOW_SECONDS else 0);
          retry' = (if hour_exceeded
                    then max retry (HOUR_WINDOW_SECONDS - now mod HOUR_WINDOW_SECONDS) else retry)
      in \<lparr>allowed = (\<not> minute_exceeded \<and> \<not> hour_exceeded), minute_count = mc, hour_count = hc,
          minute_limit = rl_minute_limit l, hour_limit = rl_hour_limit l,
          retry_after_seconds = retry'\<rparr>)"

definition count_minute :: "'s cache_store \<Rightarrow> pystr \<Rightarrow> int \<Rightarrow> 's \<Rightarrow> int result \<times> 's" where
  "count_minute S user_id now =
     cs_increment S (rate_limit_minute_key user_id (now div MINUTE_WINDOW_SECONDS)) MINUTE_WINDOW_SECONDS"

definition count_hour :: "'s cache_store \<Rightarrow> pystr \<Rightarrow> int \<Rightarrow> 's \<Rightarrow> int result \<times> 's" where
  "count_hour S user_id now =
     cs_increment S (rate_limit_hour_key user_id (now div HOUR_WINDOW_SECONDS)) HOUR_WINDOW_SECONDS"

definition check ::
  "'s cache_store \<Rightarrow> rate_limiter \<Rightarrow> pystr \<Rightarrow> real \<Rightarrow> 's \<Rightarrow> rate_limit_result result \<times> 's"
where
  "check S l user_id time s =
     (let now = int_time time
      in case count_minute S user_id now s of
           (Inl e, s') \<Rightarrow> (Inl e, s')
         | (Inr mc, s') \<Rightarrow>
             (case count_hour S user_id now s' of
                (Inl e, s'') \<Rightarrow> (Inl e, s'')
              | (Inr hc, s'') \<Rightarrow> (Inr (decide l now mc hc), s'')))"

lemma decide_sel [simp]:
  "allowed (decide l now mc hc) \<longleftrightarrow> mc \<le> rl_minute_limit l \<and> hc \<le> rl_hour_limit l"
  "minute_count (decide l now mc hc) = mc" "hour_count (decide l now mc hc) = hc"
  "minute_limit (decide l now mc hc) = rl_minute_limit l"
  "hour_limit (decide l now mc hc) = rl_hour_limit l"
  by (auto simp: decide_def Let_def)

lemma decide_retry_zero: "allowed (decide l now mc hc) \<Longrightarrow> retry_after_seconds (decide l now mc hc) = 0"
  by (auto simp: decide_def Let_def)

text \<open>The wait always ends exactly at the start of a bucket in which the caller's count is new:
  the next minute, or the next hour when that is exhausted too.\<close>

lemma next_bucket: "0 < (w::int) \<Longrightarrow> (now + (w - now mod w)) div w = now div w + 1
    \<and> (now + (w - now mod w)) mod w = 0 \<and> 0 < w - now mod w \<and> w - now mod w \<le> w"
proof -
  assume w: "0 < w"
  have "now + (w - now mod w) = w * (now div w + 1)"
    using mult_div_mod_eq [of w now] by (simp add: algebra_simps)
  with w show ?thesis by (simp add: pos_mod_bound)
qed

lemma minute_le_hour_retry: "(60::int) - now mod 60 \<le> 3600 - now mod 3600"
proof -
  have "now mod 3600 mod 60 = now mod 60" by (rule mod_mod_cancel) simp
  moreover have "now mod 3600 = 60 * (now mod 3600 div 60) + now mod 3600 mod 60" by simp
  moreover have "now mod 3600 div 60 \<le> 59"
    using zdiv_mono1 [of "now mod 3600" 3599 60] by simp
  ultimately show ?thesis by linarith
qed

lemma decide_retry:
  "retry_after_seconds (decide l now mc hc) =
     (if rl_hour_limit l < hc then 3600 - now mod 3600
      else if rl_minute_limit l < mc then 60 - now mod 60 else 0)"
  using minute_le_hour_retry [of now] by (auto simp: decide_def Let_def windows max_def)

lemma check_refused_wait:
  "check S l user_id time s = (Inr r, s') \<Longrightarrow> \<not> allowed r \<Longrightarrow> 0 < retry_after_seconds r"
  using pos_mod_bound [of 60 "int_time time"] pos_mod_bound [of 3600 "int_time time"]
  by (auto simp: check_def Let_def decide_retry split: prod.splits sum.splits)

end
