(* ===== verification/Rate_Window.thy ===== *)
theory Rate_Window
  imports Rate_Limiter
begin

text \<open>
  Concurrent checks. A world is the server's keyspace and the checks of all API workers, each
  somewhere between reading the clock and its two increments; \<open>rl_step\<close> lets any of them move,
  lets time pass, and lets other traffic do anything that leaves the rate-limit keys alone.
  A check that is slow between reading the clock and counting may find that the counter of its
  bucket has expired, and then starts it anew; so a counter has several lives, one per window
  length. The invariant says that within one life no two checks are told the same count.
\<close>

subsection \<open>Counters in a keyspace\<close>

text \<open>The counter at a key stands at \<open>n\<close> and is kept at least up to the time \<open>horizon\<close>.\<close>

definition counter_at :: "keyspace \<Rightarrow> pystr \<Rightarrow> int \<Rightarrow> real \<Rightarrow> bool" where
  "counter_at k key n horizon \<longleftrightarrow>
     (n = 0 \<and> ks_data k key = None)
     \<or> (1 \<le> n \<and> (\<exists>e. ks_data k key = Some (VStr (str_int n), Some e) \<and> horizon \<le> e))"

lemma counter_at_cong:
  "ks_data k' key = ks_data k key \<Longrightarrow> counter_at k' key n horizon \<longleftrightarrow> counter_at k key n horizon"
  by (simp add: counter_at_def)

lemma store_at_sel [simp]:
  "ks_clock (store_at key x k) = ks_clock k"
  "ks_data (store_at key x k) key' = (if key' = key then x else ks_data k key')"
  by (simp_all add: store_at_def)

lemma live_store_at [simp]:
  "live (store_at key x k) key' =
     (if key' = key then (case x of None \<Rightarrow> None
        | Some (v, ex) \<Rightarrow> if expired (ks_clock k) ex then None else Some (v, ex))
      else live k key')"
  by (simp add: live_def split: option.split)

text \<open>What one increment does to keyspaces: it touches no other key and not the clock.\<close>

lemma increment_frame:
  assumes "adapter_increment ks_client key ttl k = (r, k')"
  shows "ks_clock k' = ks_clock k" and "key' \<noteq> key \<Longrightarrow> ks_data k' key' = ks_data k key'"
  using assms
  by (auto simp: adapter_increment_def increment_script_def encoded_def ks_incr_def ks_expire_def
      split: if_splits option.splits rvalue.splits prod.splits sum.splits)

lemma increment_fresh:
  assumes "live k key = None" and "0 < ttl" and "scalar_str key"
  shows "adapter_increment ks_client key ttl k =
    (Inr 1, store_at key (Some (VStr (str_int 1), Some (ks_clock k + real_of_int ttl))) k)"
  using assms
  by (simp add: adapter_increment_def increment_script_def encoded_def ks_incr_def ks_expire_def
      expired_def) (simp add: store_at_def)

lemma increment_counted:
  assumes "live k key = Some (VStr (str_int n), ex)" and "1 \<le> n" and "0 < ttl" and "scalar_str key"
  shows "adapter_increment ks_client key ttl k =
    (if n < 2 ^ 63 - 1 then (Inr (n + 1), store_at key (Some (VStr (str_int (n + 1)), ex)) k)
     else (Inl not_an_integer, k))"
  using assms
  by (simp add: adapter_increment_def increment_script_def encoded_def ks_incr_def)

lemma increment_unencodable:
  assumes "\<not> scalar_str key" and "0 < ttl"
  shows "adapter_increment ks_client key ttl k = (Inl UnicodeEncodeError, k)"
  using assms by (simp add: adapter_increment_def increment_script_def encoded_def)

lemma counter_at_live:
  assumes "counter_at k key n horizon" and "ks_clock k < horizon"
  obtains "n = 0" "live k key = None"
    | e where "1 \<le> n" "live k key = Some (VStr (str_int n), Some e)" "horizon \<le> e"
proof -
  from assms(1) consider "n = 0" "ks_data k key = None"
    | e where "1 \<le> n" "ks_data k key = Some (VStr (str_int n), Some e)" "horizon \<le> e"
    unfolding counter_at_def by (elim disjE exE conjE) metis+
  then show ?thesis
  proof cases
    case 1
    then show ?thesis by (intro that(1)) (simp_all add: live_def)
  next
    case (2 e)
    with assms(2) show ?thesis by (intro that(2)) (simp_all add: live_def expired_def)
  qed
qed

text \<open>Within the window a counter at \<open>n\<close> answers \<open>n + 1\<close> and stands there, or the call fails
  without effect.\<close>

lemma increment_window:
  assumes step: "adapter_increment ks_client key ttl k = (r, k')"
    and n: "counter_at k key n horizon" and "0 < ttl"
    and now: "ks_clock k < horizon" and horizon: "horizon \<le> ks_clock k + real_of_int ttl"
  shows "(r = Inr (n + 1) \<and> counter_at k' key (n + 1) horizon) \<or> ((\<exists>e. r = Inl e) \<and> k' = k)"
proof (cases "scalar_str key")
  case False
  with increment_unencodable [OF False \<open>0 < ttl\<close>] step show ?thesis by auto
next
  case True
  from counter_at_live [OF n now] show ?thesis
  proof cases
    case 1
    with increment_fresh [OF 1(2) \<open>0 < ttl\<close> True] step horizon show ?thesis
      by (auto simp: counter_at_def)
  next
    case 2
    with increment_counted [OF 2(2,1) \<open>0 < ttl\<close> True] step show ?thesis
      by (auto simp: counter_at_def split: if_splits)
  qed
qed

lemma increment_advances:
  assumes n: "counter_at k key n horizon" "ks_clock k < horizon" "horizon \<le> ks_clock k + real_of_int ttl"
    and "n < 2 ^ 63 - 1" and "scalar_str key" and "0 < ttl"
  obtains k' where "adapter_increment ks_client key ttl k = (Inr (n + 1), k')"
    "counter_at k' key (n + 1) horizon"
proof (cases "adapter_increment ks_client key ttl k")
  case (Pair r k')
  have "\<exists>x. r = Inr x"
    using counter_at_live [OF n(1,2)]
  proof cases
    case 1
    with Pair increment_fresh [OF 1(2) assms(6,5)] show ?thesis by auto
  next
    case 2
    with Pair increment_counted [OF 2(2,1) assms(6,5)] assms(4) show ?thesis by auto
  qed
  with increment_window [OF Pair n(1) assms(6) n(2,3)] Pair show ?thesis using that by auto
qed

subsection \<open>Concurrent checks\<close>

datatype phase = Started | Half int | Finished rate_limit_result | Failed exn

text \<open>A check in flight: its caller and the time it read. The other fields are history: the wall
  clock when each increment ran, and in which life of the counter, numbered by the window in
  which that life ends.\<close>

record task =
  t_user :: pystr
  t_now :: int
  t_phase :: phase
  t_minute_at :: int
  t_minute_life :: int
  t_hour_at :: int
  t_hour_life :: int

record world =
  w_ks :: keyspace
  w_tasks :: "task list"

text \<open>All workers' clocks agree and differ from the server's by a constant.\<close>

definition wall_time :: "real \<Rightarrow> world \<Rightarrow> int" where
  "wall_time skew w = int_time (ks_clock (w_ks w) + skew)"

definition life :: "int \<Rightarrow> real \<Rightarrow> real \<Rightarrow> int" where
  "life W skew expiry = \<lfloor>(expiry + skew) / real_of_int W\<rfloor>"

definition life_of :: "int \<Rightarrow> real \<Rightarrow> keyspace \<Rightarrow> pystr \<Rightarrow> int" where
  "life_of W skew k key = (case ks_data k key of Some (_, Some e) \<Rightarrow> life W skew e | _ \<Rightarrow> 0)"

definition new_task :: "pystr \<Rightarrow> int \<Rightarrow> task" where
  "new_task user now = \<lparr>t_user = user, t_now = now, t_phase = Started, t_minute_at = 0,
     t_minute_life = 0, t_hour_at = 0, t_hour_life = 0\<rparr>"

definition after_minute :: "real \<Rightarrow> world \<Rightarrow> task \<Rightarrow> int result \<Rightarrow> keyspace \<Rightarrow> task" where
  "after_minute skew w t r k' =
     (case r of
        Inl e \<Rightarrow> t\<lparr>t_phase := Failed e\<rparr>
      | Inr mc \<Rightarrow> t\<lparr>t_phase := Half mc, t_minute_at := wall_time skew w,
          t_minute_life := life_of MINUTE_WINDOW_SECONDS skew k'
            (rate_limit_minute_key (t_user t) (t_now t div MINUTE_WINDOW_SECONDS))\<rparr>)"

definition after_hour :: "rate_limiter \<Rightarrow> real \<Rightarrow> world \<Rightarrow> int \<Rightarrow> task \<Rightarrow> int result \<Rightarrow> keyspace \<Rightarrow> task" where
  "after_hour l skew w mc t r k' =
     (case r of
        Inl e \<Rightarrow> t\<lparr>t_phase := Failed e\<rparr>
      | Inr hc \<Rightarrow> t\<lparr>t_phase := Finished (decide l (t_now t) mc hc), t_hour_at := wall_time skew w,
          t_hour_life := life_of HOUR_WINDOW_SECONDS skew k'
            (rate_limit_hour_key (t_user t) (t_now t div HOUR_WINDOW_SECONDS))\<rparr>)"

inductive rl_step :: "rate_limiter \<Rightarrow> real \<Rightarrow> world \<Rightarrow> world \<Rightarrow> bool" for l skew where
  Begin: "rl_step l skew w (w\<lparr>w_tasks := w_tasks w @ [new_task user (wall_time skew w)]\<rparr>)"
| Minute: "i < length (w_tasks w) \<Longrightarrow> t = w_tasks w ! i \<Longrightarrow> t_phase t = Started
    \<Longrightarrow> count_minute (redis_cache ks_client) (t_user t) (t_now t) (w_ks w) = (r, k')
    \<Longrightarrow> rl_step l skew w (w\<lparr>w_ks := k', w_tasks := (w_tasks w)[i := after_minute skew w t r k']\<rparr>)"
| Hour: "i < length (w_tasks w) \<Longrightarrow> t = w_tasks w ! i \<Longrightarrow> t_phase t = Half mc
    \<Longrightarrow> count_hour (redis_cache ks_client) (t_user t) (t_now t) (w_ks w) = (r, k')
    \<Longrightarrow> rl_step l skew w (w\<lparr>w_ks := k', w_tasks := (w_tasks w)[i := after_hour l skew w mc t r k']\<rparr>)"
| Others: "ks_clock k' = ks_clock (w_ks w)
    \<Longrightarrow> (\<And>user b. ks_data k' (rate_limit_minute_key user b) = ks_data (w_ks w) (rate_limit_minute_key user b))
    \<Longrightarrow> (\<And>user b. ks_data k' (rate_limit_hour_key user b) = ks_data (w_ks w) (rate_limit_hour_key user b))
    \<Longrightarrow> rl_step l skew w (w\<lparr>w_ks := k'\<rparr>)"
| Wait: "0 \<le> d \<Longrightarrow> rl_step l skew w (w\<lparr>w_ks := elapse d (w_ks w)\<rparr>)"

inductive rl_reach :: "rate_limiter \<Rightarrow> real \<Rightarrow> world \<Rightarrow> bool" for l skew where
  Init: "0 \<le> ks_clock k + skew
    \<Longrightarrow> (\<And>user b. ks_data k (rate_limit_minute_key user b) = None)
    \<Longrightarrow> (\<And>user b. ks_data k (rate_limit_hour_key user b) = None)
    \<Longrightarrow> rl_reach l skew \<lparr>w_ks = k, w_tasks = []\<rparr>"
| Step: "rl_reach l skew w \<Longrightarrow> rl_step l skew w w' \<Longrightarrow> rl_reach l skew w'"

text \<open>\<open>check\<close> is its two steps, one after the other.\<close>

lemma check_by_steps:
  assumes "time = ks_clock k + skew"
    and "count_minute (redis_cache ks_client) user (int_time time) k = (Inr mc, k')"
    and "count_hour (redis_cache ks_client) user (int_time time) k' = (Inr hc, k'')"
  shows "check (redis_cache ks_client) l user time k = (Inr (decide l (int_time time) mc hc), k'')"
  using assms by (simp add: check_def Let_def)

subsection \<open>The invariant of one kind of window\<close>

text \<open>The counted checks of a window as caller, bucket, life of the counter, and count.\<close>

type_synonym tag = "pystr \<times> int \<times> int \<times> int"

definition minute_tag :: "task \<Rightarrow> tag option" where
  "minute_tag t =
     (case t_phase t of
        Half mc \<Rightarrow> Some (t_user t, t_now t div MINUTE_WINDOW_SECONDS, t_minute_life t, mc)
      | Finished res \<Rightarrow> Some (t_user t, t_now t div MINUTE_WINDOW_SECONDS, t_minute_life t, minute_count res)
      | _ \<Rightarrow> None)"

definition hour_tag :: "task \<Rightarrow> tag option" where
  "hour_tag t =
     (case t_phase t of
        Finished res \<Rightarrow> Some (t_user t, t_now t div HOUR_WINDOW_SECONDS, t_hour_life t, hour_count res)
      | _ \<Rightarrow> None)"

text \<open>All tags of a key are of earlier lives than \<open>f\<close>, or of this life with counts up to \<open>n\<close>.\<close>

definition tags_below :: "(task \<Rightarrow> tag option) \<Rightarrow> task list \<Rightarrow> pystr \<Rightarrow> int \<Rightarrow> int \<Rightarrow> int \<Rightarrow> bool" where
  "tags_below tag ts user b f n \<longleftrightarrow>
     (\<forall>t \<in> set ts. \<forall>f' c. tag t = Some (user, b, f', c) \<longrightarrow> f' < f \<or> (f' = f \<and> c \<le> n))"

definition tags_distinct :: "(task \<Rightarrow> tag option) \<Rightarrow> task list \<Rightarrow> bool" where
  "tags_distinct tag ts \<longleftrightarrow>
     (\<forall>i < length ts. \<forall>j < length ts. i \<noteq> j \<longrightarrow> tag (ts ! i) \<noteq> None \<longrightarrow> tag (ts ! i) \<noteq> tag (ts ! j))"

text \<open>Counts are positive, and no life of a bucket's counter ends before the bucket does.\<close>

definition tags_sound :: "(task \<Rightarrow> tag option) \<Rightarrow> task list \<Rightarrow> bool" where
  "tags_sound tag ts \<longleftrightarrow> (\<forall>t \<in> set ts. \<forall>user b f c. tag t = Some (user, b, f, c) \<longrightarrow> 1 \<le> c \<and> b + 1 \<le> f)"

text \<open>The counter of a bucket against the checks it has counted.\<close>

definition key_inv ::
  "int \<Rightarrow> pystr \<Rightarrow> (task \<Rightarrow> tag option) \<Rightarrow> real \<Rightarrow> keyspace \<Rightarrow> task list \<Rightarrow> pystr \<Rightarrow> int \<Rightarrow> bool"
where
  "key_inv W key tag skew k ts user b \<longleftrightarrow>
     (ks_data k key = None \<and> (\<forall>t \<in> set ts. \<forall>f c. tag t \<noteq> Some (user, b, f, c)))
     \<or> (\<exists>n e. ks_data k key = Some (VStr (str_int n), Some e) \<and> 1 \<le> n
          \<and> real_of_int (W * (b + 1)) \<le> e + skew \<and> e \<le> ks_clock k + real_of_int W
          \<and> tags_below tag ts user b (life W skew e) n)"

definition window_inv ::
  "int \<Rightarrow> (pystr \<Rightarrow> int \<Rightarrow> pystr) \<Rightarrow> (task \<Rightarrow> tag option) \<Rightarrow> real \<Rightarrow> keyspace \<Rightarrow> task list \<Rightarrow> bool"
where
  "window_inv W key tag skew k ts \<longleftrightarrow>
     tags_distinct tag ts \<and> tags_sound tag ts \<and> (\<forall>user b. key_inv W (key user b) tag skew k ts user b)"

text \<open>Replacing a check by one with the same tag, or with none.\<close>

lemma key_inv_mono:
  assumes "key_inv W key tag skew k ts user b"
    and "\<And>t f c. t \<in> set ts' \<Longrightarrow> tag t = Some (user, b, f, c) \<Longrightarrow> \<exists>s \<in> set ts. tag s = Some (user, b, f, c)"
  shows "key_inv W key tag skew k ts' user b"
proof -
  from assms(1) have "tags_below tag ts' user b f n" if "tags_below tag ts user b f n" for f n
    using that assms(2) unfolding tags_below_def by metis
  moreover have "\<forall>t \<in> set ts'. \<forall>f c. tag t \<noteq> Some (user, b, f, c)"
    if "\<forall>t \<in> set ts. \<forall>f c. tag t \<noteq> Some (user, b, f, c)" using that assms(2) by metis
  ultimately show ?thesis using assms(1) unfolding key_inv_def by blast
qed

lemma window_inv_update:
  assumes inv: "window_inv W key tag skew k ts" and tag: "tag t' = None \<or> tag t' = tag (ts ! i)"
    and i: "i < length ts"
  shows "window_inv W key tag skew k (ts[i := t'])"
proof -
  have n: "tag (ts[i := t'] ! j) = None \<or> tag (ts[i := t'] ! j) = tag (ts ! j)" if "j < length ts" for j
    using tag that by (cases "j = i") auto
  have "tags_distinct tag (ts[i := t'])"
    unfolding tags_distinct_def length_list_update
  proof (intro allI impI)
    fix a b assume ab: "a < length ts" "b < length ts" "a \<noteq> b" "tag (ts[i := t'] ! a) \<noteq> None"
    with inv n [of a] n [of b] show "tag (ts[i := t'] ! a) \<noteq> tag (ts[i := t'] ! b)"
      unfolding window_inv_def tags_distinct_def by metis
  qed
  moreover have mem: "\<exists>t \<in> set ts. tag t = Some x" if "s \<in> set (ts[i := t'])" "tag s = Some x" for s x
  proof -
    from that obtain j where "j < length ts" "s = ts[i := t'] ! j" by (auto simp: in_set_conv_nth)
    with n [of j] that(2) show ?thesis by auto
  qed
  have "tags_sound tag (ts[i := t'])"
    using inv mem unfolding window_inv_def tags_sound_def by blast
  moreover have "key_inv W (key user b) tag skew k (ts[i := t']) user b" for user b
  proof (rule key_inv_mono)
    show "key_inv W (key user b) tag skew k ts user b" using inv by (simp add: window_inv_def)
  qed (rule mem)
  ultimately show ?thesis unfolding window_inv_def by blast
qed

lemma window_inv_snoc:
  assumes inv: "window_inv W key tag skew k ts" and tag: "tag t = None"
  shows "window_inv W key tag skew k (ts @ [t])"
proof -
  have "tags_distinct tag (ts @ [t])"
    using inv tag by (auto simp: window_inv_def tags_distinct_def nth_append less_Suc_eq)
  moreover have "tags_sound tag (ts @ [t])"
    using inv tag by (simp add: window_inv_def tags_sound_def)
  moreover have "key_inv W (key user b) tag skew k (ts @ [t]) user b" for user b
  proof (rule key_inv_mono)
    show "key_inv W (key user b) tag skew k ts user b" using inv by (simp add: window_inv_def)
    show "\<exists>s \<in> set ts. tag s = Some (user, b, f, c)"
      if "s \<in> set (ts @ [t])" "tag s = Some (user, b, f, c)" for s f c
      using that tag by auto
  qed
  ultimately show ?thesis unfolding window_inv_def by blast
qed

text \<open>Steps that leave the counters alone, and time.\<close>

lemma window_inv_frame:
  assumes inv: "window_inv W key tag skew k ts" and "ks_clock k \<le> ks_clock k'"
    and "\<And>user b. ks_data k' (key user b) = ks_data k (key user b)"
  shows "window_inv W key tag skew k' ts"
proof -
  have "key_inv W (key user b) tag skew k' ts user b" for user b
  proof -
    have late: "e \<le> ks_clock k' + real_of_int W" if "e \<le> ks_clock k + real_of_int W" for e
      using that assms(2) by linarith
    from inv have "key_inv W (key user b) tag skew k ts user b" by (simp add: window_inv_def)
    then show ?thesis unfolding key_inv_def assms(3) using late by blast
  qed
  with inv show ?thesis unfolding window_inv_def by blast
qed

end
