(* ===== verification/Rate_Safety.thy ===== *)
theory Rate_Safety
  imports Rate_Window
begin

text \<open>
  The invariant of \<open>Rate_Window\<close> is preserved by every step of concurrent checks, and what
  says how long the lives of a counter are.
\<close>

subsection \<open>Time\<close>

lemma int_time_floor: "0 \<le> t \<Longrightarrow> int_time t = \<lfloor>t\<rfloor>"
  by (simp add: int_time_def)

lemma bucket_start:
  assumes "now \<le> int_time t" and "0 \<le> t" and "0 < W"
  shows "real_of_int (W * (now div W)) \<le> t"
proof -
  have "W * (now div W) \<le> now" using mult_div_mod_eq [of W now] pos_mod_sign [OF assms(3), of now] by linarith
  with assms(1,2) have "W * (now div W) \<le> \<lfloor>t\<rfloor>" by (simp add: int_time_floor)
  then show ?thesis by linarith
qed

lemma elapse_sel [simp]: "ks_clock (elapse d k) = ks_clock k + d" "ks_data (elapse d k) = ks_data k"
  by (simp_all add: elapse_def)

subsection \<open>Lives of a counter\<close>

text \<open>A counter started anew when the old one had expired is in a later life.\<close>

lemma life_next:
  assumes "0 < W" and "e \<le> clock"
  shows "life W skew e < life W skew (clock + real_of_int W)"
proof -
  have "(clock + real_of_int W + skew) / real_of_int W = (clock + skew) / real_of_int W + 1"
    using assms(1) by (simp add: field_simps)
  moreover have "(e + skew) / real_of_int W \<le> (clock + skew) / real_of_int W"
    using assms by (simp add: divide_right_mono)
  ultimately show ?thesis unfolding life_def by linarith
qed

lemma life_ge:
  assumes "0 < W" and "real_of_int (W * b) \<le> e + skew"
  shows "b \<le> life W skew e"
  using assms by (simp add: life_def le_floor_iff pos_le_divide_eq mult.commute)

text \<open>A life ends at most a window after the clock.\<close>

lemma life_le:
  assumes "0 < W" and "e \<le> clock + real_of_int W" and "0 \<le> clock + skew"
  shows "life W skew e \<le> int_time (clock + skew) div W + 1"
proof -
  have "(e + skew) / real_of_int W \<le> (clock + skew + real_of_int W) / real_of_int W"
    using assms(1,2) by (intro divide_right_mono) simp_all
  then have "(e + skew) / real_of_int W \<le> (clock + skew) / real_of_int W + 1"
    using assms(1) by (simp add: add_divide_distrib)
  then have "life W skew e \<le> \<lfloor>(clock + skew) / real_of_int W\<rfloor> + 1" unfolding life_def by linarith
  with assms show ?thesis by (simp add: int_time_floor floor_divide_real_eq_div)
qed

subsection \<open>One increment\<close>

lemma key_inv_cases:
  assumes "key_inv W key tag skew k ts user b"
  obtains "ks_data k key = None" "live k key = None" "\<And>f n. tags_below tag ts user b f n"
    | n e where "1 \<le> n" "ks_data k key = Some (VStr (str_int n), Some e)"
        "real_of_int (W * (b + 1)) \<le> e + skew" "e \<le> ks_clock k + real_of_int W"
        "tags_below tag ts user b (life W skew e) n"
        "live k key = (if e \<le> ks_clock k then None else Some (VStr (str_int n), Some e))"
  using assms unfolding key_inv_def
proof (elim disjE exE conjE)
  assume "ks_data k key = None" "\<forall>t \<in> set ts. \<forall>f c. tag t \<noteq> Some (user, b, f, c)"
  then show ?thesis by (intro that(1)) (auto simp: live_def tags_below_def)
next
  fix n e
  assume "ks_data k key = Some (VStr (str_int n), Some e)" "1 \<le> n" "real_of_int (W * (b + 1)) \<le> e + skew"
    "e \<le> ks_clock k + real_of_int W" "tags_below tag ts user b (life W skew e) n"
  then show ?thesis by (intro that(2)) (auto simp: live_def expired_def)
qed

lemma increment_failed:
  assumes "adapter_increment ks_client key W k = (Inl e, k')" and "key_inv W key tag skew k ts user b" and "0 < W"
  shows "k' = k"
proof (cases "scalar_str key")
  case False
  with increment_unencodable [OF False assms(3)] assms(1) show ?thesis by simp
next
  case True
  from assms(2) show ?thesis
  proof (cases rule: key_inv_cases)
    case 1
    from increment_fresh [OF 1(2) assms(3) True] assms(1) show ?thesis by simp
  next
    case (2 n x)
    show ?thesis
    proof (cases "x \<le> ks_clock k")
      case True
      with 2(6) have "live k key = None" by simp
      from increment_fresh [OF this assms(3) \<open>scalar_str key\<close>] assms(1) show ?thesis by simp
    next
      case False
      with 2(6) have "live k key = Some (VStr (str_int n), Some x)" by simp
      from increment_counted [OF this 2(1) assms(3) \<open>scalar_str key\<close>] assms(1) show ?thesis
        by (simp split: if_splits)
    qed
  qed
qed

text \<open>A count that is answered is new in its life of the counter.\<close>

lemma increment_new_count:
  assumes step: "adapter_increment ks_client key W k = (Inr c, k')"
    and inv: "key_inv W key tag skew k ts user b" and W: "0 < W"
    and start: "real_of_int (W * b) \<le> ks_clock k + skew"
  obtains e where "ks_data k' key = Some (VStr (str_int c), Some e)" "1 \<le> c"
    "real_of_int (W * (b + 1)) \<le> e + skew" "e \<le> ks_clock k + real_of_int W"
    "tags_below tag ts user b (life W skew e) (c - 1)"
proof -
  note found = that
  have enc: "scalar_str key" using step increment_unencodable [OF _ W] by force
  let ?e = "ks_clock k + real_of_int W"
  have fresh: thesis if "live k key = None" "tags_below tag ts user b (life W skew ?e) 0"
  proof (rule found)
    from increment_fresh [OF \<open>live k key = None\<close> W enc] step
    show "ks_data k' key = Some (VStr (str_int c), Some ?e)" "1 \<le> c"
      "tags_below tag ts user b (life W skew ?e) (c - 1)" using \<open>tags_below _ _ _ _ _ _\<close> by auto
    show "real_of_int (W * (b + 1)) \<le> ?e + skew" using start by (simp add: algebra_simps)
  qed simp
  from inv show ?thesis
  proof (cases rule: key_inv_cases)
    case 1
    then show ?thesis by (intro fresh)
  next
    case (2 n e)
    show ?thesis
    proof (cases "e \<le> ks_clock k")
      case True
      have "tags_below tag ts user b (life W skew ?e) 0"
        using 2(5) life_next [OF W True, of skew] unfolding tags_below_def by (metis order.strict_trans)
      with 2(6) True show ?thesis by (intro fresh) auto
    next
      case False
      with 2(6) have "live k key = Some (VStr (str_int n), Some e)" by simp
      from increment_counted [OF this 2(1) W enc] step
      have "c = n + 1" "ks_data k' key = Some (VStr (str_int c), Some e)" by (auto split: if_splits)
      with 2 show ?thesis by (intro found [of e]) auto
    qed
  qed
qed

text \<open>A new tag keeps the tags distinct when nobody else has it.\<close>

lemma tags_distinct_update:
  assumes "tags_distinct tag ts" and "\<And>j. j < length ts \<Longrightarrow> tag (ts ! j) \<noteq> tag t'"
  shows "tags_distinct tag (ts[i := t'])"
  unfolding tags_distinct_def length_list_update
proof (intro allI impI)
  fix a d assume ad: "a < length ts" "d < length ts" "a \<noteq> d" "tag (ts[i := t'] ! a) \<noteq> None"
  from assms(1) have "tag (ts ! a) \<noteq> None \<Longrightarrow> tag (ts ! a) \<noteq> tag (ts ! d)"
    using ad unfolding tags_distinct_def by blast
  then show "tag (ts[i := t'] ! a) \<noteq> tag (ts[i := t'] ! d)"
    using ad assms(2) [OF ad(1)] assms(2) [OF ad(2)] by (cases "a = i"; cases "d = i") auto
qed

lemma window_inv_counted:
  assumes inv: "window_inv W key tag skew k ts"
    and inj: "\<And>v a w b. key v a = key w b \<longleftrightarrow> v = w \<and> a = b"
    and step: "adapter_increment ks_client (key user b) W k = (Inr c, k')"
    and t': "tag t' = Some (user, b, life_of W skew k' (key user b), c)"
    and start: "real_of_int (W * b) \<le> ks_clock k + skew" and W: "0 < W"
  shows "window_inv W key tag skew k' (ts[i := t'])"
proof -
  have "key_inv W (key user b) tag skew k ts user b" using inv by (simp add: window_inv_def)
  from increment_new_count [OF step this W start] obtain e where
    e: "ks_data k' (key user b) = Some (VStr (str_int c), Some e)" "1 \<le> c"
      "real_of_int (W * (b + 1)) \<le> e + skew" "e \<le> ks_clock k + real_of_int W"
      "tags_below tag ts user b (life W skew e) (c - 1)" .
  note frame = increment_frame [OF step]
  have tag': "tag t' = Some (user, b, life W skew e, c)" using t' e(1) by (simp add: life_of_def)
  have sub: "set (ts[i := t']) \<subseteq> insert t' (set ts)" by (rule set_update_subset_insert)
  have "tags_distinct tag (ts[i := t'])"
  proof (rule tags_distinct_update)
    show "tags_distinct tag ts" using inv by (simp add: window_inv_def)
    show "tag (ts ! j) \<noteq> tag t'" if "j < length ts" for j
      using e(5) nth_mem [OF that] tag' unfolding tags_below_def by fastforce
  qed
  moreover have "tags_sound tag (ts[i := t'])"
    using inv tag' e(2) life_ge [OF W e(3)] sub unfolding window_inv_def tags_sound_def by fastforce
  moreover have "key_inv W (key v a) tag skew k' (ts[i := t']) v a" for v a
  proof (cases "v = user \<and> a = b")
    case True
    have "tags_below tag (ts[i := t']) user b (life W skew e) c"
      using e(5) tag' sub unfolding tags_below_def by fastforce
    with True e show ?thesis unfolding key_inv_def frame(1) by blast
  next
    case False
    have "key_inv W (key v a) tag skew k (ts[i := t']) v a"
    proof (rule key_inv_mono)
      show "key_inv W (key v a) tag skew k ts v a" using inv by (simp add: window_inv_def)
      show "\<exists>s \<in> set ts. tag s = Some (v, a, f, n)" if "t \<in> set (ts[i := t'])" "tag t = Some (v, a, f, n)" for t f n
        using that sub tag' False by auto
    qed
    moreover have "ks_data k' (key v a) = ks_data k (key v a)" using frame(2) False by (simp add: inj)
    ultimately show ?thesis unfolding key_inv_def frame(1) by simp
  qed
  ultimately show ?thesis unfolding window_inv_def by blast
qed

lemma window_inv_count:
  assumes inv: "window_inv W key tag skew k ts"
    and inj: "\<And>v a w b. key v a = key w b \<longleftrightarrow> v = w \<and> a = b"
    and i: "i < length ts"
    and step: "adapter_increment ks_client (key user b) W k = (r, k')"
    and tag': "tag t' = (case r of Inl e \<Rightarrow> None | Inr c \<Rightarrow> Some (user, b, life_of W skew k' (key user b), c))"
    and start: "real_of_int (W * b) \<le> ks_clock k + skew" and W: "0 < W"
  shows "window_inv W key tag skew k' (ts[i := t'])"
proof (cases r)
  case (Inl e)
  have "key_inv W (key user b) tag skew k ts user b" using inv by (simp add: window_inv_def)
  from increment_failed [OF step [unfolded Inl] this W] window_inv_update [OF inv _ i] tag' Inl
  show ?thesis by simp
next
  case (Inr c)
  from window_inv_counted [where key = key and tag = tag, OF inv inj step [unfolded Inr] _ start W] tag' Inr
  show ?thesis by simp
qed

text \<open>The life in which a count was taken ends at most a window later.\<close>

lemma life_of_le:
  assumes inv: "window_inv W key tag skew k ts"
    and step: "adapter_increment ks_client (key user b) W k = (Inr c, k')"
    and start: "real_of_int (W * b) \<le> ks_clock k + skew" and W: "0 < W" and pos: "0 \<le> ks_clock k + skew"
  shows "life_of W skew k' (key user b) \<le> int_time (ks_clock k + skew) div W + 1"
proof -
  have "key_inv W (key user b) tag skew k ts user b" using inv by (simp add: window_inv_def)
  from increment_new_count [OF step this W start] obtain e where
    "ks_data k' (key user b) = Some (VStr (str_int c), Some e)" "e \<le> ks_clock k + real_of_int W" by blast
  with life_le [OF W this(2) pos] show ?thesis by (simp add: life_of_def)
qed

subsection \<open>Every reachable world\<close>

definition timely :: "task \<Rightarrow> bool" where
  "timely t \<longleftrightarrow>
     (minute_tag t \<noteq> None \<longrightarrow> t_minute_life t \<le> t_minute_at t div MINUTE_WINDOW_SECONDS + 1)
     \<and> (hour_tag t \<noteq> None \<longrightarrow> t_hour_life t \<le> t_hour_at t div HOUR_WINDOW_SECONDS + 1)"

definition world_inv :: "rate_limiter \<Rightarrow> real \<Rightarrow> world \<Rightarrow> bool" where
  "world_inv l skew w \<longleftrightarrow>
     0 \<le> ks_clock (w_ks w) + skew
     \<and> (\<forall>t \<in> set (w_tasks w). t_now t \<le> wall_time skew w)
     \<and> (\<forall>t \<in> set (w_tasks w). timely t)
     \<and> (\<forall>t \<in> set (w_tasks w). \<forall>res. t_phase t = Finished res
          \<longrightarrow> (\<exists>mc hc. res = decide l (t_now t) mc hc))
     \<and> window_inv MINUTE_WINDOW_SECONDS rate_limit_minute_key minute_tag skew (w_ks w) (w_tasks w)
     \<and> window_inv HOUR_WINDOW_SECONDS rate_limit_hour_key hour_tag skew (w_ks w) (w_tasks w)"

lemma set_update_cases: "t \<in> set (xs[i := x]) \<Longrightarrow> t = x \<or> t \<in> set xs"
  using set_update_subset_insert [of xs i x] by blast

lemma window_inv_empty:
  assumes "\<And>user b. ks_data k (key user b) = None"
  shows "window_inv W key tag skew k []"
  using assms unfolding window_inv_def tags_distinct_def tags_sound_def key_inv_def by simp

lemma world_inv_init:
  assumes "0 \<le> ks_clock k + skew"
    and "\<And>user b. ks_data k (rate_limit_minute_key user b) = None"
    and "\<And>user b. ks_data k (rate_limit_hour_key user b) = None"
  shows "world_inv l skew \<lparr>w_ks = k, w_tasks = []\<rparr>"
  using assms by (simp add: world_inv_def window_inv_empty)

lemma world_inv_begin:
  assumes inv: "world_inv l skew w"
  shows "world_inv l skew (w\<lparr>w_tasks := w_tasks w @ [new_task user (wall_time skew w)]\<rparr>)"
proof -
  let ?t = "new_task user (wall_time skew w)"
  have "minute_tag ?t = None" "hour_tag ?t = None"
    by (simp_all add: new_task_def minute_tag_def hour_tag_def)
  note tags = this
  then have timely: "timely ?t" by (simp add: timely_def)
  have "wall_time skew (w\<lparr>w_tasks := w_tasks w @ [?t]\<rparr>) = wall_time skew w"
    by (simp add: wall_time_def)
  moreover have "t_now ?t = wall_time skew w" "t_phase ?t = Started" by (simp_all add: new_task_def)
  ultimately show ?thesis using inv tags timely by (simp add: world_inv_def window_inv_snoc)
qed

lemma world_inv_wait:
  assumes inv: "world_inv l skew w" and d: "0 \<le> d"
  shows "world_inv l skew (w\<lparr>w_ks := elapse d (w_ks w)\<rparr>)"
proof -
  let ?w = "w\<lparr>w_ks := elapse d (w_ks w)\<rparr>"
  from inv have pos: "0 \<le> ks_clock (w_ks w) + skew" by (simp add: world_inv_def)
  have "wall_time skew w \<le> wall_time skew ?w"
    using pos d by (simp add: wall_time_def int_time_floor floor_mono)
  moreover have "0 \<le> ks_clock (w_ks ?w) + skew" using pos d by simp
  moreover have
    "window_inv MINUTE_WINDOW_SECONDS rate_limit_minute_key minute_tag skew (w_ks ?w) (w_tasks w)"
    "window_inv HOUR_WINDOW_SECONDS rate_limit_hour_key hour_tag skew (w_ks ?w) (w_tasks w)"
    using inv d by (auto simp: world_inv_def elim: window_inv_frame)
  ultimately show ?thesis using inv by (auto simp: world_inv_def intro: order_trans)
qed

lemma world_inv_others:
  assumes inv: "world_inv l skew w" and clock: "ks_clock k' = ks_clock (w_ks w)"
    and "\<And>user b. ks_data k' (rate_limit_minute_key user b) = ks_data (w_ks w) (rate_limit_minute_key user b)"
    and "\<And>user b. ks_data k' (rate_limit_hour_key user b) = ks_data (w_ks w) (rate_limit_hour_key user b)"
  shows "world_inv l skew (w\<lparr>w_ks := k'\<rparr>)"
proof -
  note frame = window_inv_frame [where key = rate_limit_minute_key and k = "w_ks w" and k' = k', OF _ _ assms(3)]
    window_inv_frame [where key = rate_limit_hour_key and k = "w_ks w" and k' = k', OF _ _ assms(4)]
  have "wall_time skew (w\<lparr>w_ks := k'\<rparr>) = wall_time skew w" by (simp add: wall_time_def clock)
  with inv show ?thesis by (simp add: world_inv_def frame clock)
qed

text \<open>One check moves: what remains to be shown about the replaced check.\<close>

lemma world_inv_move:
  assumes inv: "world_inv l skew w" and clock: "ks_clock k' = ks_clock (w_ks w)"
    and i: "i < length (w_tasks w)" and now: "t_now t' = t_now (w_tasks w ! i)"
    and "timely t'"
    and "\<And>res. t_phase t' = Finished res \<Longrightarrow> \<exists>mc hc. res = decide l (t_now t') mc hc"
    and "window_inv MINUTE_WINDOW_SECONDS rate_limit_minute_key minute_tag skew k' ((w_tasks w)[i := t'])"
    and "window_inv HOUR_WINDOW_SECONDS rate_limit_hour_key hour_tag skew k' ((w_tasks w)[i := t'])"
  shows "world_inv l skew (w\<lparr>w_ks := k', w_tasks := (w_tasks w)[i := t']\<rparr>)"
proof -
  let ?w = "w\<lparr>w_ks := k', w_tasks := (w_tasks w)[i := t']\<rparr>"
  have wall: "wall_time skew ?w = wall_time skew w" by (simp add: wall_time_def clock)
  have mem: "w_tasks w ! i \<in> set (w_tasks w)" using i by simp
  have new: "P s" if "s \<in> set ((w_tasks w)[i := t'])" "P t'" "\<And>s. s \<in> set (w_tasks w) \<Longrightarrow> P s" for P s
    using set_update_cases [OF that(1)] that(2,3) by blast
  have "t_now s \<le> wall_time skew w" if "s \<in> set ((w_tasks w)[i := t'])" for s
    using that by (rule new) (use inv mem now in \<open>auto simp: world_inv_def\<close>)
  moreover have "timely s" if "s \<in> set ((w_tasks w)[i := t'])" for s
    using that by (rule new) (use inv assms(5) in \<open>auto simp: world_inv_def\<close>)
  moreover have "\<forall>res. t_phase s = Finished res \<longrightarrow> (\<exists>mc hc. res = decide l (t_now s) mc hc)"
    if "s \<in> set ((w_tasks w)[i := t'])" for s
    using that by (rule new) (use inv assms(6) in \<open>auto simp: world_inv_def\<close>)
  ultimately show ?thesis using inv assms(7,8) by (simp add: world_inv_def wall clock)
qed

lemma world_inv_minute:
  assumes inv: "world_inv l skew w" and i: "i < length (w_tasks w)" and t: "t = w_tasks w ! i"
    and ph: "t_phase t = Started"
    and step: "count_minute (redis_cache ks_client) (t_user t) (t_now t) (w_ks w) = (r, k')"
  shows "world_inv l skew (w\<lparr>w_ks := k', w_tasks := (w_tasks w)[i := after_minute skew w t r k']\<rparr>)"
proof -
  let ?t = "after_minute skew w t r k'"
  from step have adapter: "adapter_increment ks_client
      (rate_limit_minute_key (t_user t) (t_now t div MINUTE_WINDOW_SECONDS)) MINUTE_WINDOW_SECONDS (w_ks w) = (r, k')"
    by (simp add: count_minute_def)
  note frame = increment_frame [OF adapter]
  have past: "t_now t \<le> int_time (ks_clock (w_ks w) + skew)" and pos: "0 \<le> ks_clock (w_ks w) + skew"
    and m: "window_inv MINUTE_WINDOW_SECONDS rate_limit_minute_key minute_tag skew (w_ks w) (w_tasks w)"
    and h: "window_inv HOUR_WINDOW_SECONDS rate_limit_hour_key hour_tag skew (w_ks w) (w_tasks w)"
    and "timely t"
    using inv i t by (auto simp: world_inv_def wall_time_def)
  have W: "0 < MINUTE_WINDOW_SECONDS" by (simp add: windows)
  note start = bucket_start [OF past pos W]
  show ?thesis
  proof (rule world_inv_move [OF inv frame(1) i])
    show "window_inv MINUTE_WINDOW_SECONDS rate_limit_minute_key minute_tag skew k' ((w_tasks w)[i := ?t])"
      by (rule window_inv_count [OF m rate_limit_minute_key_inj i adapter _ start W])
        (simp add: after_minute_def minute_tag_def split: sum.split)
    have "hour_tag ?t = None" by (simp add: hour_tag_def after_minute_def split: sum.split)
    then have "window_inv HOUR_WINDOW_SECONDS rate_limit_hour_key hour_tag skew (w_ks w) ((w_tasks w)[i := ?t])"
      using window_inv_update [OF h _ i] by blast
    then show "window_inv HOUR_WINDOW_SECONDS rate_limit_hour_key hour_tag skew k' ((w_tasks w)[i := ?t])"
      by (rule window_inv_frame) (simp_all add: frame)
    show "timely ?t"
    proof (cases r)
      case (Inr c)
      from life_of_le [OF m adapter [unfolded Inr] start W pos] Inr show ?thesis
        by (simp add: timely_def after_minute_def hour_tag_def wall_time_def)
    qed (simp add: timely_def after_minute_def minute_tag_def hour_tag_def)
  qed (simp_all add: t after_minute_def split: sum.splits)
qed

lemma world_inv_hour:
  assumes inv: "world_inv l skew w" and i: "i < length (w_tasks w)" and t: "t = w_tasks w ! i"
    and ph: "t_phase t = Half mc"
    and step: "count_hour (redis_cache ks_client) (t_user t) (t_now t) (w_ks w) = (r, k')"
  shows "world_inv l skew (w\<lparr>w_ks := k', w_tasks := (w_tasks w)[i := after_hour l skew w mc t r k']\<rparr>)"
proof -
  let ?t = "after_hour l skew w mc t r k'"
  from step have adapter: "adapter_increment ks_client
      (rate_limit_hour_key (t_user t) (t_now t div HOUR_WINDOW_SECONDS)) HOUR_WINDOW_SECONDS (w_ks w) = (r, k')"
    by (simp add: count_hour_def)
  note frame = increment_frame [OF adapter]
  have past: "t_now t \<le> int_time (ks_clock (w_ks w) + skew)" and pos: "0 \<le> ks_clock (w_ks w) + skew"
    and m: "window_inv MINUTE_WINDOW_SECONDS rate_limit_minute_key minute_tag skew (w_ks w) (w_tasks w)"
    and h: "window_inv HOUR_WINDOW_SECONDS rate_limit_hour_key hour_tag skew (w_ks w) (w_tasks w)"
    and timely: "timely t"
    using inv i t by (auto simp: world_inv_def wall_time_def)
  have W: "0 < HOUR_WINDOW_SECONDS" by (simp add: windows)
  note start = bucket_start [OF past pos W]
  have tag: "minute_tag ?t = None \<or> minute_tag ?t = minute_tag t"
    using ph by (simp add: minute_tag_def after_hour_def split: sum.split)
  show ?thesis
  proof (rule world_inv_move [OF inv frame(1) i])
    show "window_inv HOUR_WINDOW_SECONDS rate_limit_hour_key hour_tag skew k' ((w_tasks w)[i := ?t])"
      by (rule window_inv_count [OF h rate_limit_hour_key_inj i adapter _ start W])
        (simp add: after_hour_def hour_tag_def split: sum.split)
    have "window_inv MINUTE_WINDOW_SECONDS rate_limit_minute_key minute_tag skew (w_ks w) ((w_tasks w)[i := ?t])"
      using window_inv_update [OF m _ i] tag t by blast
    then show "window_inv MINUTE_WINDOW_SECONDS rate_limit_minute_key minute_tag skew k' ((w_tasks w)[i := ?t])"
      by (rule window_inv_frame) (simp_all add: frame)
    show "timely ?t"
    proof (cases r)
      case (Inr c)
      from life_of_le [OF h adapter [unfolded Inr] start W pos] Inr timely ph tag show ?thesis
        by (simp add: timely_def after_hour_def wall_time_def minute_tag_def)
    qed (simp add: timely_def after_hour_def minute_tag_def hour_tag_def)
  qed (auto simp: t after_hour_def split: sum.splits)
qed

end
