(* ===== verification/Rate_Properties.thy ===== *)
theory Rate_Properties
  imports Rate_Safety
begin

text \<open>
  The properties of the rate limiter: the limit holds for every interleaving of concurrent
  checks, one check answers exactly from the two counters and touches nothing else, and the
  advertised waiting time leads exactly to the next admissible bucket.
\<close>

lemma rl_reach_inv: "rl_reach l skew w \<Longrightarrow> world_inv l skew w"
proof (induction rule: rl_reach.induct)
  case (Init k)
  then show ?case by (rule world_inv_init)
next
  case (Step w w')
  from Step.hyps(2) Step.IH show ?case
    by cases (auto intro: world_inv_begin world_inv_minute world_inv_hour world_inv_others world_inv_wait)
qed

text \<open>The admitted checks of a caller that read a time in bucket \<open>b\<close> and were counted before \<open>d\<close>
  more windows had passed: for \<open>d = 0\<close>, while the bucket was the current one.\<close>

definition admitted_in_minute :: "world \<Rightarrow> pystr \<Rightarrow> int \<Rightarrow> nat \<Rightarrow> nat set" where
  "admitted_in_minute w user b d = {i. i < length (w_tasks w) \<and> t_user (w_tasks w ! i) = user
     \<and> t_now (w_tasks w ! i) div 60 = b \<and> t_minute_at (w_tasks w ! i) div 60 \<le> b + int d
     \<and> (\<exists>res. t_phase (w_tasks w ! i) = Finished res \<and> allowed res)}"

definition admitted_in_hour :: "world \<Rightarrow> pystr \<Rightarrow> int \<Rightarrow> nat \<Rightarrow> nat set" where
  "admitted_in_hour w user b d = {i. i < length (w_tasks w) \<and> t_user (w_tasks w ! i) = user
     \<and> t_now (w_tasks w ! i) div 3600 = b \<and> t_hour_at (w_tasks w ! i) div 3600 \<le> b + int d
     \<and> (\<exists>res. t_phase (w_tasks w ! i) = Finished res \<and> allowed res)}"

lemma finite_admitted [simp]: "finite (admitted_in_minute w user b d)" "finite (admitted_in_hour w user b d)"
  by (simp_all add: admitted_in_minute_def admitted_in_hour_def)

text \<open>Every admitted check is among them for some \<open>d\<close>.\<close>

lemma admitted_in_some:
  assumes "i < length (w_tasks w)" and "t_phase (w_tasks w ! i) = Finished res" and "allowed res"
  shows "\<exists>d. i \<in> admitted_in_minute w (t_user (w_tasks w ! i)) (t_now (w_tasks w ! i) div 60) d"
    and "\<exists>d. i \<in> admitted_in_hour w (t_user (w_tasks w ! i)) (t_now (w_tasks w ! i) div 3600) d"
proof -
  let ?t = "w_tasks w ! i"
  have "i \<in> admitted_in_minute w (t_user ?t) (t_now ?t div 60) (nat (t_minute_at ?t div 60 - t_now ?t div 60))"
    "i \<in> admitted_in_hour w (t_user ?t) (t_now ?t div 3600) (nat (t_hour_at ?t div 3600 - t_now ?t div 3600))"
    using assms by (auto simp: admitted_in_minute_def admitted_in_hour_def)
  then show "\<exists>d. i \<in> admitted_in_minute w (t_user ?t) (t_now ?t div 60) d"
    "\<exists>d. i \<in> admitted_in_hour w (t_user ?t) (t_now ?t div 3600) d" by blast+
qed

text \<open>Distinct positive counts up to a limit, in so many lives.\<close>

lemma card_by_tags:
  assumes distinct: "tags_distinct tag ts" and sound: "tags_sound tag ts"
    and A: "\<And>i. i \<in> A \<Longrightarrow> i < length ts \<and> (\<exists>f c. tag (ts ! i) = Some (user, b, f, c) \<and> f \<le> b + int d + 1 \<and> c \<le> m)"
  shows "int (card A) \<le> (int d + 1) * max 0 m"
proof -
  define g where "g i = snd (snd (the (tag (ts ! i))))" for i
  have g: "tag (ts ! i) = Some (user, b, g i)" "g i \<in> {b + 1..b + int d + 1} \<times> {1..m}" if "i \<in> A" for i
  proof -
    from A [OF that] obtain f c where c: "i < length ts" "tag (ts ! i) = Some (user, b, f, c)"
      "f \<le> b + int d + 1" "c \<le> m" by blast
    moreover from this sound have "1 \<le> c \<and> b + 1 \<le> f" unfolding tags_sound_def by (metis nth_mem)
    ultimately show "tag (ts ! i) = Some (user, b, g i)" "g i \<in> {b + 1..b + int d + 1} \<times> {1..m}"
      by (simp_all add: g_def)
  qed
  have "inj_on g A"
  proof (rule inj_onI)
    fix i j assume ij: "i \<in> A" "j \<in> A" "g i = g j"
    then have "tag (ts ! i) = tag (ts ! j)" "tag (ts ! i) \<noteq> None" using g(1) by simp_all
    with distinct A ij(1,2) show "i = j" unfolding tags_distinct_def by blast
  qed
  moreover have "g ` A \<subseteq> {b + 1..b + int d + 1} \<times> {1..m}" using g(2) by blast
  ultimately have "card A \<le> card ({b + 1..b + int d + 1} \<times> {1..m})" by (rule card_inj_on_le) simp
  also have "\<dots> = (d + 1) * nat m" by (simp add: card_cartesian_product nat_add_distrib)
  finally have "int (card A) \<le> int ((d + 1) * nat m)" by (rule of_nat_mono)
  then show ?thesis by (simp add: max_def distrib_right split: if_splits)
qed

lemma admitted_bounds:
  assumes inv: "world_inv l skew w"
  shows "int (card (admitted_in_minute w user b d)) \<le> (int d + 1) * max 0 (rl_minute_limit l)"
    and "int (card (admitted_in_hour w user b d)) \<le> (int d + 1) * max 0 (rl_hour_limit l)"
proof -
  have dec: "\<exists>mc hc. res = decide l (t_now (w_tasks w ! i)) mc hc"
    if "i < length (w_tasks w)" "t_phase (w_tasks w ! i) = Finished res" for i res
    using inv that nth_mem [OF that(1)] unfolding world_inv_def by blast
  have timely: "timely (w_tasks w ! i)" if "i < length (w_tasks w)" for i
    using inv nth_mem [OF that] unfolding world_inv_def by blast
  have tags: "tags_distinct minute_tag (w_tasks w)" "tags_sound minute_tag (w_tasks w)"
    "tags_distinct hour_tag (w_tasks w)" "tags_sound hour_tag (w_tasks w)"
    using inv unfolding world_inv_def window_inv_def by blast+
  show "int (card (admitted_in_minute w user b d)) \<le> (int d + 1) * max 0 (rl_minute_limit l)"
  proof (rule card_by_tags [OF tags(1,2), of _ user b])
    fix i assume i: "i \<in> admitted_in_minute w user b d"
    with timely [of i] show "i < length (w_tasks w) \<and> (\<exists>f c. minute_tag (w_tasks w ! i) = Some (user, b, f, c)
        \<and> f \<le> b + int d + 1 \<and> c \<le> rl_minute_limit l)"
      by (auto simp: admitted_in_minute_def minute_tag_def timely_def windows dest!: dec)
  qed
  show "int (card (admitted_in_hour w user b d)) \<le> (int d + 1) * max 0 (rl_hour_limit l)"
  proof (rule card_by_tags [OF tags(3,4), of _ user b])
    fix i assume i: "i \<in> admitted_in_hour w user b d"
    with timely [of i] show "i < length (w_tasks w) \<and> (\<exists>f c. hour_tag (w_tasks w ! i) = Some (user, b, f, c)
        \<and> f \<le> b + int d + 1 \<and> c \<le> rl_hour_limit l)"
      by (auto simp: admitted_in_hour_def hour_tag_def timely_def windows dest!: dec)
  qed
qed

subsection \<open>A check on a lawful client\<close>

context redis_laws
begin

lemma check_obeys:
  "obeys up ks (check (redis_cache C) l user time) (check (redis_cache ks_client) l user time)"
proof -
  have "obeys up ks
     (\<lambda>s. case count_hour (redis_cache C) user (int_time time) s of (Inl e, s') \<Rightarrow> (Inl e, s')
        | (Inr hc, s') \<Rightarrow> (Inr (decide l (int_time time) mc hc), s'))
     (\<lambda>s. case count_hour (redis_cache ks_client) user (int_time time) s of (Inl e, s') \<Rightarrow> (Inl e, s')
        | (Inr hc, s') \<Rightarrow> (Inr (decide l (int_time time) mc hc), s'))" for mc
    by (rule obeys_sum_bind) (simp_all add: count_hour_def increment_obeys obeys_return)
  moreover have "obeys up ks (count_minute (redis_cache C) user (int_time time))
     (count_minute (redis_cache ks_client) user (int_time time))"
    by (simp add: count_minute_def increment_obeys)
  ultimately show ?thesis unfolding check_def [abs_def] Let_def by (rule obeys_sum_bind [rotated])
qed

end

lemma check_on_keyspace:
  assumes mc: "counter_at k (rate_limit_minute_key user (int_time time div 60)) n h"
    "ks_clock k < h" "h \<le> ks_clock k + 60" "n < 2 ^ 63 - 1"
    and hc: "counter_at k (rate_limit_hour_key user (int_time time div 3600)) m h'"
    "ks_clock k < h'" "h' \<le> ks_clock k + 3600" "m < 2 ^ 63 - 1"
    and user: "scalar_str user"
  obtains k' where "check (redis_cache ks_client) l user time k
      = (Inr (decide l (int_time time) (n + 1) (m + 1)), k')"
    "counter_at k' (rate_limit_minute_key user (int_time time div 60)) (n + 1) h"
    "counter_at k' (rate_limit_hour_key user (int_time time div 3600)) (m + 1) h'"
    "ks_clock k' = ks_clock k"
    "\<And>key. key \<noteq> rate_limit_minute_key user (int_time time div 60)
      \<Longrightarrow> key \<noteq> rate_limit_hour_key user (int_time time div 3600) \<Longrightarrow> ks_data k' key = ks_data k key"
proof -
  let ?mk = "rate_limit_minute_key user (int_time time div 60)"
  let ?hk = "rate_limit_hour_key user (int_time time div 3600)"
  have enc: "scalar_str ?mk" "scalar_str ?hk"
    using user by (auto simp: key_defs key_prefix_def KEY_NAMESPACE_def KEY_VERSION_def scalar_str_def
        list_all_iff u_def is_scalar_def dest!: str_int_range)
  obtain k1 where k1: "adapter_increment ks_client ?mk 60 k = (Inr (n + 1), k1)"
    "counter_at k1 ?mk (n + 1) h"
    by (rule increment_advances [of k ?mk n h 60]) (use mc enc in simp_all)
  note f1 = increment_frame [OF k1(1)]
  have "counter_at k1 ?hk m h'" using hc(1) f1(2) [of ?hk] by (simp only: counter_at_def) simp
  then obtain k2 where k2: "adapter_increment ks_client ?hk 3600 k1 = (Inr (m + 1), k2)"
    "counter_at k2 ?hk (m + 1) h'"
    by (rule increment_advances [of k1 ?hk m h' 3600]) (use hc enc f1(1) in simp_all)
  note f2 = increment_frame [OF k2(1)]
  have "counter_at k2 ?mk (n + 1) h" using k1(2) f2(2) [of ?mk] by (simp only: counter_at_def) simp
  moreover have "check (redis_cache ks_client) l user time k
      = (Inr (decide l (int_time time) (n + 1) (m + 1)), k2)"
    using k1(1) k2(1) by (simp add: check_def count_minute_def count_hour_def windows Let_def)
  ultimately show ?thesis using that k2(2) f1 f2 by simp
qed

subsection \<open>Properties\<close>

definition empty_ks :: "real \<Rightarrow> keyspace" where
  "empty_ks t = \<lparr>ks_clock = t, ks_data = (\<lambda>_. None)\<rparr>"

definition tight_limiter :: rate_limiter where
  "tight_limiter = \<lparr>rl_minute_limit = 1, rl_hour_limit = 2\<rparr>"

text \<open>A run: one check of a caller at time 0, admitted; a second reads the clock at 59 and counts at
  60, when the first counter has just expired, so it is admitted too.\<close>

lemma run_begin:
  "rl_reach l skew \<lparr>w_ks = k, w_tasks = ts\<rparr> \<Longrightarrow> now = int_time (ks_clock k + skew)
    \<Longrightarrow> rl_reach l skew \<lparr>w_ks = k, w_tasks = ts @ [new_task user now]\<rparr>"
  using rl_reach.Step [OF _ rl_step.Begin] by (fastforce simp: wall_time_def)

lemma run_minute:
  assumes "rl_reach l skew \<lparr>w_ks = k, w_tasks = ts @ [t]\<rparr>" and "t_phase t = Started"
    and "count_minute (redis_cache ks_client) (t_user t) (t_now t) k = (r, k')"
    and "t' = after_minute skew \<lparr>w_ks = k, w_tasks = ts @ [t]\<rparr> t r k'"
  shows "rl_reach l skew \<lparr>w_ks = k', w_tasks = ts @ [t']\<rparr>"
  using rl_reach.Step [OF assms(1) rl_step.Minute [OF _ refl, of "length ts"]] assms(2-4) by simp

lemma run_hour:
  assumes "rl_reach l skew \<lparr>w_ks = k, w_tasks = ts @ [t]\<rparr>" and "t_phase t = Half mc"
    and "count_hour (redis_cache ks_client) (t_user t) (t_now t) k = (r, k')"
    and "t' = after_hour l skew \<lparr>w_ks = k, w_tasks = ts @ [t]\<rparr> mc t r k'"
  shows "rl_reach l skew \<lparr>w_ks = k', w_tasks = ts @ [t']\<rparr>"
  using rl_reach.Step [OF assms(1) rl_step.Hour [OF _ refl, of "length ts"]] assms(2-4) by simp

lemma run_wait:
  "rl_reach l skew \<lparr>w_ks = k, w_tasks = ts\<rparr> \<Longrightarrow> 0 \<le> d \<Longrightarrow> rl_reach l skew \<lparr>w_ks = elapse d k, w_tasks = ts\<rparr>"
  using rl_reach.Step [OF _ rl_step.Wait] by fastforce

definition demo_counters :: "int \<Rightarrow> real \<Rightarrow> int \<Rightarrow> keyspace \<Rightarrow> keyspace" where
  "demo_counters m e h k = store_at (rate_limit_hour_key (u ''a'') 0) (Some (VStr (str_int h), Some 3600))
     (store_at (rate_limit_minute_key (u ''a'') 0) (Some (VStr (str_int m), Some e)) k)"

definition demo_check :: "int \<Rightarrow> int \<Rightarrow> int \<Rightarrow> int \<Rightarrow> int \<Rightarrow> task" where
  "demo_check now wall liv mc hc = \<lparr>t_user = u ''a'', t_now = now, t_phase = Finished (decide tight_limiter now mc hc),
     t_minute_at = wall, t_minute_life = liv, t_hour_at = wall, t_hour_life = 1\<rparr>"

lemma demo_keys: "scalar_str (rate_limit_minute_key (u ''a'') b)" "scalar_str (rate_limit_hour_key (u ''a'') b)"
  by (auto simp: key_defs key_prefix_def KEY_NAMESPACE_def KEY_VERSION_def scalar_str_def
      list_all_iff u_def is_scalar_def dest!: str_int_range)

lemma demo_first:
  "rl_reach tight_limiter 0 \<lparr>w_ks = demo_counters 1 60 1 (empty_ks 0), w_tasks = [demo_check 0 0 1 1 1]\<rparr>"
proof -
  let ?k1 = "store_at (rate_limit_minute_key (u ''a'') 0) (Some (VStr (str_int 1), Some 60)) (empty_ks 0)"
  have free: "live (empty_ks 0) key = None" "live ?k1 (rate_limit_hour_key (u ''a'') 0) = None" for key
    by (simp_all add: live_def empty_ks_def)
  have "rl_reach tight_limiter 0 \<lparr>w_ks = empty_ks 0, w_tasks = []\<rparr>"
    by (rule rl_reach.Init) (simp_all add: empty_ks_def)
  from run_begin [OF this, of 0 "u ''a''"]
  have "rl_reach tight_limiter 0 \<lparr>w_ks = empty_ks 0, w_tasks = [] @ [new_task (u ''a'') 0]\<rparr>"
    by (simp add: int_time_def empty_ks_def)
  from run_minute [OF this, of "Inr 1" ?k1, OF _ _ refl] increment_fresh [OF free(1) _ demo_keys(1), of 60]
  have "rl_reach tight_limiter 0 \<lparr>w_ks = ?k1, w_tasks = [] @ [(new_task (u ''a'') 0)
      \<lparr>t_phase := Half 1, t_minute_at := 0, t_minute_life := 1\<rparr>]\<rparr>"
    by (simp add: new_task_def count_minute_def windows empty_ks_def after_minute_def wall_time_def
        int_time_def life_of_def life_def)
  from run_hour [OF this, of 1 "Inr 1" "demo_counters 1 60 1 (empty_ks 0)", OF _ _ refl]
    increment_fresh [OF free(2) _ demo_keys(2), of 3600]
  show ?thesis
    by (simp add: new_task_def count_hour_def windows empty_ks_def after_hour_def wall_time_def
        int_time_def life_of_def life_def demo_counters_def demo_check_def)
qed

lemma demo_late:
  "rl_reach tight_limiter 0 \<lparr>w_ks = demo_counters 1 120 2 (empty_ks 60),
     w_tasks = [demo_check 0 0 1 1 1, demo_check 59 60 2 1 2]\<rparr>"
proof -
  let ?mk = "rate_limit_minute_key (u ''a'') 0" and ?hk = "rate_limit_hour_key (u ''a'') 0"
  let ?k = "demo_counters 1 60 1 (empty_ks 60)"
  let ?k1 = "store_at ?mk (Some (VStr (str_int 1), Some 120)) ?k"
  have elapse: "elapse d (demo_counters m e h (empty_ks x)) = demo_counters m e h (empty_ks (x + d))" for d m e h x
    by (simp add: elapse_def demo_counters_def store_at_def empty_ks_def)
  have live: "live ?k ?mk = None" "live ?k1 ?hk = Some (VStr (str_int 1), Some 3600)"
    by (simp_all add: live_def expired_def demo_counters_def empty_ks_def)
  have k2: "store_at ?hk (Some (VStr (str_int 2), Some 3600)) ?k1 = demo_counters 1 120 2 (empty_ks 60)"
    by (auto simp: demo_counters_def store_at_def empty_ks_def)
  from run_wait [OF demo_first, of 59] have "rl_reach tight_limiter 0
      \<lparr>w_ks = demo_counters 1 60 1 (empty_ks 59), w_tasks = [demo_check 0 0 1 1 1]\<rparr>" by (simp add: elapse)
  from run_begin [OF this, of 59 "u ''a''"] have "rl_reach tight_limiter 0
      \<lparr>w_ks = demo_counters 1 60 1 (empty_ks 59), w_tasks = [demo_check 0 0 1 1 1] @ [new_task (u ''a'') 59]\<rparr>"
    by (simp add: int_time_def empty_ks_def demo_counters_def)
  from run_wait [OF this, of 1] have "rl_reach tight_limiter 0
      \<lparr>w_ks = ?k, w_tasks = [demo_check 0 0 1 1 1] @ [new_task (u ''a'') 59]\<rparr>" by (simp add: elapse)
  from run_minute [OF this, of "Inr 1" ?k1, OF _ _ refl] increment_fresh [OF live(1) _ demo_keys(1), of 60]
  have "rl_reach tight_limiter 0 \<lparr>w_ks = ?k1, w_tasks = [demo_check 0 0 1 1 1] @ [(new_task (u ''a'') 59)
      \<lparr>t_phase := Half 1, t_minute_at := 60, t_minute_life := 2\<rparr>]\<rparr>"
    by (simp add: new_task_def count_minute_def windows after_minute_def wall_time_def
        int_time_def life_of_def life_def) (simp add: demo_counters_def empty_ks_def)
  from run_hour [OF this, of 1 "Inr 2" "demo_counters 1 120 2 (empty_ks 60)", OF _ _ refl]
    increment_counted [OF live(2) _ _ demo_keys(2), of 3600]
  show ?thesis
    by (simp add: new_task_def count_hour_def windows after_hour_def wall_time_def k2
        int_time_def) (simp add: life_of_def life_def demo_counters_def demo_check_def empty_ks_def)
qed

lemma demo_admitted:
  "admitted_in_minute \<lparr>w_ks = k, w_tasks = [demo_check 0 0 1 1 1]\<rparr> (u ''a'') 0 0 = {0}"
  "admitted_in_minute \<lparr>w_ks = k, w_tasks = [demo_check 0 0 1 1 1, demo_check 59 60 2 1 2]\<rparr> (u ''a'') 0 1 = {0, 1}"
  by (auto simp: admitted_in_minute_def demo_check_def tight_limiter_def less_Suc_eq)

text \<open>
  C3: The limit holds for every interleaving of concurrent checks of any number of workers between
  reading the clock and their two increments, whatever other traffic does to other keys and
  however much time passes (workers' clocks may differ from the server's by a constant). Of the
  checks of one caller that read a time in one minute (hour) and are counted while it lasts, at
  most the minute (hour) limit are admitted. A check may also be counted late, when its bucket's
  counter may have expired and start anew: of the checks counted at most \<open>d\<close> windows late, at
  most \<open>d + 1\<close> times the limit are admitted, and every admitted check is of some \<open>d\<close>.
\<close>

theorem rate_limit_never_exceeded:
  assumes "rl_reach l skew w"
  shows "int (card (admitted_in_minute w user b 0)) \<le> max 0 (rl_minute_limit l)
    \<and> int (card (admitted_in_hour w user b 0)) \<le> max 0 (rl_hour_limit l)
    \<and> int (card (admitted_in_minute w user b d)) \<le> (int d + 1) * max 0 (rl_minute_limit l)
    \<and> int (card (admitted_in_hour w user b d)) \<le> (int d + 1) * max 0 (rl_hour_limit l)
    \<and> (\<forall>i < length (w_tasks w). \<forall>res. t_phase (w_tasks w ! i) = Finished res \<and> allowed res
         \<longrightarrow> (\<exists>d. i \<in> admitted_in_minute w (t_user (w_tasks w ! i)) (t_now (w_tasks w ! i) div 60) d)
           \<and> (\<exists>d. i \<in> admitted_in_hour w (t_user (w_tasks w ! i)) (t_now (w_tasks w ! i) div 3600) d))"
  using admitted_bounds [OF rl_reach_inv [OF assms], of user b 0] admitted_bounds [OF rl_reach_inv [OF assms], of user b d]
    admitted_in_some by simp

lemma rate_limit_never_exceeded_witness:
  "\<exists>w. rl_reach tight_limiter 0 w \<and> admitted_in_minute w (u ''a'') 0 1 = {0, 1}
    \<and> int (card (admitted_in_minute w (u ''a'') 0 0)) \<le> rl_minute_limit tight_limiter
    \<and> int (card (admitted_in_minute w (u ''a'') 0 1)) \<le> 2 * rl_minute_limit tight_limiter"
  using rate_limit_never_exceeded [OF demo_late, of "u ''a''" 0 1] demo_admitted(2)
  by (intro exI conjI) (rule demo_late, auto simp: tight_limiter_def)

text \<open>The bound is reached: with a limit of one, two checks of one minute are admitted.\<close>

lemma late_check_exceeds_limit:
  "\<exists>w. rl_reach tight_limiter 0 w \<and> rl_minute_limit tight_limiter = 1
    \<and> card {i. i < length (w_tasks w) \<and> t_user (w_tasks w ! i) = u ''a'' \<and> t_now (w_tasks w ! i) div 60 = 0
        \<and> (\<exists>res. t_phase (w_tasks w ! i) = Finished res \<and> allowed res)} = 2"
proof -
  let ?ts = "[demo_check 0 0 1 1 1, demo_check 59 60 2 1 2]"
  have "{i. i < length ?ts \<and> t_user (?ts ! i) = u ''a'' \<and> t_now (?ts ! i) div 60 = 0
      \<and> (\<exists>res. t_phase (?ts ! i) = Finished res \<and> allowed res)} = {0, 1}"
    by (auto simp: demo_check_def tight_limiter_def less_Suc_eq)
  with demo_late show ?thesis by (intro exI conjI) (assumption, simp_all add: tight_limiter_def)
qed

text \<open>
  C19: One check counts once in each window and answers exactly from the counters. On a client
  that follows the Redis laws, if the caller's minute counter stands at \<open>n\<close> and the hour counter
  at \<open>m\<close> and both live to the end of their window, \<open>check\<close> reports \<open>n + 1\<close> and \<open>m + 1\<close>, allows the
  request iff neither exceeds its limit, asks for no waiting when it allows, leaves the two
  counters one higher with their expiry, and changes no other key.
\<close>

theorem check_counts_exactly:
  assumes laws: "redis_laws C up ks" and up: "up s" and user: "scalar_str user"
    and mc: "counter_at (ks s) (rate_limit_minute_key user (int_time time div 60)) n h"
      "ks_clock (ks s) < h" "h \<le> ks_clock (ks s) + 60" "n < 2 ^ 63 - 1"
    and hc: "counter_at (ks s) (rate_limit_hour_key user (int_time time div 3600)) m h'"
      "ks_clock (ks s) < h'" "h' \<le> ks_clock (ks s) + 3600" "m < 2 ^ 63 - 1"
  shows "\<exists>res s'. check (redis_cache C) l user time s = (Inr res, s') \<and> up s'
    \<and> (allowed res \<longleftrightarrow> n < rl_minute_limit l \<and> m < rl_hour_limit l)
    \<and> minute_count res = n + 1 \<and> hour_count res = m + 1
    \<and> (allowed res \<longleftrightarrow> retry_after_seconds res = 0)
    \<and> counter_at (ks s') (rate_limit_minute_key user (int_time time div 60)) (n + 1) h
    \<and> counter_at (ks s') (rate_limit_hour_key user (int_time time div 3600)) (m + 1) h'
    \<and> (\<forall>key. key \<noteq> rate_limit_minute_key user (int_time time div 60)
         \<and> key \<noteq> rate_limit_hour_key user (int_time time div 3600)
         \<longrightarrow> ks_data (ks s') key = ks_data (ks s) key)"
proof -
  let ?res = "decide l (int_time time) (n + 1) (m + 1)"
  obtain k' where k': "check (redis_cache ks_client) l user time (ks s) = (Inr ?res, k')"
    "counter_at k' (rate_limit_minute_key user (int_time time div 60)) (n + 1) h"
    "counter_at k' (rate_limit_hour_key user (int_time time div 3600)) (m + 1) h'"
    "\<And>key. key \<noteq> rate_limit_minute_key user (int_time time div 60)
      \<Longrightarrow> key \<noteq> rate_limit_hour_key user (int_time time div 3600) \<Longrightarrow> ks_data k' key = ks_data (ks s) key"
    by (rule check_on_keyspace [OF mc hc user, of l]) blast
  from redis_laws.check_obeys [OF laws, of l user time] up obtain s' where
    "check (redis_cache C) l user time s = (Inr ?res, s')" "ks s' = k'" "up s'"
    by (rule obeysD) (simp add: k')
  moreover have "allowed ?res \<longleftrightarrow> retry_after_seconds ?res = 0"
    using pos_mod_bound [of 60 "int_time time"] pos_mod_bound [of 3600 "int_time time"]
    by (auto simp: decide_retry)
  moreover have "allowed ?res \<longleftrightarrow> n < rl_minute_limit l \<and> m < rl_hour_limit l" by auto
  ultimately show ?thesis using k'(2-4)
    by (intro exI [of _ ?res] exI [of _ s']) (simp only: decide_sel, blast)
qed

lemma check_counts_exactly_witness:
  "\<exists>res s'. check (redis_cache ks_client) tight_limiter (u ''a'') 30 (empty_ks 30) = (Inr res, s')
    \<and> allowed res"
proof -
  have "counter_at (empty_ks 30) key 0 h" for key h by (simp add: counter_at_def empty_ks_def)
  moreover have "scalar_str (u ''a'')" by (simp add: u_def scalar_str_def is_scalar_def)
  ultimately show ?thesis
    using check_counts_exactly [OF ks.redis_laws_axioms, where s = "empty_ks 30" and user = "u ''a''"
        and time = 30 and n = 0 and h = 60 and m = 0 and h' = 3600 and l = tight_limiter]
    by (auto simp: empty_ks_def tight_limiter_def)
qed

text \<open>
  C30: The advertised wait is exact. When a check is refused, \<open>retry_after_seconds\<close> is positive
  and at most the length of the exceeded window; after waiting that long the clock is in the
  next bucket of every exceeded window, and after any shorter wait some exceeded window is
  still the same one.
\<close>

theorem retry_after_is_exact:
  fixes l mc hc now
  defines "res \<equiv> decide l now mc hc"
  assumes "\<not> allowed res"
  shows "0 < retry_after_seconds res \<and> retry_after_seconds res \<le> 3600
    \<and> (hc \<le> rl_hour_limit l \<longrightarrow> retry_after_seconds res \<le> 60)
    \<and> (rl_minute_limit l < mc \<longrightarrow> now div 60 < (now + retry_after_seconds res) div 60)
    \<and> (rl_hour_limit l < hc \<longrightarrow> (now + retry_after_seconds res) div 3600 = now div 3600 + 1)
    \<and> (\<forall>d. 0 \<le> d \<and> d < retry_after_seconds res \<longrightarrow>
         (rl_minute_limit l < mc \<and> (now + d) div 60 = now div 60)
         \<or> (rl_hour_limit l < hc \<and> (now + d) div 3600 = now div 3600))"
proof -
  have stay: "(now + d) div w = now div w" if "0 \<le> d" "d < w - now mod w" "0 < w" for d w :: int
  proof -
    have "now + d = w * (now div w) + (now mod w + d)" by simp
    moreover have "0 \<le> now mod w + d" "now mod w + d < w" using that by (simp_all add: pos_mod_sign)
    ultimately show ?thesis by (metis div_mult_self4 div_pos_pos_trivial add.commute add.right_neutral that(3) less_irrefl)
  qed
  note m = next_bucket [of 60 now] and h = next_bucket [of 3600 now]
  show ?thesis
  proof (cases "rl_hour_limit l < hc")
    case True
    then have r: "retry_after_seconds res = 3600 - now mod 3600" by (simp add: res_def decide_retry)
    have "(now + (60 - now mod 60)) div 60 \<le> (now + (3600 - now mod 3600)) div 60"
      using minute_le_hour_retry [of now] by (intro zdiv_mono1) simp_all
    with m h r True stay [of _ 3600] show ?thesis by auto
  next
    case False
    with assms have "rl_minute_limit l < mc" by (simp add: res_def not_le)
    moreover from this False have r: "retry_after_seconds res = 60 - now mod 60"
      by (simp add: res_def decide_retry)
    ultimately show ?thesis using m False stay [of _ 60] by auto
  qed
qed

lemma retry_after_is_exact_witness:
  "(125 + retry_after_seconds (decide tight_limiter 125 2 1)) div 60 = (3::int)"
proof -
  have "\<not> allowed (decide tight_limiter 125 2 1)" by (simp add: tight_limiter_def)
  from retry_after_is_exact [OF this] show ?thesis by (simp add: decide_retry tight_limiter_def)
qed

end
