(* ===== verification/Json.thy ===== *)
theory Json
  imports Sha256
begin

text \<open>
  What the program uses of Python's \<open>json\<close> module. \<open>dumps\<close> is used on flat dictionaries of
  strings with the separators \<open>(",", ":")\<close>; \<open>loads\<close> on whatever a Redis value holds, so it is
  modelled in full: \<open>None\<close>, booleans, integers, floats, \<open>NaN\<close> and the infinities, strings
  with every escape, arrays and objects, white space, and the errors. \<open>loads\<close> recurses with a
  fuel of one more than twice the length of the text, which is proved to be enough; the interpreter's
  recursion limit on nesting depth is not modelled.
\<close>

subsection \<open>Values\<close>

text \<open>A float is the exact value of its decimal literal; a non-finite one its spelling. An object
  keeps its pairs in the order of the text.\<close>

datatype json =
    JNull
  | JBool bool
  | JInt int
  | JFloat real
  | JNonFinite pystr
  | JStr pystr
  | JArr "json list"
  | JObj "(pystr \<times> json) list"

text \<open>A later pair of an object replaces an earlier one with the same name.\<close>

definition obj_lookup :: "(pystr \<times> json) list \<Rightarrow> pystr \<Rightarrow> json option" where
  "obj_lookup kvs k = map_of (rev kvs) k"

text \<open>\<open>data.get(k)\<close>: only a dictionary has the method.\<close>

fun json_get :: "json \<Rightarrow> pystr \<Rightarrow> json option result" where
  "json_get (JObj kvs) k = Inr (obj_lookup kvs k)"
| "json_get _ k = Inl AttributeError"

fun is_jstr :: "json option \<Rightarrow> pystr option" where
  "is_jstr (Some (JStr s)) = Some s"
| "is_jstr _ = None"

subsection \<open>\<open>json.dumps\<close> of a dictionary of strings\<close>

definition hex4 :: "nat \<Rightarrow> pystr" where
  "hex4 n = [92, 117] @ hex_of 4 n"

text \<open>\<open>py_encode_basestring_ascii\<close>: the two-character escapes, printable ASCII as it is, and
  everything else as one or two \<open>\\uXXXX\<close>.\<close>

definition escape_char :: "nat \<Rightarrow> pystr" where
  "escape_char c =
     (if c = 34 then [92, 34]
      else if c = 92 then [92, 92]
      else if c = 10 then [92, 110]
      else if c = 13 then [92, 114]
      else if c = 9 then [92, 116]
      else if c = 12 then [92, 102]
      else if c = 8 then [92, 98]
      else if 32 \<le> c \<and> c \<le> 126 then [c]
      else if c < 65536 then hex4 c
      else hex4 (55296 + (c - 65536) div 1024) @ hex4 (56320 + (c - 65536) mod 1024))"

definition dump_str :: "pystr \<Rightarrow> pystr" where
  "dump_str s = 34 # concat (map escape_char s) @ [34]"

definition dump_pair :: "pystr \<times> pystr \<Rightarrow> pystr" where
  "dump_pair kv = dump_str (fst kv) @ [58] @ dump_str (snd kv)"

definition dumps :: "(pystr \<times> pystr) list \<Rightarrow> pystr" where
  "dumps kvs = [123] @ join_with [44] (map dump_pair kvs) @ [125]"

lemma is_hex_ascii: "is_hex c \<Longrightarrow> c < 128"
  by (auto simp: is_hex_def)

lemma hex4_ascii: "is_ascii (hex4 n)"
  using hex_of_hex is_hex_ascii by (fastforce simp: hex4_def is_ascii_def list_all_iff)

lemma escape_char_ascii: "is_ascii (escape_char c)"
  by (auto simp: escape_char_def hex4_ascii) (simp_all add: is_ascii_def)

lemma dump_str_ascii: "is_ascii (dump_str s)"
proof -
  have "is_ascii (concat (map escape_char s))"
    by (induction s) (simp_all add: escape_char_ascii, simp add: is_ascii_def)
  then show ?thesis by (simp add: dump_str_def is_ascii_def)
qed

lemma join_with_ascii: "is_ascii sep \<Longrightarrow> \<forall>x \<in> set xs. is_ascii x \<Longrightarrow> is_ascii (join_with sep xs)"
  by (induction sep xs rule: join_with.induct) (simp_all, simp add: is_ascii_def)

text \<open>The dump is ASCII, so encoding it cannot fail and its size in bytes is its length.\<close>

lemma dumps_ascii: "is_ascii (dumps kvs)"
proof -
  have "is_ascii (dump_pair kv)" for kv
    using dump_str_ascii [of "fst kv"] dump_str_ascii [of "snd kv"]
    by (simp add: dump_pair_def is_ascii_def)
  then have "is_ascii (join_with [44] (map dump_pair kvs))"
    by (intro join_with_ascii) (simp_all add: is_ascii_def)
  then show ?thesis by (simp add: dumps_def is_ascii_def)
qed

subsection \<open>\<open>json.loads\<close>\<close>

fun skip_ws :: "pystr \<Rightarrow> pystr" where
  "skip_ws [] = []"
| "skip_ws (c # cs) = (if c = 32 \<or> c = 9 \<or> c = 10 \<or> c = 13 then skip_ws cs else c # cs)"

definition hex_val :: "nat \<Rightarrow> nat option" where
  "hex_val c =
     (if 48 \<le> c \<and> c \<le> 57 then Some (c - 48)
      else if 97 \<le> c \<and> c \<le> 102 then Some (c - 87)
      else if 65 \<le> c \<and> c \<le> 70 then Some (c - 55)
      else None)"

text \<open>Four hexadecimal digits at the head of the text.\<close>

fun read_hex4 :: "pystr \<Rightarrow> (nat \<times> pystr) option" where
  "read_hex4 (a # b # c # d # cs) =
     (case (hex_val a, hex_val b, hex_val c, hex_val d) of
        (Some w, Some x, Some y, Some z) \<Rightarrow> Some (w * 4096 + x * 256 + y * 16 + z, cs)
      | _ \<Rightarrow> None)"
| "read_hex4 _ = None"

text \<open>After a \<open>\\u\<close>: a code unit, joined with a following low surrogate when it is a high one.\<close>

definition read_unit :: "pystr \<Rightarrow> (nat \<times> pystr) option" where
  "read_unit cs =
     (case read_hex4 cs of
        None \<Rightarrow> None
      | Some (n, rest) \<Rightarrow>
          if 55296 \<le> n \<and> n \<le> 56319 \<and> take 2 rest = [92, 117] then
            (case read_hex4 (drop 2 rest) of
               Some (m, rest') \<Rightarrow>
                 (if 56320 \<le> m \<and> m \<le> 57343
                  then Some (65536 + (n - 55296) * 1024 + (m - 56320), rest')
                  else Some (n, rest))
             | None \<Rightarrow> Some (n, rest))
          else Some (n, rest))"

definition simple_escape :: "nat \<Rightarrow> nat option" where
  "simple_escape c =
     (if c = 34 \<or> c = 92 \<or> c = 47 then Some c
      else if c = 98 then Some 8 else if c = 102 then Some 12 else if c = 110 then Some 10
      else if c = 114 then Some 13 else if c = 116 then Some 9 else None)"

text \<open>One character of a string body: \<open>None\<close> is an error, \<open>Some (None, _)\<close> the closing quote.
  Control characters are not allowed (\<open>strict=True\<close>).\<close>

fun string_char :: "pystr \<Rightarrow> (nat option \<times> pystr) option" where
  "string_char [] = None"
| "string_char (c # cs) =
     (if c = 34 then Some (None, cs)
      else if c = 92 then
        (case cs of
           [] \<Rightarrow> None
         | e # es \<Rightarrow>
             (if e = 117 then (case read_unit es of None \<Rightarrow> None | Some (n, rest) \<Rightarrow> Some (Some n, rest))
              else (case simple_escape e of None \<Rightarrow> None | Some n \<Rightarrow> Some (Some n, es))))
      else if c < 32 then None
      else Some (Some c, cs))"

lemma read_hex4_length: "read_hex4 cs = Some (n, rest) \<Longrightarrow> length cs = length rest + 4"
  by (cases cs rule: read_hex4.cases) (auto split: option.splits)

lemma read_unit_length: "read_unit cs = Some (n, rest) \<Longrightarrow> length rest < length cs"
  by (auto simp: read_unit_def split: option.splits if_splits dest!: read_hex4_length)

lemma string_char_length: "string_char cs = Some (x, rest) \<Longrightarrow> length rest < length cs"
  by (cases cs) (auto split: if_splits list.splits option.splits dest!: read_unit_length)

text \<open>The body of a string up to the closing quote.\<close>

function scan_string :: "pystr \<Rightarrow> (pystr \<times> pystr) option" where
  "scan_string cs =
     (case string_char cs of
        None \<Rightarrow> None
      | Some (None, rest) \<Rightarrow> Some ([], rest)
      | Some (Some c, rest) \<Rightarrow>
          (case scan_string rest of None \<Rightarrow> None | Some (s, rest') \<Rightarrow> Some (c # s, rest')))"
  by pat_completeness auto
termination
  by (relation "measure length") (auto dest: string_char_length)

declare scan_string.simps [simp del]

lemma scan_string_length: "scan_string cs = Some (s, rest) \<Longrightarrow> length rest < length cs"
proof (induction cs arbitrary: s rest rule: scan_string.induct)
  case (1 cs)
  from "1.prems" obtain x r where x: "string_char cs = Some (x, r)"
    by (subst (asm) scan_string.simps) (auto split: option.splits)
  note r = string_char_length [OF x]
  show ?case
  proof (cases x)
    case None
    with "1.prems" x r show ?thesis by (subst (asm) scan_string.simps) auto
  next
    case (Some c)
    with "1.prems" x obtain s' where "scan_string r = Some (s', rest)"
      by (subst (asm) scan_string.simps) (auto split: option.splits)
    with "1.IH" [OF x refl Some] r show ?thesis by fastforce
  qed
qed

text \<open>Numbers: \<open>-?(0|[1-9][0-9]*)(\.[0-9]+)?([eE][-+]?[0-9]+)?\<close>, the optional parts only when
  they match. \<open>int()\<close> refuses more than 4300 digits.\<close>

definition is_digit :: "nat \<Rightarrow> bool" where
  "is_digit c \<longleftrightarrow> 48 \<le> c \<and> c \<le> 57"

definition digit_run :: "pystr \<Rightarrow> pystr \<times> pystr" where
  "digit_run cs = (takeWhile is_digit cs, dropWhile is_digit cs)"

definition int_part :: "pystr \<Rightarrow> (pystr \<times> pystr) option" where
  "int_part cs =
     (case cs of
        [] \<Rightarrow> None
      | c # rest \<Rightarrow> (if c = 48 then Some ([48], rest) else if is_digit c then Some (digit_run cs) else None))"

definition frac_part :: "pystr \<Rightarrow> pystr \<times> pystr" where
  "frac_part cs =
     (case cs of
        [] \<Rightarrow> ([], cs)
      | c # rest \<Rightarrow>
          (if c = 46 \<and> fst (digit_run rest) \<noteq> [] then digit_run rest else ([], cs)))"

text \<open>The exponent, when there is one: its sign and digits.\<close>

definition exp_part :: "pystr \<Rightarrow> (bool \<times> pystr) option \<times> pystr" where
  "exp_part cs =
     (case cs of
        [] \<Rightarrow> (None, cs)
      | c # rest \<Rightarrow>
          (if c = 101 \<or> c = 69 then
             (let (neg, body) = (case rest of
                    [] \<Rightarrow> (False, rest)
                  | d # ds \<Rightarrow> (if d = 45 then (True, ds) else if d = 43 then (False, ds) else (False, rest)))
              in case digit_run body of
                   (digits, r) \<Rightarrow> (if digits = [] then (None, cs) else (Some (neg, digits), r)))
           else (None, cs)))"

definition decimal :: "pystr \<Rightarrow> pystr \<Rightarrow> (bool \<times> pystr) option \<Rightarrow> real" where
  "decimal ds fs ex =
     (let m = real (value_of (ds @ fs)) / 10 ^ length fs
      in case ex of
           None \<Rightarrow> m
         | Some (neg, es) \<Rightarrow> (if neg then m / 10 ^ value_of es else m * 10 ^ value_of es))"

definition scan_number :: "pystr \<Rightarrow> (json \<times> pystr) result" where
  "scan_number cs =
     (let neg = (take 1 cs = [45])
      in case int_part (if neg then drop 1 cs else cs) of
           None \<Rightarrow> Inl JSONDecodeError
         | Some (ds, r1) \<Rightarrow>
             (case frac_part r1 of (fs, r2) \<Rightarrow>
              (case exp_part r2 of (ex, r3) \<Rightarrow>
                 if fs = [] \<and> ex = None
                 then (if length ds > 4300
                       then Inl (ValueError (u ''Exceeds the limit (4300 digits) for integer string conversion''))
                       else Inr (JInt (if neg then - int (value_of ds) else int (value_of ds)), r3))
                 else Inr (JFloat (if neg then - decimal ds fs ex else decimal ds fs ex), r3))))"

definition literals :: "(pystr \<times> json) list" where
  "literals = [(u ''null'', JNull), (u ''true'', JBool True), (u ''false'', JBool False),
     (u ''NaN'', JNonFinite (u ''NaN'')), (u ''Infinity'', JNonFinite (u ''Infinity'')),
     (u ''-Infinity'', JNonFinite (u ''-Infinity''))]"

definition scan_literal :: "pystr \<Rightarrow> (json \<times> pystr) result" where
  "scan_literal cs =
     (case find (\<lambda>(w, v). take (length w) cs = w) literals of
        Some (w, v) \<Rightarrow> Inr (v, drop (length w) cs)
      | None \<Rightarrow> scan_number cs)"

definition out_of_fuel :: exn where
  "out_of_fuel = OtherError (u ''out of fuel'')"

text \<open>\<open>scan_value\<close> is \<open>scan_once\<close>; \<open>scan_items\<close> and \<open>scan_members\<close> are the loops of \<open>JSONArray\<close>
  and \<open>JSONObject\<close> at an element that must be there.\<close>

fun scan_value :: "nat \<Rightarrow> pystr \<Rightarrow> (json \<times> pystr) result"
  and scan_items :: "nat \<Rightarrow> pystr \<Rightarrow> (json list \<times> pystr) result"
  and scan_members :: "nat \<Rightarrow> pystr \<Rightarrow> ((pystr \<times> json) list \<times> pystr) result" where
  "scan_value 0 cs = Inl out_of_fuel"
| "scan_value (Suc n) cs =
     (case cs of
        [] \<Rightarrow> Inl JSONDecodeError
      | c # rest \<Rightarrow>
          if c = 34 then
            (case scan_string rest of
               None \<Rightarrow> Inl JSONDecodeError
             | Some (s, r) \<Rightarrow> Inr (JStr s, r))
          else if c = 123 then
            (if take 1 (skip_ws rest) = [125] then Inr (JObj [], drop 1 (skip_ws rest))
             else (case scan_members n (skip_ws rest) of
                     Inl e \<Rightarrow> Inl e | Inr (kvs, r) \<Rightarrow> Inr (JObj kvs, r)))
          else if c = 91 then
            (if take 1 (skip_ws rest) = [93] then Inr (JArr [], drop 1 (skip_ws rest))
             else (case scan_items n (skip_ws rest) of
                     Inl e \<Rightarrow> Inl e | Inr (vs, r) \<Rightarrow> Inr (JArr vs, r)))
          else scan_literal cs)"
| "scan_items 0 cs = Inl out_of_fuel"
| "scan_items (Suc n) cs =
     (case scan_value n cs of
        Inl e \<Rightarrow> Inl e
      | Inr (v, r) \<Rightarrow>
          if take 1 (skip_ws r) = [93] then Inr ([v], drop 1 (skip_ws r))
          else if take 1 (skip_ws r) = [44] then
            (case scan_items n (skip_ws (drop 1 (skip_ws r))) of
               Inl e \<Rightarrow> Inl e | Inr (vs, r') \<Rightarrow> Inr (v # vs, r'))
          else Inl JSONDecodeError)"
| "scan_members 0 cs = Inl out_of_fuel"
| "scan_members (Suc n) cs =
     (if take 1 cs \<noteq> [34] then Inl JSONDecodeError
      else (case scan_string (drop 1 cs) of
              None \<Rightarrow> Inl JSONDecodeError
            | Some (k, r0) \<Rightarrow>
                if take 1 (skip_ws r0) \<noteq> [58] then Inl JSONDecodeError
                else (case scan_value n (skip_ws (drop 1 (skip_ws r0))) of
                        Inl e \<Rightarrow> Inl e
                      | Inr (v, r) \<Rightarrow>
                          if take 1 (skip_ws r) = [125] then Inr ([(k, v)], drop 1 (skip_ws r))
                          else if take 1 (skip_ws r) = [44] then
                            (case scan_members n (skip_ws (drop 1 (skip_ws r))) of
                               Inl e \<Rightarrow> Inl e | Inr (kvs, r') \<Rightarrow> Inr ((k, v) # kvs, r'))
                          else Inl JSONDecodeError)))"

declare scan_value.simps [simp del] scan_items.simps [simp del] scan_members.simps [simp del]

definition loads :: "pystr \<Rightarrow> json result" where
  "loads s =
     (if take 1 s = [65279] then Inl JSONDecodeError
      else (case scan_value (2 * length s + 1) (skip_ws s) of
              Inl e \<Rightarrow> Inl e
            | Inr (v, r) \<Rightarrow> (if skip_ws r = [] then Inr v else Inl JSONDecodeError)))"

end
