(* ===== verification/Json_Correct.thy ===== *)
theory Json_Correct
  imports Json
begin

text \<open>
  Two facts of the JSON model: the fuel of \<open>loads\<close> always suffices, and \<open>loads\<close> reads back what
  \<open>dumps\<close> wrote, for every dictionary whose names and values are free of surrogates.
\<close>

subsection \<open>Every scanner consumes\<close>

lemma skip_ws_length: "length (skip_ws cs) \<le> length cs"
  by (induction cs) auto

lemma drop1_skip_ws: "take 1 (skip_ws cs) = [x] \<Longrightarrow> length (drop 1 (skip_ws cs)) < length cs"
  using skip_ws_length [of cs] by (cases "skip_ws cs") auto

lemma digit_run_length: "digit_run cs = (ds, r) \<Longrightarrow> length r \<le> length cs"
  by (auto simp: digit_run_def length_dropWhile_le)

lemma int_part_length: "int_part cs = Some (ds, r) \<Longrightarrow> length r < length cs"
  by (auto simp: int_part_def digit_run_def length_dropWhile_le le_imp_less_Suc
      split: list.splits if_splits)

lemma frac_part_length: "frac_part cs = (fs, r) \<Longrightarrow> length r \<le> length cs"
  by (auto simp: frac_part_def split: list.splits if_splits dest!: digit_run_length)

lemma exp_part_length: "exp_part cs = (ex, r) \<Longrightarrow> length r \<le> length cs"
  by (auto simp: exp_part_def Let_def split: list.splits if_splits prod.splits dest!: digit_run_length)

lemma scan_number_length: "scan_number cs = Inr (v, r) \<Longrightarrow> length r < length cs"
  by (cases cs)
    (auto simp: scan_number_def Let_def split: option.splits prod.splits if_splits
      dest!: int_part_length frac_part_length exp_part_length)

lemma scan_literal_length: "scan_literal cs = Inr (v, r) \<Longrightarrow> length r < length cs"
proof -
  assume "scan_literal cs = Inr (v, r)"
  moreover have "length (drop (length w) cs) < length cs"
    if "find (\<lambda>(w, v). take (length w) cs = w) literals = Some (w, x)" for w x
  proof -
    from that have "take (length w) cs = w" "(w, x) \<in> set literals"
      by (auto simp: find_Some_iff intro: nth_mem [of _ literals, THEN back_subst [of "\<lambda>y. y \<in> set literals"]])
    moreover from this have "w \<noteq> []" by (auto simp: literals_def)
    ultimately show ?thesis by (cases cs) (auto simp: length_drop)
  qed
  ultimately show ?thesis
    by (auto simp: scan_literal_def split: option.splits dest: scan_number_length)
qed

lemma less_skip_ws: "n < length (skip_ws cs) \<Longrightarrow> n < length cs"
  using skip_ws_length [of cs] by simp

lemma skip_ws_tail: "length (skip_ws cs) - Suc 0 \<le> length cs"
  using skip_ws_length [of cs] by simp

lemma skip_ws_tail_less:
  "length cs < m \<Longrightarrow> length (skip_ws cs) - Suc 0 < m"
  "n < length (skip_ws cs) - Suc 0 \<Longrightarrow> n < length cs"
  using skip_ws_tail [of cs] by simp_all

lemma scan_length_all:
  "(\<forall>cs v r. scan_value n cs = Inr (v, r) \<longrightarrow> length r < length cs)
   \<and> (\<forall>cs vs r. scan_items n cs = Inr (vs, r) \<longrightarrow> length r < length cs)
   \<and> (\<forall>cs kvs r. scan_members n cs = Inr (kvs, r) \<longrightarrow> length r < length cs)"
proof (induction n)
  case 0
  show ?case by (simp add: scan_value.simps scan_items.simps scan_members.simps)
next
  case (Suc n)
  then have V: "\<And>cs v r. scan_value n cs = Inr (v, r) \<Longrightarrow> length r < length cs"
    and I: "\<And>cs vs r. scan_items n cs = Inr (vs, r) \<Longrightarrow> length r < length cs"
    and M: "\<And>cs kvs r. scan_members n cs = Inr (kvs, r) \<Longrightarrow> length r < length cs"
    by blast+
  have "length r < length cs" if "scan_value (Suc n) cs = Inr (v, r)" for cs v r
    using that
    by (auto simp: scan_value.simps less_Suc_eq_le skip_ws_tail
        split: list.splits if_splits option.splits sum.splits prod.splits
        dest!: scan_string_length scan_literal_length I M less_skip_ws drop1_skip_ws)
  moreover have "length r < length cs" if "scan_items (Suc n) cs = Inr (vs, r)" for cs vs r
    using that
    by (auto simp: scan_items.simps split: if_splits sum.splits prod.splits
        dest!: V I less_skip_ws skip_ws_tail_less(2) intro: skip_ws_tail_less(1))
  moreover have "length r < length cs" if "scan_members (Suc n) cs = Inr (kvs, r)" for cs kvs r
    using that
    by (auto simp: scan_members.simps split: if_splits option.splits sum.splits prod.splits
        dest!: scan_string_length V M less_skip_ws skip_ws_tail_less(2)
        intro!: skip_ws_tail_less(1))
  ultimately show ?case by blast
qed

lemmas scan_length =
  scan_length_all [THEN conjunct1, rule_format]
  scan_length_all [THEN conjunct2, THEN conjunct1, rule_format]
  scan_length_all [THEN conjunct2, THEN conjunct2, rule_format]

subsection \<open>The fuel suffices\<close>

lemma scan_literal_fuel: "scan_literal cs \<noteq> Inl out_of_fuel"
  by (auto simp: scan_literal_def scan_number_def out_of_fuel_def Let_def
      split: option.splits prod.splits)

text \<open>One step of each scanner, given that the calls it makes have fuel enough.\<close>

lemma not_out_of_fuel: "JSONDecodeError \<noteq> out_of_fuel"
  by (simp add: out_of_fuel_def)

lemma scan_value_fuel:
  assumes I: "\<And>cs. 2 * length cs + 1 < n \<Longrightarrow> scan_items n cs \<noteq> Inl out_of_fuel"
    and M: "\<And>cs. 2 * length cs + 1 < n \<Longrightarrow> scan_members n cs \<noteq> Inl out_of_fuel"
    and fuel: "2 * length cs < Suc n"
  shows "scan_value (Suc n) cs \<noteq> Inl out_of_fuel"
proof (cases cs)
  case Nil
  then show ?thesis by (simp add: scan_value.simps not_out_of_fuel)
next
  case (Cons c rest)
  then have "2 * length (skip_ws rest) + 1 < n"
    using fuel skip_ws_length [of rest] by simp
  then show ?thesis
    using I [of "skip_ws rest"] M [of "skip_ws rest"] scan_literal_fuel [of cs] not_out_of_fuel Cons
    by (auto simp: scan_value.simps split: option.splits sum.splits)
qed

lemma scan_items_fuel:
  assumes V: "\<And>cs. 2 * length cs < n \<Longrightarrow> scan_value n cs \<noteq> Inl out_of_fuel"
    and I: "\<And>cs. 2 * length cs + 1 < n \<Longrightarrow> scan_items n cs \<noteq> Inl out_of_fuel"
    and fuel: "2 * length cs + 1 < Suc n"
  shows "scan_items (Suc n) cs \<noteq> Inl out_of_fuel"
proof (cases "scan_value n cs")
  case (Inl e)
  with V [of cs] fuel show ?thesis by (simp add: scan_items.simps)
next
  case (Inr vr)
  then obtain v r where vr: "scan_value n cs = Inr (v, r)" by (cases vr) simp
  have "2 * length (skip_ws (drop 1 (skip_ws r))) + 1 < n"
    using scan_length(1) [OF vr] fuel skip_ws_length [of "drop 1 (skip_ws r)"] skip_ws_length [of r]
    by simp
  from I [OF this] vr not_out_of_fuel show ?thesis
    by (auto simp: scan_items.simps split: sum.splits)
qed

lemma scan_members_fuel:
  assumes V: "\<And>cs. 2 * length cs < n \<Longrightarrow> scan_value n cs \<noteq> Inl out_of_fuel"
    and M: "\<And>cs. 2 * length cs + 1 < n \<Longrightarrow> scan_members n cs \<noteq> Inl out_of_fuel"
    and fuel: "2 * length cs + 1 < Suc n"
  shows "scan_members (Suc n) cs \<noteq> Inl out_of_fuel"
proof (cases "scan_string (drop 1 cs)")
  case None
  with not_out_of_fuel show ?thesis by (simp add: scan_members.simps)
next
  case (Some kr)
  then obtain k r0 where kr: "scan_string (drop 1 cs) = Some (k, r0)" by (cases kr) simp
  let ?s = "skip_ws (drop 1 (skip_ws r0))"
  have s: "length ?s < length cs"
    using scan_string_length [OF kr] skip_ws_length [of "drop 1 (skip_ws r0)"] skip_ws_length [of r0]
    by simp
  with fuel have "2 * length ?s < n" by simp
  from V [OF this] have v: "scan_value n ?s \<noteq> Inl out_of_fuel" .
  have m: "scan_members n (skip_ws (drop 1 (skip_ws r))) \<noteq> Inl out_of_fuel"
    if "scan_value n ?s = Inr (v, r)" for v r
  proof (rule M)
    show "2 * length (skip_ws (drop 1 (skip_ws r))) + 1 < n"
      using scan_length(1) [OF that] s fuel skip_ws_length [of "drop 1 (skip_ws r)"]
        skip_ws_length [of r] by simp
  qed
  from v m kr not_out_of_fuel show ?thesis
    by (auto simp: scan_members.simps split: sum.splits)
qed

lemma scan_fuel_all:
  "(\<forall>cs. 2 * length cs < n \<longrightarrow> scan_value n cs \<noteq> Inl out_of_fuel)
   \<and> (\<forall>cs. 2 * length cs + 1 < n \<longrightarrow> scan_items n cs \<noteq> Inl out_of_fuel)
   \<and> (\<forall>cs. 2 * length cs + 1 < n \<longrightarrow> scan_members n cs \<noteq> Inl out_of_fuel)"
proof (induction n)
  case (Suc n)
  then have "\<And>cs. 2 * length cs < n \<Longrightarrow> scan_value n cs \<noteq> Inl out_of_fuel"
    and "\<And>cs. 2 * length cs + 1 < n \<Longrightarrow> scan_items n cs \<noteq> Inl out_of_fuel"
    and "\<And>cs. 2 * length cs + 1 < n \<Longrightarrow> scan_members n cs \<noteq> Inl out_of_fuel"
    by blast+
  then show ?case using scan_value_fuel scan_items_fuel scan_members_fuel by blast
qed simp

lemma loads_fuel: "loads s \<noteq> Inl out_of_fuel"
proof -
  have "2 * length (skip_ws s) < 2 * length s + 1" using skip_ws_length [of s] by simp
  then have "scan_value (2 * length s + 1) (skip_ws s) \<noteq> Inl out_of_fuel"
    using scan_fuel_all by blast
  then show ?thesis by (auto simp: loads_def out_of_fuel_def split: sum.splits)
qed

subsection \<open>Round trip\<close>

lemma hex_val_digit: "n < 16 \<Longrightarrow> hex_val (hex_digit n) = Some n"
  by (simp add: hex_val_def hex_digit_def)

lemma hex_of_4: "hex_of 4 n = map hex_digit [n div 4096 mod 16, n div 256 mod 16, n div 16 mod 16, n mod 16]"
  by (simp add: hex_of_def upt_rec)

lemma hex_sum:
  assumes "n < (65536::nat)"
  shows "n div 4096 mod 16 * 4096 + n div 256 mod 16 * 256 + n div 16 mod 16 * 16 + n mod 16 = n"
proof -
  have d: "n div 4096 = n div 256 div 16" "n div 256 = n div 16 div 16"
    by (simp_all flip: div_mult2_eq)
  have "n div 4096 mod 16 = n div 4096" using assms by simp
  then show ?thesis
    using div_mult_mod_eq [of n 16] div_mult_mod_eq [of "n div 16" 16] div_mult_mod_eq [of "n div 256" 16]
    unfolding d by linarith
qed

lemma read_hex4_hex_of: "n < 65536 \<Longrightarrow> read_hex4 (hex_of 4 n @ rest) = Some (n, rest)"
  using hex_sum [of n] by (simp only: hex_of_4 list.map append_Cons append_Nil read_hex4.simps)
    (simp add: hex_val_digit)

lemma read_unit_bmp:
  "n < 65536 \<Longrightarrow> \<not> (55296 \<le> n \<and> n \<le> 56319) \<Longrightarrow> read_unit (hex_of 4 n @ rest) = Some (n, rest)"
  by (auto simp: read_unit_def read_hex4_hex_of)

lemma read_unit_pair:
  assumes "n < 1024" and "m < 1024"
  shows "read_unit (hex_of 4 (55296 + n) @ [92, 117] @ hex_of 4 (56320 + m) @ rest)
    = Some (65536 + n * 1024 + m, rest)"
proof -
  have "read_hex4 (hex_of 4 (55296 + n) @ [92, 117] @ hex_of 4 (56320 + m) @ rest)
      = Some (55296 + n, [92, 117] @ hex_of 4 (56320 + m) @ rest)"
    using assms(1) by (intro read_hex4_hex_of) simp
  moreover have "read_hex4 (hex_of 4 (56320 + m) @ rest) = Some (56320 + m, rest)"
    using assms(2) by (intro read_hex4_hex_of) simp
  ultimately show ?thesis using assms by (simp add: read_unit_def)
qed

lemma string_char_hex4:
  "string_char (hex4 n @ rest) = (case read_unit (hex_of 4 n @ rest) of
      None \<Rightarrow> None | Some (m, r) \<Rightarrow> Some (Some m, r))"
  by (simp add: hex4_def)

lemma string_char_escape:
  assumes "is_scalar c"
  shows "string_char (escape_char c @ rest) = Some (Some c, rest)"
proof (cases "c < 65536")
  case True
  then show ?thesis using assms
    by (auto simp: escape_char_def simple_escape_def string_char_hex4 read_unit_bmp is_scalar_def)
next
  case False
  let ?n = "(c - 65536) div 1024" and ?m = "(c - 65536) mod 1024"
  have e: "escape_char c @ rest = hex4 (55296 + ?n) @ hex4 (56320 + ?m) @ rest"
    using False by (simp add: escape_char_def)
  have "?n < 1024" using assms False by (auto simp: is_scalar_def)
  then have "read_unit (hex_of 4 (55296 + ?n) @ [92, 117] @ hex_of 4 (56320 + ?m) @ rest)
      = Some (65536 + ?n * 1024 + ?m, rest)"
    by (intro read_unit_pair) simp_all
  moreover have "65536 + ?n * 1024 + ?m = c" using False by simp
  ultimately show ?thesis unfolding e string_char_hex4 by (simp add: hex4_def)
qed

lemma scan_string_escaped:
  "scalar_str s \<Longrightarrow> scan_string (concat (map escape_char s) @ 34 # rest) = Some (s, rest)"
proof (induction s)
  case Nil
  show ?case by (simp add: scan_string.simps)
next
  case (Cons c s)
  then have "is_scalar c" "scalar_str s" by (simp_all add: scalar_str_def)
  with Cons.IH show ?case
    by (subst scan_string.simps) (simp add: string_char_escape)
qed

definition scalar_pairs :: "(pystr \<times> pystr) list \<Rightarrow> bool" where
  "scalar_pairs kvs \<longleftrightarrow> list_all (\<lambda>kv. scalar_str (fst kv) \<and> scalar_str (snd kv)) kvs"

definition jstr_pairs :: "(pystr \<times> pystr) list \<Rightarrow> (pystr \<times> json) list" where
  "jstr_pairs kvs = map (\<lambda>kv. (fst kv, JStr (snd kv))) kvs"

lemma skip_ws_dump_pair: "skip_ws (dump_pair kv @ rest) = dump_pair kv @ rest"
  by (simp add: dump_pair_def dump_str_def)

lemma join_with_Cons: "xs \<noteq> [] \<Longrightarrow> join_with sep (x # xs) = x @ sep @ join_with sep xs"
  by (cases xs) simp_all

lemma skip_ws_members:
  "kvs \<noteq> [] \<Longrightarrow> skip_ws (join_with [44] (map dump_pair kvs) @ rest) = join_with [44] (map dump_pair kvs) @ rest"
  by (cases kvs; cases "tl kvs") (simp_all add: skip_ws_dump_pair join_with_Cons)

lemma scan_one_member:
  assumes "scalar_str (fst kv)" and "scalar_str (snd kv)"
  shows scan_last_member: "scan_members (Suc (Suc n)) (dump_pair kv @ 125 # rest)
      = Inr ([(fst kv, JStr (snd kv))], rest)"
    and scan_next_member: "scan_members (Suc (Suc n)) (dump_pair kv @ 44 # rest)
      = (case scan_members (Suc n) (skip_ws rest) of
          Inl e \<Rightarrow> Inl e | Inr (kvs, r') \<Rightarrow> Inr ((fst kv, JStr (snd kv)) # kvs, r'))"
  using assms
  by (simp_all add: scan_members.simps(2) [of "Suc n"] dump_pair_def dump_str_def
      scan_string_escaped scan_value.simps(2))

lemma scan_members_dump:
  "scalar_pairs kvs \<Longrightarrow> kvs \<noteq> [] \<Longrightarrow> length kvs < n \<Longrightarrow>
    scan_members n (join_with [44] (map dump_pair kvs) @ 125 # rest) = Inr (jstr_pairs kvs, rest)"
proof (induction kvs arbitrary: n)
  case Nil
  then show ?case by simp
next
  case (Cons kv kvs)
  then obtain m where n: "n = Suc (Suc m)" by (metis Suc_lessE length_Cons less_imp_Suc_add)
  from Cons.prems have s: "scalar_str (fst kv)" "scalar_str (snd kv)" and ss: "scalar_pairs kvs"
    by (simp_all add: scalar_pairs_def)
  show ?case
  proof (cases "kvs = []")
    case True
    then show ?thesis by (simp add: n scan_one_member [OF s] jstr_pairs_def)
  next
    case False
    with Cons.IH [OF ss False, of "Suc m"] Cons.prems(3) show ?thesis
      by (simp add: n join_with_Cons scan_one_member [OF s] skip_ws_members jstr_pairs_def)
  qed
qed

lemma length_members: "length kvs \<le> length (join_with [44] (map dump_pair kvs))"
proof (induction kvs)
  case (Cons kv kvs)
  then show ?case by (cases "kvs = []") (simp_all add: join_with_Cons dump_pair_def)
qed simp

lemma loads_dumps:
  assumes "scalar_pairs kvs"
  shows "loads (dumps kvs) = Inr (JObj (jstr_pairs kvs))"
proof (cases "kvs = []")
  case True
  have "scan_value (Suc 4) [123, 125] = Inr (JObj [], [])" by (simp only: scan_value.simps(2)) simp
  then have "scan_value 5 [123, 125] = Inr (JObj [], [])" by simp
  with True show ?thesis by (simp add: loads_def dumps_def jstr_pairs_def)
next
  case False
  let ?b = "join_with [44] (map dump_pair kvs) @ [125]"
  obtain x where x: "?b = 34 # x"
    using False by (cases kvs; cases "tl kvs") (simp_all add: join_with_Cons dump_pair_def dump_str_def)
  let ?n = "2 * length (dumps kvs)"
  have "scan_members ?n ?b = Inr (jstr_pairs kvs, [])"
    using length_members [of kvs] by (intro scan_members_dump assms False) (simp add: dumps_def)
  moreover have "skip_ws ?b = ?b" by (rule skip_ws_members [OF False])
  ultimately have "scan_value (Suc ?n) (123 # ?b) = Inr (JObj (jstr_pairs kvs), [])"
    unfolding x by (simp add: scan_value.simps(2))
  moreover have "dumps kvs = 123 # ?b" by (simp add: dumps_def)
  ultimately show ?thesis by (simp add: loads_def)
qed

end
