(* ===== verification/Semantic_Cache.thy ===== *)
theory Semantic_Cache
  imports Keys Json_Correct Cache_Store Settings Llm_Types
begin

text \<open>
  The semantic response cache of \<open>nexus/cache/services/semantic_cache.py\<close>: responses stored as
  JSON under a hash of the normalised query. Every operation returns its result or exception,
  the store after it and the metric effects. \<open>str.casefold\<close> maps each code point to its full
  case folding; that table of the Unicode standard is the parameter \<open>cf\<close>.

  The client lemmas are proved in the context of \<open>text_store\<close>, the contract of the store.
\<close>

subsection \<open>The service\<close>

record cache_entry =
  response :: pystr
  source :: pystr

definition mk_entry :: "pystr \<Rightarrow> cache_entry" where
  "mk_entry r = \<lparr>response = r, source = u ''semantic_cache''\<rparr>"

record semantic_cache =
  sc_ttl_seconds :: int
  sc_max_bytes :: int

definition new_semantic_cache :: "settings \<Rightarrow> semantic_cache result" where
  "new_semantic_cache st =
     (let c = \<lparr>sc_ttl_seconds = semantic_cache_ttl_seconds st, sc_max_bytes = semantic_cache_max_bytes st\<rparr>
      in if sc_ttl_seconds c \<le> 0 then Inl (ValueError (u ''semantic cache TTL must be positive''))
         else if sc_max_bytes c \<le> 0 then Inl (ValueError (u ''semantic cache max bytes must be positive''))
         else Inr c)"

definition casefold :: "(nat \<Rightarrow> pystr) \<Rightarrow> pystr \<Rightarrow> pystr" where
  "casefold cf s = concat (map cf s)"

definition normalize :: "(nat \<Rightarrow> pystr) \<Rightarrow> pystr \<Rightarrow> pystr" where
  "normalize cf query = casefold cf (join_with (u '' '') (split_ws (strip query)))"

text \<open>\<open>semantic_cache_key(hash_text(self._normalize(query)))\<close>.\<close>

definition query_key :: "(nat \<Rightarrow> pystr) \<Rightarrow> pystr \<Rightarrow> pystr result" where
  "query_key cf query =
     (case hash_text (normalize cf query) of Inl e \<Rightarrow> Inl e | Inr h \<Rightarrow> Inr (semantic_cache_key h))"

text \<open>The part of \<open>get\<close> after the payload was read.\<close>

definition decode_payload :: "pystr \<Rightarrow> cache_entry result" where
  "decode_payload payload =
     (case loads payload of
        Inl e \<Rightarrow> Inl e
      | Inr data \<Rightarrow>
          (case json_get data (u ''response'') of
             Inl e \<Rightarrow> Inl e
           | Inr r \<Rightarrow>
               (case is_jstr r of
                  None \<Rightarrow> Inl (ValueError (u ''invalid semantic cache payload''))
                | Some s \<Rightarrow> Inr (mk_entry s))))"

definition cache_get ::
  "'s cache_store \<Rightarrow> (nat \<Rightarrow> pystr) \<Rightarrow> pystr \<Rightarrow> 's \<Rightarrow> cache_entry option result \<times> 's \<times> effect list"
where
  "cache_get S cf query s =
     (case query_key cf query of
        Inl e \<Rightarrow> (Inl e, s, [])
      | Inr key \<Rightarrow>
          (case cs_get S key s of
             (Inl e, s') \<Rightarrow> (Inl e, s', [])
           | (Inr None, s') \<Rightarrow> (Inr None, s', [Inc SEMANTIC_CACHE_MISSES_TOTAL []])
           | (Inr (Some payload), s') \<Rightarrow>
               (case decode_payload payload of
                  Inl e \<Rightarrow> (Inl e, s', [])
                | Inr ent \<Rightarrow> (Inr (Some ent), s', [Inc SEMANTIC_CACHE_HITS_TOTAL []]))))"

definition encode_payload :: "pystr \<Rightarrow> pystr" where
  "encode_payload resp = dumps [(u ''response'', resp)]"

definition cache_set ::
  "'s cache_store \<Rightarrow> semantic_cache \<Rightarrow> (nat \<Rightarrow> pystr) \<Rightarrow> pystr \<Rightarrow> pystr \<Rightarrow> 's \<Rightarrow> bool result \<times> 's"
where
  "cache_set S c cf query resp s =
     (let payload = encode_payload resp
      in case utf8_encode payload of
           Inl e \<Rightarrow> (Inl e, s)
         | Inr bytes \<Rightarrow>
             if int (length bytes) > sc_max_bytes c
             then (Inl (ValueError (u ''semantic cache payload exceeds maximum size'')), s)
             else (case query_key cf query of
                     Inl e \<Rightarrow> (Inl e, s)
                   | Inr key \<Rightarrow> cs_set S key payload (Some (sc_ttl_seconds c)) s))"

definition cache_delete :: "'s cache_store \<Rightarrow> (nat \<Rightarrow> pystr) \<Rightarrow> pystr \<Rightarrow> 's \<Rightarrow> int result \<times> 's" where
  "cache_delete S cf query s =
     (case query_key cf query of Inl e \<Rightarrow> (Inl e, s) | Inr key \<Rightarrow> cs_delete S key s)"

subsection \<open>Payloads\<close>

lemma encode_payload_ascii: "is_ascii (encode_payload r)"
  by (simp add: encode_payload_def dumps_ascii)

lemma scalar_u: "\<forall>c \<in> set s. of_char c < (55296::nat) \<Longrightarrow> scalar_str (u s)"
  by (auto simp: u_def scalar_str_def list_all_iff is_scalar_def)

lemma decode_encode: "scalar_str r \<Longrightarrow> decode_payload (encode_payload r) = Inr (mk_entry r)"
  by (simp add: decode_payload_def encode_payload_def loads_dumps scalar_pairs_def scalar_u u_def
      scalar_str_def is_scalar_def jstr_pairs_def obj_lookup_def)

lemma payload_size: "utf8_encode (encode_payload r) = Inr (encode_payload r)"
  by (simp add: utf8_encode_ascii encode_payload_ascii)

subsection \<open>Keys\<close>

lemma key_prefix_scalar: "scalar_str key_prefix"
  by (simp add: key_prefix_def KEY_NAMESPACE_def KEY_VERSION_def u_def scalar_str_def is_scalar_def)

lemma semantic_key_scalar: "scalar_str (semantic_cache_key (sha256_hex bs))"
  using key_prefix_scalar is_ascii_scalar [OF sha256_hex_ascii]
  by (simp add: semantic_cache_key_def scalar_str_def u_def is_scalar_def)

lemma query_key_cases:
  obtains bs where "scalar_str (normalize cf q)" "utf8_encode (normalize cf q) = Inr bs"
      "query_key cf q = Inr (semantic_cache_key (sha256_hex bs))"
  | "\<not> scalar_str (normalize cf q)" "query_key cf q = Inl UnicodeEncodeError"
  by (cases "scalar_str (normalize cf q)")
    (simp_all add: query_key_def hash_text_def utf8_encode_def)

lemma query_key_scalar: "query_key cf q = Inr key \<Longrightarrow> scalar_str key"
  by (rule query_key_cases [of cf q]) (auto simp: semantic_key_scalar)

lemma query_key_family: "query_key cf q = Inr key \<Longrightarrow> \<exists>h. key = semantic_cache_key h"
  by (rule query_key_cases [of cf q]) auto

subsection \<open>Normalisation\<close>

text \<open>White space around and between words does not count, so \<open>strip\<close> is redundant before
  \<open>split\<close>.\<close>

lemma split_ws_space_left: "list_all is_space w \<Longrightarrow> split_ws_from [] (w @ cs) = split_ws_from [] cs"
  by (induction w) simp_all

lemma split_ws_space_right: "list_all is_space w \<Longrightarrow> split_ws_from acc (cs @ w) = split_ws_from acc cs"
proof (induction cs arbitrary: acc)
  case Nil
  show ?case
  proof (cases w)
    case (Cons c w')
    with Nil show ?thesis
      using split_ws_space_left [of w' "[]"] by simp
  qed simp
next
  case (Cons c cs)
  then show ?case by simp
qed

lemma strip_split: "\<exists>a b. s = a @ strip s @ b \<and> list_all is_space a \<and> list_all is_space b"
proof -
  let ?a = "takeWhile is_space s" and ?m = "dropWhile is_space s"
  let ?b = "rev (takeWhile is_space (rev ?m))"
  have "?m = rev (dropWhile is_space (rev ?m)) @ ?b"
    by (metis rev_append rev_rev_ident takeWhile_dropWhile_id)
  then have "s = ?a @ strip s @ ?b"
    unfolding strip_def by (metis takeWhile_dropWhile_id)
  moreover have "list_all is_space ?a" "list_all is_space ?b"
    by (auto simp: list_all_iff dest: set_takeWhileD)
  ultimately show ?thesis by blast
qed

lemma split_ws_strip: "split_ws (strip s) = split_ws s"
proof -
  obtain a b where "s = a @ strip s @ b" "list_all is_space a" "list_all is_space b"
    using strip_split by blast
  then have "split_ws s = split_ws_from [] (strip s)"
    unfolding split_ws_def by (metis split_ws_space_left split_ws_space_right)
  then show ?thesis by (simp add: split_ws_def)
qed

lemma normalize_words: "normalize cf q = casefold cf (join_with [32] (split_ws q))"
  by (simp add: normalize_def split_ws_strip u_def)

lemma casefold_append: "casefold cf (s @ t) = casefold cf s @ casefold cf t"
  by (simp add: casefold_def)

lemma casefold_join:
  "cf 32 = [32] \<Longrightarrow> casefold cf (join_with [32] ws) = join_with [32] (map (casefold cf) ws)"
  by (induction "[32::nat]" ws rule: join_with.induct)
    (simp_all add: casefold_append, simp_all add: casefold_def)

lemma normalize_cong:
  "cf 32 = [32] \<Longrightarrow> map (casefold cf) (split_ws a) = map (casefold cf) (split_ws b)
    \<Longrightarrow> normalize cf a = normalize cf b"
  by (simp add: normalize_words casefold_join)

text \<open>Conversely the normal form determines the folded words: they are not empty and have no blank,
  so the joining blanks show where they end.\<close>

lemma split_ws_from_words:
  "list_all (\<lambda>c. \<not> is_space c) acc \<Longrightarrow>
    list_all (\<lambda>w. w \<noteq> [] \<and> list_all (\<lambda>c. \<not> is_space c) w) (split_ws_from acc s)"
  by (induction acc s rule: split_ws_from.induct) simp_all

lemma join_words_inj:
  "list_all (\<lambda>w. w \<noteq> [] \<and> c \<notin> set w) xs \<Longrightarrow> list_all (\<lambda>w. w \<noteq> [] \<and> c \<notin> set w) ys
    \<Longrightarrow> join_with [c] xs = join_with [c] ys \<Longrightarrow> xs = ys"
proof (induction xs arbitrary: ys)
  case Nil
  then show ?case by (cases ys rule: list.exhaust [case_names Nil Cons]; cases "tl ys") auto
next
  case (Cons x xs)
  have first: "takeWhile (\<lambda>d. d \<noteq> c) (join_with [c] (w # ws)) = w"
    "dropWhile (\<lambda>d. d \<noteq> c) (join_with [c] (w # ws)) = (if ws = [] then [] else c # join_with [c] ws)"
    if "c \<notin> set w" for w ws
    using that by (cases ws; auto simp: takeWhile_append dropWhile_append)+
  from Cons.prems obtain y ys' where ys: "ys = y # ys'" by (cases ys) (cases xs; auto)+
  with Cons.prems have c: "c \<notin> set x" "c \<notin> set y" by simp_all
  from first(1) [OF c(1), of xs] first(1) [OF c(2), of ys'] Cons.prems(3) ys have "x = y" by simp
  moreover from first(2) [OF c(1), of xs] first(2) [OF c(2), of ys'] Cons.prems(3) ys
  have "(if xs = [] then [] else c # join_with [c] xs) = (if ys' = [] then [] else c # join_with [c] ys')" by simp
  then have "join_with [c] xs = join_with [c] ys'" by (auto split: if_splits)
  with Cons.IH [of ys'] Cons.prems ys have "xs = ys'" by simp
  ultimately show ?case using ys by simp
qed

lemma normalize_inj:
  assumes "cf 32 = [32]" and folds: "\<And>c. \<not> is_space c \<Longrightarrow> cf c \<noteq> [] \<and> 32 \<notin> set (cf c)"
    and "normalize cf a = normalize cf b"
  shows "map (casefold cf) (split_ws a) = map (casefold cf) (split_ws b)"
proof (rule join_words_inj [of 32])
  have words: "list_all (\<lambda>w. w \<noteq> [] \<and> 32 \<notin> set w) (map (casefold cf) (split_ws s))" for s
    using split_ws_from_words [of "[]" s] folds
    by (fastforce simp: split_ws_def casefold_def list_all_iff)
  show "list_all (\<lambda>w. w \<noteq> [] \<and> 32 \<notin> set w) (map (casefold cf) (split_ws a))"
    "list_all (\<lambda>w. w \<noteq> [] \<and> 32 \<notin> set w) (map (casefold cf) (split_ws b))" by (rule words)+
  show "join_with [32] (map (casefold cf) (split_ws a)) = join_with [32] (map (casefold cf) (split_ws b))"
    using assms(1,3) by (simp add: normalize_words casefold_join)
qed

subsection \<open>The cache over a text store\<close>

context text_store
begin

lemma cache_get_hit:
  assumes "ok s" and key: "query_key cf q = Inr key" and "holds s key = Some (VStr (encode_payload r))"
    and "scalar_str r"
  shows "\<exists>s'. cache_get S cf q s = (Inr (Some (mk_entry r)), s', [Inc SEMANTIC_CACHE_HITS_TOTAL []])
    \<and> ok s' \<and> holds s' = holds s"
proof -
  obtain s' where "cs_get S key s = (Inr (Some (encode_payload r)), s')" "ok s'" "holds s' = holds s"
    using get_hit [OF assms(1) query_key_scalar [OF key] assms(3)] get_pure [OF assms(1), of key]
    by (metis prod.collapse)
  with key assms(4) show ?thesis by (simp add: cache_get_def decode_encode)
qed

lemma cache_get_miss:
  assumes "ok s" and key: "query_key cf q = Inr key" and "holds s key = None"
  shows "\<exists>s'. cache_get S cf q s = (Inr None, s', [Inc SEMANTIC_CACHE_MISSES_TOTAL []])
    \<and> ok s' \<and> holds s' = holds s"
proof -
  obtain s' where "cs_get S key s = (Inr None, s')" "ok s'" "holds s' = holds s"
    using get_miss [OF assms(1) query_key_scalar [OF key] assms(3)] get_pure [OF assms(1), of key]
    by (metis prod.collapse)
  with key show ?thesis by (simp add: cache_get_def)
qed

lemma cache_set_stores:
  assumes "ok s" and key: "query_key cf q = Inr key" and "0 < sc_ttl_seconds c"
    and "int (length (encode_payload r)) \<le> sc_max_bytes c"
  obtains s' where "cache_set S c cf q r s = (Inr True, s')" "ok s'"
    "holds s' = (holds s)(key \<mapsto> VStr (encode_payload r))"
    "\<And>d. 0 \<le> d \<Longrightarrow> holds (age d s') key
       = (if d < real_of_int (sc_ttl_seconds c) then Some (VStr (encode_payload r)) else None)"
proof -
  note enc = query_key_scalar [OF key] is_ascii_scalar [OF encode_payload_ascii [of r]]
  let ?r = "cs_set S key (encode_payload r) (Some (sc_ttl_seconds c)) s"
  have "cache_set S c cf q r s = ?r"
    using key assms(4) by (simp add: cache_set_def Let_def payload_size)
  moreover have "?r = (Inr True, snd ?r)"
    using set_done [OF assms(1) enc assms(3)] by (metis prod.collapse)
  ultimately show ?thesis
    using that set_ok [OF assms(1)] set_holds [OF assms(1) enc assms(3)]
      set_lasts [OF assms(1) enc assms(3)] by metis
qed

lemma cache_set_too_big:
  "sc_max_bytes c < int (length (encode_payload r))
    \<Longrightarrow> cache_set S c cf q r s = (Inl (ValueError (u ''semantic cache payload exceeds maximum size'')), s)"
  by (simp add: cache_set_def Let_def payload_size)

lemma cache_roundtrip:
  assumes "ok s" and "query_key cf q = Inr key" and "query_key cf q' = Inr key"
    and "0 < sc_ttl_seconds c" and "int (length (encode_payload r)) \<le> sc_max_bytes c"
    and "scalar_str r" and "0 \<le> d"
  shows "\<exists>s1 s2. cache_set S c cf q r s = (Inr True, s1)
    \<and> cache_get S cf q' (age d s1) =
      (if d < real_of_int (sc_ttl_seconds c)
       then (Inr (Some (mk_entry r)), s2, [Inc SEMANTIC_CACHE_HITS_TOTAL []])
       else (Inr None, s2, [Inc SEMANTIC_CACHE_MISSES_TOTAL []]))"
proof -
  obtain s1 where s1: "cache_set S c cf q r s = (Inr True, s1)" "ok s1"
    "holds (age d s1) key = (if d < real_of_int (sc_ttl_seconds c) then Some (VStr (encode_payload r)) else None)"
    by (rule cache_set_stores [OF assms(1,2,4,5)]) (use assms(7) in blast)
  from age_ok [OF s1(2)] have "ok (age d s1)" .
  with s1(3) cache_get_hit [OF this assms(3) _ assms(6)] cache_get_miss [OF this assms(3)] s1(1)
  show ?thesis by (cases "d < real_of_int (sc_ttl_seconds c)") auto
qed

text \<open>A write changes what one key holds; a read depends on what one key holds.\<close>

lemma cache_set_frame:
  assumes "ok s" and "0 < sc_ttl_seconds c"
  shows "ok (snd (cache_set S c cf q r s))
    \<and> (\<forall>k. query_key cf q \<noteq> Inr k \<longrightarrow> holds (snd (cache_set S c cf q r s)) k = holds s k)"
proof (cases "query_key cf q")
  case (Inl e)
  with assms(1) show ?thesis by (simp add: cache_set_def Let_def payload_size)
next
  case (Inr key)
  show ?thesis
  proof (cases "int (length (encode_payload r)) \<le> sc_max_bytes c")
    case True
    with assms Inr obtain s' where "cache_set S c cf q r s = (Inr True, s')" "ok s'"
      "holds s' = (holds s)(key \<mapsto> VStr (encode_payload r))" by (metis cache_set_stores)
    with Inr show ?thesis by simp
  next
    case False
    with assms(1) show ?thesis by (simp add: cache_set_too_big)
  qed
qed

lemma cache_get_cong:
  assumes "ok s" and "ok t" and "\<And>k. query_key cf q = Inr k \<Longrightarrow> holds s k = holds t k"
  shows "fst (cache_get S cf q s) = fst (cache_get S cf q t)"
proof (cases "query_key cf q")
  case (Inr key)
  with get_same [OF assms(1,2) assms(3)] have "fst (cs_get S key s) = fst (cs_get S key t)" by blast
  with Inr show ?thesis
    by (cases "cs_get S key s"; cases "cs_get S key t")
      (auto simp: cache_get_def split: sum.splits option.splits)
qed (simp add: cache_get_def)

lemma cache_delete_forgets:
  assumes "ok s" and key: "query_key cf q = Inr key"
  shows "\<exists>n s1 s2. cache_delete S cf q s = (Inr n, s1)
    \<and> cache_get S cf q s1 = (Inr None, s2, [Inc SEMANTIC_CACHE_MISSES_TOTAL []])"
proof -
  let ?r = "cs_delete S key s"
  have "holds (snd ?r) key = None" using delete_holds [OF assms(1) query_key_scalar [OF key]] by simp
  from cache_get_miss [OF delete_ok [OF assms(1)] key this] obtain s2 where
    "cache_get S cf q (snd ?r) = (Inr None, s2, [Inc SEMANTIC_CACHE_MISSES_TOTAL []])" by blast
  moreover have "cache_delete S cf q s = (Inr (if holds s key = None then 0 else 1), snd ?r)"
    using delete_done [OF assms(1) query_key_scalar [OF key]] key
    by (metis cache_delete_def prod.collapse sum.simps(6))
  ultimately show ?thesis by blast
qed

end

end
