(* ===== verification/Agent_Memory.thy ===== *)
theory Agent_Memory
  imports Keys Json_Correct Cache_Store Settings
begin

text \<open>
  The conversation memory of \<open>nexus/cache/services/memory.py\<close>: each session is a Redis list of
  JSON messages, trimmed to the newest ones and kept for the time to live after the last
  append. The client lemmas are proved in the context of \<open>list_store\<close>, the contract of
  \<open>SessionMemoryStore\<close>.
\<close>

subsection \<open>The service\<close>

record memory_message =
  role :: pystr
  msg_content :: pystr

record agent_memory =
  am_ttl_seconds :: int
  am_max_messages :: int
  am_max_message_bytes :: int

definition new_agent_memory :: "settings \<Rightarrow> agent_memory result" where
  "new_agent_memory st =
     (let m = \<lparr>am_ttl_seconds = session_ttl_seconds st, am_max_messages = session_max_messages st,
               am_max_message_bytes = session_max_message_bytes st\<rparr>
      in if am_ttl_seconds m \<le> 0 then Inl (ValueError (u ''session TTL must be positive''))
         else if am_max_messages m \<le> 0 then Inl (ValueError (u ''session max messages must be positive''))
         else if am_max_message_bytes m \<le> 0
         then Inl (ValueError (u ''session max message bytes must be positive''))
         else Inr m)"

definition encode_message :: "memory_message \<Rightarrow> pystr" where
  "encode_message msg = dumps [(u ''role'', role msg), (u ''content'', msg_content msg)]"

definition memory_append ::
  "'s session_memory_store \<Rightarrow> agent_memory \<Rightarrow> pystr \<Rightarrow> memory_message \<Rightarrow> 's \<Rightarrow> unit result \<times> 's"
where
  "memory_append M m session_id msg s =
     (case utf8_encode (encode_message msg) of
        Inl e \<Rightarrow> (Inl e, s)
      | Inr bytes \<Rightarrow>
          if int (length bytes) > am_max_message_bytes m
          then (Inl (ValueError (u ''message exceeds maximum allowed size'')), s)
          else ms_append_bounded M (session_memory_key session_id) (encode_message msg)
                 (am_max_messages m) (am_ttl_seconds m) s)"

definition decode_message :: "pystr \<Rightarrow> memory_message result" where
  "decode_message value =
     (case loads value of
        Inl e \<Rightarrow> Inl e
      | Inr data \<Rightarrow>
          (case json_get data (u ''role'') of
             Inl e \<Rightarrow> Inl e
           | Inr r \<Rightarrow>
               (case json_get data (u ''content'') of
                  Inl e \<Rightarrow> Inl e
                | Inr c \<Rightarrow>
                    (case (is_jstr r, is_jstr c) of
                       (Some rs, Some cs) \<Rightarrow> Inr \<lparr>role = rs, msg_content = cs\<rparr>
                     | _ \<Rightarrow> Inl (ValueError (u ''invalid session memory payload''))))))"

text \<open>The loop over the values stops at the first that cannot be decoded.\<close>

definition memory_recent ::
  "'s session_memory_store \<Rightarrow> agent_memory \<Rightarrow> pystr \<Rightarrow> 's \<Rightarrow> memory_message list result \<times> 's"
where
  "memory_recent M m session_id s =
     (case ms_get_recent M (session_memory_key session_id) (am_max_messages m) s of
        (Inl e, s') \<Rightarrow> (Inl e, s')
      | (Inr values, s') \<Rightarrow> (collect (map decode_message values), s'))"

definition memory_clear :: "'s session_memory_store \<Rightarrow> pystr \<Rightarrow> 's \<Rightarrow> int result \<times> 's" where
  "memory_clear M session_id s = ms_delete M (session_memory_key session_id) s"

subsection \<open>Messages\<close>

definition scalar_message :: "memory_message \<Rightarrow> bool" where
  "scalar_message msg \<longleftrightarrow> scalar_str (role msg) \<and> scalar_str (msg_content msg)"

lemma encode_message_ascii: "is_ascii (encode_message msg)"
  by (simp add: encode_message_def dumps_ascii)

lemma decode_encode_message: "scalar_message msg \<Longrightarrow> decode_message (encode_message msg) = Inr msg"
  by (simp add: decode_message_def encode_message_def loads_dumps scalar_pairs_def scalar_message_def
      jstr_pairs_def obj_lookup_def u_def scalar_str_def is_scalar_def)

lemma collect_decode:
  "list_all scalar_message msgs \<Longrightarrow> collect (map decode_message (map encode_message msgs)) = Inr msgs"
  by (induction msgs) (simp_all add: decode_encode_message)

lemma session_key_scalar: "scalar_str session_id \<Longrightarrow> scalar_str (session_memory_key session_id)"
  by (simp add: session_memory_key_def key_prefix_def KEY_NAMESPACE_def KEY_VERSION_def scalar_str_def
      u_def is_scalar_def)

subsection \<open>The contract of the store\<close>

text \<open>The list at a key; a key that holds nothing is an empty list.\<close>

definition list_at :: "rvalue option \<Rightarrow> pystr list option" where
  "list_at v = (case v of None \<Rightarrow> Some [] | Some (VList xs) \<Rightarrow> Some xs | Some (VStr _) \<Rightarrow> None)"

locale list_store =
  fixes M :: "'s session_memory_store"
    and ok :: "'s \<Rightarrow> bool"
    and holds :: "'s \<Rightarrow> pystr \<Rightarrow> rvalue option"
    and age :: "real \<Rightarrow> 's \<Rightarrow> 's"
  assumes append_done: "ok s \<Longrightarrow> scalar_str key \<Longrightarrow> scalar_str v \<Longrightarrow> 0 < n \<Longrightarrow> 0 < ttl
      \<Longrightarrow> list_at (holds s key) = Some xs \<Longrightarrow> fst (ms_append_bounded M key v n ttl s) = Inr ()"
    and append_holds: "ok s \<Longrightarrow> scalar_str key \<Longrightarrow> scalar_str v \<Longrightarrow> 0 < n \<Longrightarrow> 0 < ttl
      \<Longrightarrow> list_at (holds s key) = Some xs
      \<Longrightarrow> holds (snd (ms_append_bounded M key v n ttl s)) = (holds s)(key \<mapsto> VList (last_n (nat n) (xs @ [v])))"
    and append_ok: "ok s \<Longrightarrow> ok (snd (ms_append_bounded M key v n ttl s))"
    and append_lasts: "ok s \<Longrightarrow> scalar_str key \<Longrightarrow> scalar_str v \<Longrightarrow> 0 < n \<Longrightarrow> 0 < ttl \<Longrightarrow> 0 \<le> d
      \<Longrightarrow> list_at (holds s key) = Some xs
      \<Longrightarrow> holds (age d (snd (ms_append_bounded M key v n ttl s))) key
        = (if d < real_of_int ttl then Some (VList (last_n (nat n) (xs @ [v]))) else None)"
    and recent_done: "ok s \<Longrightarrow> scalar_str key \<Longrightarrow> 0 < n \<Longrightarrow> list_at (holds s key) = Some xs
      \<Longrightarrow> fst (ms_get_recent M key n s) = Inr (last_n (nat n) xs)"
    and recent_pure: "ok s \<Longrightarrow> ok (snd (ms_get_recent M key n s)) \<and> holds (snd (ms_get_recent M key n s)) = holds s"
    and age_ok: "ok s \<Longrightarrow> ok (age d s)"
begin

lemma memory_append_stores:
  assumes "ok s" and "scalar_str sid" and "0 < am_max_messages m" and "0 < am_ttl_seconds m"
    and "int (length (encode_message msg)) \<le> am_max_message_bytes m"
    and "list_at (holds s (session_memory_key sid)) = Some xs"
  obtains s' where "memory_append M m sid msg s = (Inr (), s')" "ok s'"
    "holds s' = (holds s)(session_memory_key sid \<mapsto> VList (last_n (nat (am_max_messages m)) (xs @ [encode_message msg])))"
    "\<And>d. 0 \<le> d \<Longrightarrow> holds (age d s') (session_memory_key sid)
       = (if d < real_of_int (am_ttl_seconds m)
          then Some (VList (last_n (nat (am_max_messages m)) (xs @ [encode_message msg]))) else None)"
proof -
  let ?r = "ms_append_bounded M (session_memory_key sid) (encode_message msg) (am_max_messages m) (am_ttl_seconds m) s"
  note facts = assms(1) session_key_scalar [OF assms(2)] is_ascii_scalar [OF encode_message_ascii [of msg]]
    assms(3,4)
  have "memory_append M m sid msg s = ?r"
    using assms(5) by (simp add: memory_append_def utf8_encode_ascii encode_message_ascii)
  moreover have "?r = (Inr (), snd ?r)"
    using append_done [OF facts assms(6)] by (metis prod.collapse)
  ultimately show ?thesis
    using that append_ok [OF assms(1)] append_holds [OF facts assms(6)] append_lasts [OF facts _ assms(6)]
    by metis
qed

lemma memory_recent_reads:
  assumes "ok s" and "scalar_str sid" and "0 < am_max_messages m"
    and "list_at (holds s (session_memory_key sid)) = Some (map encode_message msgs)"
    and "list_all scalar_message msgs"
  shows "\<exists>s'. memory_recent M m sid s = (Inr (last_n (nat (am_max_messages m)) msgs), s') \<and> ok s' \<and> holds s' = holds s"
proof -
  let ?r = "ms_get_recent M (session_memory_key sid) (am_max_messages m) s"
  let ?last = "last_n (nat (am_max_messages m)) msgs"
  have "fst ?r = Inr (map encode_message ?last)"
    using recent_done [OF assms(1) session_key_scalar [OF assms(2)] assms(3,4)]
    by (simp add: last_n_def drop_map)
  moreover have "list_all scalar_message ?last"
    using assms(5) by (auto simp: last_n_def list_all_iff dest: in_set_dropD)
  ultimately have "memory_recent M m sid s = (Inr ?last, snd ?r)"
    by (cases ?r) (simp add: memory_recent_def collect_decode del: map_map)
  with recent_pure [OF assms(1)] show ?thesis by blast
qed

end

text \<open>A conversation: before each message the given time passes.\<close>

fun conversation ::
  "'s session_memory_store \<Rightarrow> (real \<Rightarrow> 's \<Rightarrow> 's) \<Rightarrow> agent_memory \<Rightarrow> pystr \<Rightarrow> (real \<times> memory_message) list
     \<Rightarrow> 's \<Rightarrow> 's"
where
  "conversation M age m sid [] s = s"
| "conversation M age m sid ((d, msg) # rest) s =
     conversation M age m sid rest (snd (memory_append M m sid msg (age d s)))"

lemma last_n_append_last_n: "0 < n \<Longrightarrow> last_n n (last_n n xs @ ys) = last_n n (xs @ ys)"
  by (induction ys rule: rev_induct) (simp_all flip: append_assoc, metis last_n_snoc)

definition fits :: "agent_memory \<Rightarrow> memory_message \<Rightarrow> bool" where
  "fits m msg \<longleftrightarrow> scalar_message msg \<and> int (length (encode_message msg)) \<le> am_max_message_bytes m"

context list_store
begin

text \<open>While no pause reaches the time to live, the list is the newest of all the messages.\<close>

lemma conversation_holds:
  assumes "ok s" and "scalar_str sid" and "0 < am_max_messages m" and "0 < am_ttl_seconds m"
    and "list_all (\<lambda>(d, msg). 0 \<le> d \<and> d < real_of_int (am_ttl_seconds m) \<and> fits m msg) talk"
    and "\<And>d. 0 \<le> d \<Longrightarrow> d < real_of_int (am_ttl_seconds m)
      \<Longrightarrow> list_at (holds (age d s) (session_memory_key sid)) = Some (last_n (nat (am_max_messages m)) xs)"
    and "0 \<le> d" and "d < real_of_int (am_ttl_seconds m)"
  shows "ok (conversation M age m sid talk s)
    \<and> list_at (holds (age d (conversation M age m sid talk s)) (session_memory_key sid))
      = Some (last_n (nat (am_max_messages m)) (xs @ map (encode_message \<circ> snd) talk))"
  using assms
proof (induction talk arbitrary: s xs)
  case Nil
  then show ?case by simp
next
  case (Cons a talk)
  obtain e msg where a: "a = (e, msg)" by (cases a)
  let ?n = "nat (am_max_messages m)"
  from Cons.prems(5) a have e: "0 \<le> e" "e < real_of_int (am_ttl_seconds m)" and fit: "fits m msg"
    and rest: "list_all (\<lambda>(d, msg). 0 \<le> d \<and> d < real_of_int (am_ttl_seconds m) \<and> fits m msg) talk"
    by auto
  obtain s' where s': "memory_append M m sid msg (age e s) = (Inr (), s')" "ok s'"
    "\<And>d. 0 \<le> d \<Longrightarrow> holds (age d s') (session_memory_key sid)
       = (if d < real_of_int (am_ttl_seconds m)
          then Some (VList (last_n ?n (last_n ?n xs @ [encode_message msg]))) else None)"
    by (rule memory_append_stores [OF age_ok [OF Cons.prems(1)] Cons.prems(2,3,4) _ Cons.prems(6) [OF e]])
      (use fit in \<open>auto simp: fits_def\<close>)
  have "list_at (holds (age d s') (session_memory_key sid)) = Some (last_n ?n (xs @ [encode_message msg]))"
    if "0 \<le> d" "d < real_of_int (am_ttl_seconds m)" for d
    using s'(3) [OF that(1)] that Cons.prems(3) by (simp add: list_at_def last_n_append_last_n)
  from Cons.IH [OF s'(2) Cons.prems(2-4) rest this Cons.prems(7,8)] show ?case
    by (simp add: a s'(1))
qed

lemma conversation_snoc:
  "conversation M age m sid (talk @ [(e, msg)]) s
    = snd (memory_append M m sid msg (age e (conversation M age m sid talk s)))"
  by (induction M age m sid talk s rule: conversation.induct) simp_all

text \<open>Once the time to live has passed since the last message, the key holds nothing.\<close>

lemma conversation_expires:
  assumes "ok s" and "scalar_str sid" and "0 < am_max_messages m" and "0 < am_ttl_seconds m"
    and "list_all (\<lambda>(d, msg). 0 \<le> d \<and> d < real_of_int (am_ttl_seconds m) \<and> fits m msg) talk"
    and "\<And>d. 0 \<le> d \<Longrightarrow> d < real_of_int (am_ttl_seconds m)
      \<Longrightarrow> list_at (holds (age d s) (session_memory_key sid)) = Some (last_n (nat (am_max_messages m)) xs)"
    and "talk \<noteq> []" and "real_of_int (am_ttl_seconds m) \<le> d"
  shows "ok (conversation M age m sid talk s)
    \<and> holds (age d (conversation M age m sid talk s)) (session_memory_key sid) = None"
proof -
  obtain talk' e msg where t: "talk = talk' @ [(e, msg)]"
    using assms(7) by (metis rev_exhaust surj_pair)
  with assms(5) have talk': "list_all (\<lambda>(d, msg). 0 \<le> d \<and> d < real_of_int (am_ttl_seconds m) \<and> fits m msg) talk'"
    and e: "0 \<le> e" "e < real_of_int (am_ttl_seconds m)" and fit: "fits m msg" by auto
  note before = conversation_holds [OF assms(1-4) talk' assms(6) e]
  obtain s' where "memory_append M m sid msg (age e (conversation M age m sid talk' s)) = (Inr (), s')" "ok s'"
    "\<And>d. 0 \<le> d \<Longrightarrow> d \<ge> real_of_int (am_ttl_seconds m) \<Longrightarrow> holds (age d s') (session_memory_key sid) = None"
    by (rule memory_append_stores [OF age_ok [OF before [THEN conjunct1]] assms(2-4) _ before [THEN conjunct2]])
      (use fit in \<open>auto simp: fits_def\<close>)
  moreover have "0 \<le> d" using assms(4,8) by linarith
  ultimately show ?thesis using assms(8) by (simp add: t conversation_snoc)
qed

end

subsection \<open>The Redis adapter keeps the contract\<close>

lemma slice_last_n: "0 < n \<Longrightarrow> slice (- n) (- 1) xs = last_n (nat n) xs"
proof -
  assume n: "0 < n"
  have d: "nat (max 0 (int (length xs) - n)) = length xs - nat n" using n by auto
  have "xs = []" if "max 0 (int (length xs) - n) > int (length xs) - 1"
    using that n by (cases xs) (auto simp: max_def split: if_splits)
  with d show ?thesis using n by (auto simp: slice_def last_n_def Let_def)
qed

lemma append_bounded_ks:
  assumes "scalar_str key" "scalar_str v" "0 < n" "0 < ttl" "list_at (entry k key) = Some xs"
  shows "memory_append_bounded ks_client key v n ttl k
    = (Inr (), store_at key (Some (VList (last_n (nat n) (xs @ [v])), Some (ks_clock k + real_of_int ttl))) k)"
proof -
  have ne: "last_n (nat n) (xs @ [v]) \<noteq> []" using assms(3) by (simp flip: length_greater_0_conv)
  have live: "(live k key = None \<and> xs = []) \<or> (\<exists>ex. live k key = Some (VList xs, ex) \<and> \<not> expired (ks_clock k) ex)"
    using assms(5) by (auto simp: list_at_def entry_def live_def split: option.splits rvalue.splits if_splits)
  have st: "store_at key a (store_at key b c) = store_at key a c" for a b c
    by (simp add: store_at_def)
  have l: "live (store_at key x k) key = (case x of None \<Rightarrow> None
      | Some (v, ex) \<Rightarrow> if expired (ks_clock k) ex then None else Some (v, ex))" for x
    by (simp add: live_def store_at_def split: option.splits)
  have c: "ks_clock (store_at key x c) = ks_clock c" for x c by (simp add: store_at_def)
  from live show ?thesis
  proof
    assume "live k key = None \<and> xs = []"
    then show ?thesis using assms ne
      by (simp add: memory_append_bounded_def encoded_def ks_rpush_def ks_ltrim_def ks_expire_def l st c
          slice_last_n expired_def)
  next
    assume "\<exists>ex. live k key = Some (VList xs, ex) \<and> \<not> expired (ks_clock k) ex"
    then obtain ex where "live k key = Some (VList xs, ex)" "\<not> expired (ks_clock k) ex" by blast
    then show ?thesis using assms ne
      by (simp add: memory_append_bounded_def encoded_def ks_rpush_def ks_ltrim_def ks_expire_def l st c
          slice_last_n)
  qed
qed

lemma get_recent_ks:
  "scalar_str key \<Longrightarrow> 0 < n \<Longrightarrow> list_at (entry k key) = Some xs
    \<Longrightarrow> memory_get_recent ks_client key n k = (Inr (last_n (nat n) xs), k)"
  by (auto simp: memory_get_recent_def encoded_def ks_lrange_def list_at_def entry_def slice_last_n last_n_def
      split: option.splits rvalue.splits)

lemma get_recent_pure: "snd (memory_get_recent ks_client key n k) = k"
  by (auto simp: memory_get_recent_def encoded_def ks_lrange_def split: option.splits rvalue.splits)

sublocale redis_world \<subseteq> lists: list_store "redis_memory C" up "\<lambda>s. entry (ks s)" age
proof unfold_locales
  fix s key v d n ttl xs
  assume up: "up s"
  obtain g where g: "memory_get_recent C key n s = (fst (memory_get_recent ks_client key n (ks s)), g)"
    "ks g = snd (memory_get_recent ks_client key n (ks s))" "up g"
    using get_recent_obeys up by (rule obeysD)
  obtain a where a: "memory_append_bounded C key v n ttl s
      = (fst (memory_append_bounded ks_client key v n ttl (ks s)), a)"
    "ks a = snd (memory_append_bounded ks_client key v n ttl (ks s))" "up a"
    using append_obeys up by (rule obeysD)
  show "up (snd (ms_append_bounded (redis_memory C) key v n ttl s))" using a by simp
  show "up (snd (ms_get_recent (redis_memory C) key n s))
      \<and> entry (ks (snd (ms_get_recent (redis_memory C) key n s))) = entry (ks s)"
    using g by (simp add: get_recent_pure)
  show "up (age d s)" using age_law up by blast
  assume key: "scalar_str key" and n: "0 < n" and xs: "list_at (entry (ks s) key) = Some xs"
  show "fst (ms_get_recent (redis_memory C) key n s) = Inr (last_n (nat n) xs)"
    using g get_recent_ks [OF key n xs] by simp
  assume v: "scalar_str v" and ttl: "0 < ttl"
  note ks' = append_bounded_ks [OF key v n ttl xs]
  show "fst (ms_append_bounded (redis_memory C) key v n ttl s) = Inr ()" using a ks' by simp
  show "entry (ks (snd (ms_append_bounded (redis_memory C) key v n ttl s)))
      = (entry (ks s))(key \<mapsto> VList (last_n (nat n) (xs @ [v])))"
    using a ks' ttl by (simp add: entry_store_at expired_def)
  assume "0 \<le> d"
  have "ks (age d a) = elapse d (ks a)" using age_law a(3) by blast
  moreover have "ks_data (ks a) key
      = Some (VList (last_n (nat n) (xs @ [v])), Some (ks_clock (ks s) + real_of_int ttl))"
    "ks_clock (ks a) = ks_clock (ks s)"
    using a(2) ks' by (simp_all add: store_at_def)
  ultimately show "entry (ks (age d (snd (ms_append_bounded (redis_memory C) key v n ttl s)))) key
      = (if d < real_of_int ttl then Some (VList (last_n (nat n) (xs @ [v]))) else None)"
    using a(1) by (simp add: entry_elapse_same)
qed

context redis_world
begin

lemma list_laws: "list_store (redis_memory C) up (\<lambda>s. entry (ks s)) age"
  by (rule lists.list_store_axioms)

end

interpretation km: list_store "redis_memory ks_client" "\<lambda>_. True" entry elapse
  using kw.lists.list_store_axioms by simp

end
