(* ===== verification/Cache_Properties.thy ===== *)
theory Cache_Properties
  imports Semantic_Cache Agent_Memory Rate_Properties
begin

text \<open>
  The properties of the key scheme, the semantic cache and the session memory. Those about
  Redis hold for every client that follows \<open>redis_world\<close>; the witnesses take the keyspace.
\<close>

subsection \<open>Keys\<close>

text \<open>
  C29: Redis keys never collide across purposes or arguments. The strings name the purpose and
  its arguments uniquely: documents by their hash, cached responses by theirs, sessions by their
  identifier, rate-limit windows by kind, caller and bucket, also for callers whose names contain
  colons. A prompt's key is never one of another purpose, and two prompts share a key exactly
  when the SHA-256 digests of their normal forms agree.
\<close>

theorem keys_never_collide:
  "(redis_key p = redis_key q \<longleftrightarrow> p = q)
   \<and> (query_key cf x = Inr (redis_key p)
        \<longleftrightarrow> (\<exists>h. hash_text (normalize cf x) = Inr h \<and> p = Cached_Response h))
   \<and> (query_key cf x = query_key cf y \<longleftrightarrow> hash_text (normalize cf x) = hash_text (normalize cf y))"
proof -
  have "query_key cf x = Inr (redis_key p) \<longleftrightarrow> (\<exists>h. hash_text (normalize cf x) = Inr h \<and> p = Cached_Response h)"
    using redis_key_inj [of _ "Cached_Response _"] by (auto simp: query_key_def simp flip: redis_key.simps(2) split: sum.split)
  then show ?thesis by (simp add: query_key_def split: sum.split)
qed

subsection \<open>The semantic cache\<close>

definition demo_cache :: semantic_cache where
  "demo_cache = \<lparr>sc_ttl_seconds = 60, sc_max_bytes = 100\<rparr>"

definition ascii_fold :: "nat \<Rightarrow> pystr" where
  "ascii_fold c = [ascii_lower_char c]"

lemma normalize_hi [simp]: "normalize ascii_fold (u '' Hi '') = [104, 105]" "normalize ascii_fold (u ''hi'') = [104, 105]"
  by (simp_all add: normalize_words split_ws_def u_def is_space_def casefold_def ascii_fold_def
      ascii_lower_char_def)

lemma payload_x: "encode_payload (u ''x'') = u ''{\"response\":\"x\"}''"
  by (simp add: encode_payload_def dumps_def dump_pair_def dump_str_def u_def escape_char_def)

text \<open>
  C14: A cached response is served again. After a successful \<open>set\<close>, any query with the same
  normal form gets exactly the stored response, and counts as a hit, until the time to live
  has passed; from then on it is a miss. Nothing but the time between decides.
\<close>

theorem semantic_cache_roundtrip:
  assumes world: "redis_world C up ks age" and "up s"
    and norm: "normalize cf q' = normalize cf q" "scalar_str (normalize cf q)"
    and resp: "scalar_str r" "int (length (encode_payload r)) \<le> sc_max_bytes c"
    and ttl: "0 < sc_ttl_seconds c" and d: "0 \<le> d"
  shows "\<exists>s1 s2. cache_set (redis_cache C) c cf q r s = (Inr True, s1)
    \<and> cache_get (redis_cache C) cf q' (age d s1) =
      (if d < real_of_int (sc_ttl_seconds c)
       then (Inr (Some (mk_entry r)), s2, [Inc SEMANTIC_CACHE_HITS_TOTAL []])
       else (Inr None, s2, [Inc SEMANTIC_CACHE_MISSES_TOTAL []]))"
proof -
  obtain key where "query_key cf q = Inr key"
    by (rule query_key_cases [of cf q]) (use norm in auto)
  moreover from this norm(1) have "query_key cf q' = Inr key" by (simp add: query_key_def)
  ultimately show ?thesis
    using text_store.cache_roundtrip [OF redis_world.text_laws [OF world]] assms by blast
qed

lemma semantic_cache_roundtrip_witness:
  "\<exists>s1 s2. cache_set (redis_cache ks_client) demo_cache ascii_fold (u '' Hi '') (u ''x'') (empty_ks 0) = (Inr True, s1)
    \<and> cache_get (redis_cache ks_client) ascii_fold (u ''hi'') (elapse 10 s1)
      = (Inr (Some (mk_entry (u ''x''))), s2, [Inc SEMANTIC_CACHE_HITS_TOTAL []])"
proof -
  have "scalar_str (u ''x'')" by (simp add: u_def scalar_str_def is_scalar_def)
  from semantic_cache_roundtrip [OF kw.redis_world_axioms, where s = "empty_ks 0" and cf = ascii_fold
      and q' = "u ''hi''" and q = "u '' Hi ''" and r = "u ''x''" and c = demo_cache and d = 10] this
  show ?thesis by (simp add: scalar_str_def is_scalar_def payload_x demo_cache_def)
qed

text \<open>
  C31: The normal form of a query is its list of folded words and nothing else. When case
  folding keeps the blank and turns no other character into nothing or a blank, two queries
  have the same normal form exactly when their words agree, in order, up to full case folding;
  then they share one cache key, whatever white space surrounds and separates the words.
\<close>

theorem normalize_identifies_folded_words:
  assumes "cf 32 = [32]" and "\<And>c. \<not> is_space c \<Longrightarrow> cf c \<noteq> [] \<and> 32 \<notin> set (cf c)"
  shows "(normalize cf a = normalize cf b
      \<longleftrightarrow> map (casefold cf) (split_ws a) = map (casefold cf) (split_ws b))
    \<and> (map (casefold cf) (split_ws a) = map (casefold cf) (split_ws b) \<longrightarrow> query_key cf a = query_key cf b)"
  using normalize_cong [where cf = cf and a = a and b = b, OF assms(1)] normalize_inj [of cf a b, OF assms] by (auto simp: query_key_def)

lemma normalize_identifies_folded_words_witness:
  "query_key ascii_fold (u ''  What  IS it'') = query_key ascii_fold (u ''what is It  '')
   \<and> normalize ascii_fold (u ''what is'') \<noteq> normalize ascii_fold (u ''whatis'')"
proof -
  have folds: "ascii_fold 32 = [32]" "\<And>c. \<not> is_space c \<Longrightarrow> ascii_fold c \<noteq> [] \<and> 32 \<notin> set (ascii_fold c)"
    by (auto simp: ascii_fold_def ascii_lower_char_def is_space_def split: if_splits)
  have "map (casefold ascii_fold) (split_ws (u ''  What  IS it''))
      = map (casefold ascii_fold) (split_ws (u ''what is It  ''))"
    "map (casefold ascii_fold) (split_ws (u ''what is'')) \<noteq> map (casefold ascii_fold) (split_ws (u ''whatis''))"
    by (simp_all add: split_ws_def u_def is_space_def casefold_def ascii_fold_def ascii_lower_char_def)
  with normalize_identifies_folded_words [of ascii_fold, OF folds] show ?thesis by blast
qed

text \<open>
  C27: Writing one entry disturbs no other. After \<open>set\<close> for one query, whether it succeeds or
  not, another query either has the very same SHA-256 key or reads exactly what it would have
  read before, and the rate-limit counters and the session memories hold what they held.
\<close>

theorem semantic_cache_isolated:
  assumes world: "redis_world C up ks age" and up: "up s" and ttl: "0 < sc_ttl_seconds c"
    and s1_def: "s1 = snd (cache_set (redis_cache C) c cf q r s)"
  shows "(query_key cf q' = query_key cf q
      \<or> fst (cache_get (redis_cache C) cf q' s1) = fst (cache_get (redis_cache C) cf q' s))
    \<and> entry (ks s1) (rate_limit_minute_key v a) = entry (ks s) (rate_limit_minute_key v a)
    \<and> entry (ks s1) (rate_limit_hour_key v a) = entry (ks s) (rate_limit_hour_key v a)
    \<and> entry (ks s1) (session_memory_key sid) = entry (ks s) (session_memory_key sid)"
proof -
  note laws = redis_world.text_laws [OF world]
  from text_store.cache_set_frame [OF laws up ttl, where cf = cf and q = q and r = r]
  have s1: "up s1" and frame: "\<And>k. query_key cf q \<noteq> Inr k \<Longrightarrow> entry (ks s1) k = entry (ks s) k"
    by (auto simp: s1_def)
  have "fst (cache_get (redis_cache C) cf q' s1) = fst (cache_get (redis_cache C) cf q' s)"
    if "query_key cf q' \<noteq> query_key cf q"
    using that by (intro text_store.cache_get_cong [OF laws s1 up] frame) auto
  moreover have other: "query_key cf q \<noteq> Inr k" if "\<And>h. k \<noteq> semantic_cache_key h" for k
    using that query_key_family by blast
  then have "query_key cf q \<noteq> Inr (rate_limit_minute_key v a)"
    "query_key cf q \<noteq> Inr (rate_limit_hour_key v a)" "query_key cf q \<noteq> Inr (session_memory_key sid)"
    by simp_all
  ultimately show ?thesis using frame by blast
qed

lemma semantic_cache_isolated_witness:
  "entry (snd (cache_set (redis_cache ks_client) demo_cache ascii_fold (u ''hi'') (u ''x'') (empty_ks 0)))
     (session_memory_key (u ''s'')) = None"
  using semantic_cache_isolated [OF kw.redis_world_axioms, where s = "empty_ks 0" and c = demo_cache
      and cf = ascii_fold and q = "u ''hi''" and r = "u ''x''" and sid = "u ''s''"]
  by (simp add: demo_cache_def entry_def live_def empty_ks_def)

lemma length_escape_char: "1 \<le> length (escape_char c)"
  by (simp add: escape_char_def hex4_def)

lemma length_dump_str: "length s + 2 \<le> length (dump_str s)"
proof -
  have "length s \<le> length (concat (map escape_char s))"
  proof (induction s)
    case (Cons c s)
    then show ?case using length_escape_char [of c] by simp
  qed simp
  then show ?thesis by (simp add: dump_str_def)
qed

text \<open>
  No entry outgrows the configured size. A response whose JSON payload has more bytes than
  \<open>semantic_cache_max_bytes\<close> makes \<open>set\<close> raise and leaves the store untouched, for any store.
  The payload is ASCII, so its bytes are its characters, and escaping only adds to the length of
  the response: every response of at least the limit is refused.
\<close>

lemma oversized_response_refused:
  assumes "sc_max_bytes c \<le> int (length r)"
  shows "cache_set S c cf q r s = (Inl (ValueError (u ''semantic cache payload exceeds maximum size'')), s)
    \<and> utf8_length (encode_payload r) = length (encode_payload r)
    \<and> length r < length (encode_payload r)"
proof -
  have "length r < length (encode_payload r)"
    using length_dump_str [of r] by (simp add: encode_payload_def dumps_def dump_pair_def)
  with assms show ?thesis
    using utf8_length_ascii [OF encode_payload_ascii [of r]]
    by (simp add: cache_set_def Let_def payload_size)
qed

lemma oversized_response_example:
  "cache_set (redis_cache ks_client) demo_cache ascii_fold (u ''hi'') (replicate 100 97) (empty_ks 0)
    = (Inl (ValueError (u ''semantic cache payload exceeds maximum size'')), empty_ks 0)"
  by (rule oversized_response_refused [THEN conjunct1]) (simp add: demo_cache_def)

text \<open>
  The cache never serves a corrupt entry. Whatever string a store holds at the query's key,
  \<open>get\<close> returns a response only if the string parses as a JSON object whose \<open>"response"\<close> is a
  string, and then it returns that string and counts one hit; otherwise it raises without
  counting a hit or a miss. Parsing always ends with one of the two.
\<close>

lemma corrupt_entry_never_served:
  assumes "query_key cf q = Inr key" and "cs_get S key s = (Inr (Some p), s')"
  shows "cache_get S cf q s =
      (case loads p of
         Inr (JObj kvs) \<Rightarrow>
           (case obj_lookup kvs (u ''response'') of
              Some (JStr r) \<Rightarrow> (Inr (Some (mk_entry r)), s', [Inc SEMANTIC_CACHE_HITS_TOTAL []])
            | _ \<Rightarrow> (Inl (ValueError (u ''invalid semantic cache payload'')), s', []))
       | Inr _ \<Rightarrow> (Inl AttributeError, s', [])
       | Inl e \<Rightarrow> (Inl e, s', []))
    \<and> loads p \<noteq> Inl out_of_fuel"
proof -
  have "decode_payload p =
      (case loads p of
         Inr (JObj kvs) \<Rightarrow>
           (case obj_lookup kvs (u ''response'') of
              Some (JStr r) \<Rightarrow> Inr (mk_entry r)
            | _ \<Rightarrow> Inl (ValueError (u ''invalid semantic cache payload'')))
       | Inr _ \<Rightarrow> Inl AttributeError
       | Inl e \<Rightarrow> Inl e)"
    by (auto simp: decode_payload_def split: sum.split json.split option.split)
  with assms show ?thesis using loads_fuel [of p]
    by (auto simp: cache_get_def split: sum.splits json.splits option.splits)
qed

definition corrupt_ks :: keyspace where
  "corrupt_ks = store_at (semantic_cache_key (sha256_hex [104, 105])) (Some (VStr (u ''[]''), None)) (empty_ks 0)"

lemma query_key_hi: "query_key ascii_fold (u ''hi'') = Inr (semantic_cache_key (sha256_hex [104, 105]))"
  by (simp add: query_key_def hash_text_def utf8_encode_def scalar_str_def is_scalar_def utf8_char_def)

lemma corrupt_entry_example:
  "cache_get (redis_cache ks_client) ascii_fold (u ''hi'') corrupt_ks = (Inl AttributeError, corrupt_ks, [])"
proof -
  have "live corrupt_ks (semantic_cache_key (sha256_hex [104, 105])) = Some (VStr (u ''[]''), None)"
    by (simp add: corrupt_ks_def expired_def)
  then have get: "cs_get (redis_cache ks_client) (semantic_cache_key (sha256_hex [104, 105])) corrupt_ks
      = (Inr (Some (u ''[]'')), corrupt_ks)"
    using semantic_key_scalar by (simp add: adapter_get_def encoded_def ks_get_def)
  have "scan_value (Suc 4) [91, 93] = Inr (JArr [], [])"
    by (simp only: scan_value.simps(2)) simp
  then have "loads (u ''[]'') = Inr (JArr [])" by (simp add: loads_def u_def)
  with corrupt_entry_never_served [OF query_key_hi get] show ?thesis by simp
qed

subsection \<open>The session memory\<close>

definition demo_memory :: agent_memory where
  "demo_memory = \<lparr>am_ttl_seconds = 60, am_max_messages = 1, am_max_message_bytes = 100\<rparr>"

definition msg_a :: memory_message where
  "msg_a = \<lparr>role = u ''user'', msg_content = u ''a''\<rparr>"

definition msg_b :: memory_message where
  "msg_b = \<lparr>role = u ''user'', msg_content = u ''b''\<rparr>"

lemma scalar_message_demo [simp]: "scalar_message msg_a" "scalar_message msg_b"
  by (simp_all add: scalar_message_def msg_a_def msg_b_def u_def scalar_str_def is_scalar_def)

lemma fits_demo [simp]: "fits demo_memory msg_a" "fits demo_memory msg_b"
  by (simp_all add: fits_def) (simp_all add: encode_message_def msg_a_def msg_b_def demo_memory_def
      dumps_def dump_pair_def dump_str_def u_def escape_char_def)

text \<open>
  C16: A session remembers exactly its newest messages, in order. Starting from a session that
  holds nothing, after any conversation of messages within the size limit, no pause of which
  reaches the time to live, \<open>get_recent\<close> returns the last \<open>session_max_messages\<close> of them as they
  were appended; once the time to live has passed since the last append, nothing is left of a
  conversation.
\<close>

theorem memory_keeps_newest:
  assumes world: "redis_world C up ks age" and up: "up s" and sid: "scalar_str sid"
    and m: "0 < am_max_messages m" "0 < am_ttl_seconds m"
    and talk: "list_all (\<lambda>(d, msg). 0 \<le> d \<and> d < real_of_int (am_ttl_seconds m) \<and> fits m msg) talk"
    and empty: "ks_data (ks s) (session_memory_key sid) = None"
    and d: "0 \<le> d"
  shows "fst (memory_recent (redis_memory C) m sid (age d (conversation (redis_memory C) age m sid talk s)))
    = Inr (if d < real_of_int (am_ttl_seconds m) then last_n (nat (am_max_messages m)) (map snd talk) else [])"
proof -
  let ?s = "conversation (redis_memory C) age m sid talk s"
  note laws = redis_world.list_laws [OF world]
  let ?n = "nat (am_max_messages m)"
  have start: "list_at (entry (ks (age d s)) (session_memory_key sid)) = Some (last_n ?n [])" for d
    using redis_world.age_law [OF world up, of d] empty
    by (simp add: list_at_def entry_def live_def elapse_def last_n_def)
  have ok: "up ?s"
    using list_store.conversation_holds [OF laws up sid m talk start, of 0] m by simp
  then have okd: "up (age d ?s)" using redis_world.age_law [OF world] by blast
  show ?thesis
  proof (cases "d < real_of_int (am_ttl_seconds m)")
    case True
    have "list_at (entry (ks (age d ?s)) (session_memory_key sid)) = Some (last_n ?n (map (encode_message \<circ> snd) talk))"
      using list_store.conversation_holds [OF laws up sid m talk start d True] by simp
    moreover have "last_n ?n (map (encode_message \<circ> snd) talk) = map encode_message (last_n ?n (map snd talk))"
      by (simp add: last_n_def drop_map)
    moreover have "list_all scalar_message (map snd talk)"
      using talk by (auto simp: list_all_iff fits_def)
    then have "list_all scalar_message (last_n ?n (map snd talk))"
      by (auto simp: last_n_def list_all_iff dest!: in_set_dropD)
    ultimately have "\<exists>s'. memory_recent (redis_memory C) m sid (age d ?s)
        = (Inr (last_n ?n (last_n ?n (map snd talk))), s')"
      using list_store.memory_recent_reads [OF laws okd sid m(1), of "last_n ?n (map snd talk)"] by auto
    with True show ?thesis by auto
  next
    case False
    have "list_at (entry (ks (age d ?s)) (session_memory_key sid)) = Some (map encode_message [])"
    proof (cases "talk = []")
      case True
      then show ?thesis using start [of d] by (simp add: last_n_def)
    next
      case nonempty: False
      with False list_store.conversation_expires [OF laws up sid m talk start nonempty, of d]
      show ?thesis by (simp add: list_at_def)
    qed
    from list_store.memory_recent_reads [OF laws okd sid m(1) this] False show ?thesis
      by (auto simp: last_n_def)
  qed
qed

lemma memory_keeps_newest_witness:
  "fst (memory_recent (redis_memory ks_client) demo_memory (u ''s'')
      (elapse 5 (conversation (redis_memory ks_client) elapse demo_memory (u ''s'') [(0, msg_a), (59, msg_b)] (empty_ks 0))))
    = Inr [msg_b]"
proof -
  have "scalar_str (u ''s'')" by (simp add: u_def scalar_str_def is_scalar_def)
  from memory_keeps_newest [OF kw.redis_world_axioms _ this, where s = "empty_ks 0" and m = demo_memory
      and talk = "[(0, msg_a), (59, msg_b)]" and d = 5]
  show ?thesis by (simp add: empty_ks_def) (simp add: demo_memory_def last_n_def)
qed

end
