(* ===== verification/Api.thy ===== *)
theory Api
  imports Rate_Limiter Semantic_Cache Gateway
begin

text \<open>
  The request path of the API: authentication (\<open>nexus/security/auth.py\<close>), the rate-limit
  dependency (\<open>nexus/api/dependencies.py\<close>), and the generate and rate-limit routes
  (\<open>nexus/api/routes\<close>). The routes declare \<open>enforce_rate_limit\<close> as a dependency, which in turn
  depends on \<open>require_api_key\<close>; FastAPI runs dependencies before the route and validates the
  body before it calls it.
\<close>

subsection \<open>Authentication\<close>

definition HTTP_503 :: int where "HTTP_503 = 503"
definition HTTP_401 :: int where "HTTP_401 = 401"
definition HTTP_429 :: int where "HTTP_429 = 429"

text \<open>\<open>secrets.compare_digest\<close> on two strings: both must be ASCII, else it raises.\<close>

definition compare_digest :: "pystr \<Rightarrow> pystr \<Rightarrow> bool result" where
  "compare_digest a b =
     (if is_ascii a \<and> is_ascii b then Inr (a = b)
      else Inl (TypeError (u ''comparing strings with non-ASCII characters is not supported'')))"

definition require_api_key :: "settings \<Rightarrow> pystr option \<Rightarrow> pystr result" where
  "require_api_key st x_api_key =
     (case api_key st of
        None \<Rightarrow> Inl (HTTPException HTTP_503 (u ''API authentication is not configured'') [])
      | Some configured \<Rightarrow>
          if configured = [] then Inl (HTTPException HTTP_503 (u ''API authentication is not configured'') [])
          else (case x_api_key of
             None \<Rightarrow> Inl (HTTPException HTTP_401 (u ''Missing API key'') [(u ''WWW-Authenticate'', u ''ApiKey'')])
           | Some given \<Rightarrow>
               (case compare_digest given configured of
                  Inl e \<Rightarrow> Inl e
                | Inr same \<Rightarrow>
                    if \<not> same
                    then Inl (HTTPException HTTP_401 (u ''Invalid API key'') [(u ''WWW-Authenticate'', u ''ApiKey'')])
                    else (case utf8_encode given of Inl e \<Rightarrow> Inl e | Inr bytes \<Rightarrow> Inr (sha256_hex bytes)))))"

subsection \<open>The rate-limit dependency\<close>

text \<open>\<open>request.app.state.rate_limiter\<close>, when it is a \<open>RateLimiter\<close>.\<close>

definition get_rate_limiter :: "rate_limiter option \<Rightarrow> rate_limiter result" where
  "get_rate_limiter attr =
     (case attr of
        None \<Rightarrow> Inl (RuntimeError (u ''rate limiter is not initialized''))
      | Some l \<Rightarrow> Inr l)"

definition limit_headers :: "rate_limit_result \<Rightarrow> (pystr \<times> pystr) list" where
  "limit_headers r =
     [(u ''Retry-After'', str_int (retry_after_seconds r)),
      (u ''X-RateLimit-Limit-Minute'', str_int (minute_limit r)),
      (u ''X-RateLimit-Remaining-Minute'', str_int (max 0 (minute_limit r - minute_count r))),
      (u ''X-RateLimit-Limit-Hour'', str_int (hour_limit r)),
      (u ''X-RateLimit-Remaining-Hour'', str_int (max 0 (hour_limit r - hour_count r)))]"

definition enforce_rate_limit ::
  "'s cache_store \<Rightarrow> settings \<Rightarrow> rate_limiter option \<Rightarrow> pystr option \<Rightarrow> real \<Rightarrow> 's \<Rightarrow> unit result \<times> 's"
where
  "enforce_rate_limit S st attr x_api_key time s =
     (case require_api_key st x_api_key of
        Inl e \<Rightarrow> (Inl e, s)
      | Inr caller_id \<Rightarrow>
          (case get_rate_limiter attr of
             Inl e \<Rightarrow> (Inl e, s)
           | Inr limiter \<Rightarrow>
               (case check S limiter caller_id time s of
                  (Inl e, s') \<Rightarrow> (Inl e, s')
                | (Inr res, s') \<Rightarrow>
                    if allowed res then (Inr (), s')
                    else (Inl (HTTPException HTTP_429 (u ''rate limit exceeded'') (limit_headers res)), s'))))"

text \<open>\<open>GET /v1/rate-limit/check\<close>.\<close>

definition rate_limit_check ::
  "'s cache_store \<Rightarrow> settings \<Rightarrow> rate_limiter option \<Rightarrow> pystr option \<Rightarrow> real \<Rightarrow> 's
     \<Rightarrow> (pystr \<times> pystr) list result \<times> 's"
where
  "rate_limit_check S st attr x_api_key time s =
     (case enforce_rate_limit S st attr x_api_key time s of
        (Inl e, s') \<Rightarrow> (Inl e, s')
      | (Inr _, s') \<Rightarrow> (Inr [(u ''status'', u ''allowed'')], s'))"

subsection \<open>The generate route\<close>

record generate_response =
  gr_content :: pystr
  gr_model :: pystr
  gr_source :: pystr

definition cache_get_span :: pystr where "cache_get_span = u ''semantic_cache.get''"
definition cache_hit_span :: pystr where "cache_hit_span = u ''generate.cache_hit''"
definition llm_span :: pystr where "llm_span = u ''generate.llm''"
definition cache_set_span :: pystr where "cache_set_span = u ''semantic_cache.set''"

text \<open>The lookup: an exception of the cache is recorded on the span and counts as no entry.\<close>

definition lookup_cached ::
  "'s cache_store \<Rightarrow> (nat \<Rightarrow> pystr) \<Rightarrow> pystr \<Rightarrow> 's \<Rightarrow> cache_entry option \<times> 's \<times> effect list"
where
  "lookup_cached S cf p s =
     (case cache_get S cf p s of
        (res, s', es) \<Rightarrow>
          (let (cached, marks) = (case res of
                 Inl e \<Rightarrow> (None, [SpanException cache_get_span e,
                   SpanAttr cache_get_span (u ''cache.hit'') (ABool False),
                   SpanAttr cache_get_span (u ''cache.error'') (ABool True)])
               | Inr None \<Rightarrow> (None, [])
               | Inr (Some c) \<Rightarrow> (Some c, [SpanAttr cache_get_span (u ''cache.hit'') (ABool True)]))
           in (cached, s',
             [SpanStart cache_get_span,
              SpanAttr cache_get_span (u ''cache.key_type'') (AStr (u ''semantic''))]
             @ es @ marks @ [SpanEnd cache_get_span])))"

definition hit_effects :: "effect list" where
  "hit_effects = [SpanStart cache_hit_span,
     SpanAttr cache_hit_span (u ''generate.source'') (AStr (u ''semantic_cache'')),
     SpanAttr cache_hit_span (u ''generate.model'') (AStr (u ''cache'')),
     SpanEnd cache_hit_span]"

text \<open>Storing the response: \<open>suppress(Exception)\<close> drops every failure.\<close>

definition store_response ::
  "'s cache_store \<Rightarrow> semantic_cache \<Rightarrow> (nat \<Rightarrow> pystr) \<Rightarrow> pystr \<Rightarrow> pystr \<Rightarrow> 's \<Rightarrow> 's \<times> effect list"
where
  "store_response S c cf p resp s =
     (snd (cache_set S c cf p resp s),
      [SpanStart cache_set_span,
       SpanAttr cache_set_span (u ''cache.key_type'') (AStr (u ''semantic'')),
       SpanEnd cache_set_span])"

definition cached_response :: "cache_entry \<Rightarrow> generate_response" where
  "cached_response ent =
     \<lparr>gr_content = response ent, gr_model = u ''cache'', gr_source = u ''semantic_cache''\<rparr>"

text \<open>The rest of the route, once the gateway has answered with \<open>res\<close>.\<close>

definition conclude ::
  "'s cache_store \<Rightarrow> semantic_cache \<Rightarrow> (nat \<Rightarrow> pystr) \<Rightarrow> pystr \<Rightarrow> llm_response result \<Rightarrow> 's
     \<Rightarrow> generate_response result \<times> 's \<times> effect list"
where
  "conclude S c cf p res s =
     (case res of
        Inl e \<Rightarrow> (Inl e, s, [SpanEnd llm_span])
      | Inr resp \<Rightarrow>
          (case store_response S c cf p (content resp) s of
             (s', es) \<Rightarrow>
               (Inr \<lparr>gr_content = content resp, gr_model = resp_model resp, gr_source = u ''llm''\<rparr>, s',
                [SpanAttr llm_span (u ''generate.model'') (AStr (resp_model resp)), SpanEnd llm_span] @ es)))"

definition route_generate ::
  "'s cache_store \<Rightarrow> semantic_cache \<Rightarrow> (nat \<Rightarrow> pystr) \<Rightarrow> gateway \<Rightarrow> env \<Rightarrow> pystr \<Rightarrow> 's
     \<Rightarrow> generate_response result \<times> 's \<times> gateway \<times> effect list"
where
  "route_generate S c cf g w p s =
     (case lookup_cached S cf p s of
        (Some cached, s', es) \<Rightarrow> (Inr (cached_response cached), s', g, es @ hit_effects)
      | (None, s', es) \<Rightarrow>
          (let opening = es @ [SpanStart llm_span,
                 SpanAttr llm_span (u ''generate.source'') (AStr (u ''llm''))]
           in case generate g w (mk_request p) of
                (res, g', es') \<Rightarrow>
                  (case conclude S c cf p res s' of
                     (out, s'', es'') \<Rightarrow> (out, s'', g', opening @ es' @ es''))))"

text \<open>\<open>GenerateRequest\<close>: between 1 and 10000 characters.\<close>

definition valid_prompt :: "pystr \<Rightarrow> bool" where
  "valid_prompt p \<longleftrightarrow> 1 \<le> length p \<and> length p \<le> 10000"

definition request_validation_error :: exn where
  "request_validation_error = HTTPException 422 (u ''validation error'') []"

text \<open>The body is an object whose \<open>prompt\<close> is a string of such a length; other keys are ignored.\<close>

definition request_prompt :: "json \<Rightarrow> pystr option" where
  "request_prompt body =
     (case body of
        JObj kvs \<Rightarrow>
          (case is_jstr (obj_lookup kvs (u ''prompt'')) of
             None \<Rightarrow> None
           | Some p \<Rightarrow> (if valid_prompt p then Some p else None))
      | _ \<Rightarrow> None)"

text \<open>\<open>POST /v1/generate\<close>: dependency, validation, route.\<close>

definition post_generate ::
  "'s cache_store \<Rightarrow> settings \<Rightarrow> rate_limiter option \<Rightarrow> semantic_cache \<Rightarrow> (nat \<Rightarrow> pystr) \<Rightarrow> gateway \<Rightarrow> env
     \<Rightarrow> pystr option \<Rightarrow> real \<Rightarrow> json \<Rightarrow> 's \<Rightarrow> generate_response result \<times> 's \<times> gateway \<times> effect list"
where
  "post_generate S st attr c cf g w x_api_key time body s =
     (case enforce_rate_limit S st attr x_api_key time s of
        (Inl e, s') \<Rightarrow> (Inl e, s', g, [])
      | (Inr _, s') \<Rightarrow>
          (case request_prompt body of
             Some p \<Rightarrow> route_generate S c cf g w p s'
           | None \<Rightarrow> (Inl request_validation_error, s', g, [])))"

end
