(* ===== verification/Api_Properties.thy ===== *)
theory Api_Properties
  imports Api Cache_Properties Gateway_Properties
begin

text \<open>
  The properties of the request path: who is let in, what a refused request leaves untouched,
  and how the cache and the language model answer together.
\<close>

subsection \<open>Authentication\<close>

text \<open>
  C23: Exactly the configured key opens the API. The dependency returns an identity iff a
  non-empty key is configured, the header carries that very key, and it is ASCII; the identity
  is the SHA-256 digest, 64 hexadecimal digits, never the key itself unless that is such a
  digest. Without a configured key every request gets 503, without a header 401, and with
  another ASCII key 401.
\<close>

theorem only_the_key_authenticates:
  "(require_api_key st h = Inr caller \<longleftrightarrow>
      (\<exists>key. api_key st = Some key \<and> key \<noteq> [] \<and> h = Some key \<and> is_ascii key \<and> caller = sha256_hex key))
   \<and> length (sha256_hex bs) = 64 \<and> (\<forall>x \<in> set (sha256_hex bs). is_hex x)
   \<and> (api_key st \<in> {None, Some []} \<longleftrightarrow>
      require_api_key st h = Inl (HTTPException 503 (u ''API authentication is not configured'') []))
   \<and> (\<forall>key. api_key st = Some key \<longrightarrow> key \<noteq> [] \<longrightarrow>
        require_api_key st None = Inl (HTTPException 401 (u ''Missing API key'') [(u ''WWW-Authenticate'', u ''ApiKey'')])
        \<and> (\<forall>given. is_ascii given \<longrightarrow> is_ascii key \<longrightarrow> given \<noteq> key \<longrightarrow> require_api_key st (Some given)
             = Inl (HTTPException 401 (u ''Invalid API key'') [(u ''WWW-Authenticate'', u ''ApiKey'')])))"
proof -
  have "require_api_key st h = Inr caller \<longleftrightarrow>
      (\<exists>key. api_key st = Some key \<and> key \<noteq> [] \<and> h = Some key \<and> is_ascii key \<and> caller = sha256_hex key)"
    by (auto simp: require_api_key_def compare_digest_def utf8_encode_ascii
        split: option.splits if_splits)
  moreover have "api_key st \<in> {None, Some []} \<longleftrightarrow>
      require_api_key st h = Inl (HTTPException 503 (u ''API authentication is not configured'') [])"
    by (auto simp: require_api_key_def compare_digest_def utf8_encode_ascii HTTP_503_def HTTP_401_def
        split: option.splits if_splits)
  moreover have "\<forall>x \<in> set (sha256_hex bs). is_hex x" using sha256_hex_hex by blast
  ultimately show ?thesis
    by (auto simp: require_api_key_def compare_digest_def HTTP_401_def)
qed

definition keyed :: "pystr \<Rightarrow> settings" where
  "keyed k = default_settings\<lparr>api_key := Some k\<rparr>"

lemma only_the_key_authenticates_witness:
  "require_api_key (keyed (u ''k1'')) (Some (u ''k1'')) = Inr (sha256_hex (u ''k1''))
   \<and> require_api_key (keyed (u ''k1'')) (Some (u ''k2''))
      = Inl (HTTPException 401 (u ''Invalid API key'') [(u ''WWW-Authenticate'', u ''ApiKey'')])"
  using only_the_key_authenticates [of "keyed (u ''k1'')" "Some (u ''k1'')" "sha256_hex (u ''k1'')" "[]"]
  by (simp add: keyed_def is_ascii_def u_def)

text \<open>
  A header outside ASCII is not refused with 401 but crashes the check: as soon as the given
  or the configured key contains a non-ASCII character, the comparison raises \<open>TypeError\<close>, which
  no handler turns into an HTTP error, and with such a configured key no request can succeed.
\<close>

lemma non_ascii_key_crashes:
  assumes "api_key st = Some key" and "key \<noteq> []" and "\<not> is_ascii key \<or> \<not> is_ascii given"
  shows "require_api_key st (Some given)
      = Inl (TypeError (u ''comparing strings with non-ASCII characters is not supported''))
    \<and> (\<not> is_ascii key \<longrightarrow> (\<forall>h. \<exists>e. require_api_key st h = Inl e))"
  using assms by (auto simp: require_api_key_def compare_digest_def split: option.split)

lemma non_ascii_key_crashes_example:
  "require_api_key (keyed (u ''k1'')) (Some [233])
    = Inl (TypeError (u ''comparing strings with non-ASCII characters is not supported''))"
proof -
  have "api_key (keyed (u ''k1'')) = Some (u ''k1'')" "u ''k1'' \<noteq> []"
    "\<not> is_ascii (u ''k1'') \<or> \<not> is_ascii [233]"
    by (simp_all add: keyed_def is_ascii_def)
  from non_ascii_key_crashes [OF this] show ?thesis by blast
qed

subsection \<open>Refused requests\<close>

text \<open>
  A refused request does no work. If authentication fails, the store and the gateway are
  exactly as before; if the limiter refuses, only rate-limit increments happened, no provider
  is called, no cache entry is read or written, and the client gets 429 with a positive
  \<open>Retry-After\<close>; if the body is invalid, no provider is called either. None of them leaves
  any metric or span of the generate route.
\<close>

lemma refused_request_does_nothing:
  assumes "post_generate S st attr c cf g w x_api_key time body s = (res, s', g', es)"
  shows "(\<forall>e. require_api_key st x_api_key = Inl e \<longrightarrow> res = Inl e \<and> s' = s \<and> g' = g \<and> es = [])
    \<and> (\<forall>caller l r s1. require_api_key st x_api_key = Inr caller \<longrightarrow> attr = Some l
         \<longrightarrow> check S l caller time s = (Inr r, s1) \<longrightarrow> \<not> allowed r \<longrightarrow>
         res = Inl (HTTPException 429 (u ''rate limit exceeded'') (limit_headers r))
         \<and> 0 < retry_after_seconds r \<and> s' = s1 \<and> g' = g \<and> es = [])
    \<and> (request_prompt body = None \<longrightarrow> (\<exists>e. res = Inl e) \<and> g' = g \<and> es = [])"
  using assms check_refused_wait [of S _ _ time s]
  by (auto simp: post_generate_def enforce_rate_limit_def get_rate_limiter_def HTTP_429_def
      split: sum.splits prod.splits if_splits option.splits)

lemma refused_request_example:
  "fst (post_generate (redis_cache ks_client) (keyed (u ''k1'')) (Some tight_limiter) demo_cache ascii_fold
      demo_gateway (quiet_env limited_then_ok) None 30 JNull (empty_ks 30))
    = Inl (HTTPException 401 (u ''Missing API key'') [(u ''WWW-Authenticate'', u ''ApiKey'')])"
proof -
  have "require_api_key (keyed (u ''k1'')) None
      = Inl (HTTPException 401 (u ''Missing API key'') [(u ''WWW-Authenticate'', u ''ApiKey'')])"
    by (simp add: require_api_key_def keyed_def HTTP_401_def)
  moreover obtain res s' g' es where "post_generate (redis_cache ks_client) (keyed (u ''k1''))
      (Some tight_limiter) demo_cache ascii_fold demo_gateway (quiet_env limited_then_ok) None 30 JNull
      (empty_ks 30) = (res, s', g', es)" by (metis prod_cases4)
  ultimately show ?thesis using refused_request_does_nothing by fastforce
qed

subsection \<open>The cache and the model together\<close>

lemma called_cache_get: "called (snd (snd (cache_get S cf q s))) = []"
  by (auto simp: cache_get_def split: sum.splits prod.splits option.splits)

lemma lookup_cached_cases:
  obtains ent s' es where "lookup_cached S cf p s = (Some ent, s', es)" "called es = []"
      "fst (cache_get S cf p s) = Inr (Some ent)" "s' = fst (snd (cache_get S cf p s))"
  | s' es where "lookup_cached S cf p s = (None, s', es)" "called es = []"
      "\<forall>ent. fst (cache_get S cf p s) \<noteq> Inr (Some ent)" "s' = fst (snd (cache_get S cf p s))"
proof -
  obtain res s' es where g: "cache_get S cf p s = (res, s', es)" by (metis prod_cases3)
  with called_cache_get [of S cf p s] have "called es = []" by simp
  note facts = g this
  show ?thesis
  proof (cases res)
    case (Inl e)
    with facts show ?thesis by (auto simp: lookup_cached_def Let_def intro: that)
  next
    case (Inr b)
    with facts show ?thesis
      by (cases b) (auto simp: lookup_cached_def Let_def intro: that)
  qed
qed

lemma route_cases:
  "(\<exists>ent es. fst (cache_get S cf p s) = Inr (Some ent)
      \<and> route_generate S c cf g w p s
        = (Inr \<lparr>gr_content = response ent, gr_model = u ''cache'', gr_source = u ''semantic_cache''\<rparr>,
           fst (snd (cache_get S cf p s)), g, es)
      \<and> called es = [])
   \<or> ((\<forall>ent. fst (cache_get S cf p s) \<noteq> Inr (Some ent))
      \<and> (\<exists>s' es. route_generate S c cf g w p s
        = ((case fst (generate g w (mk_request p)) of
              Inl e \<Rightarrow> Inl e
            | Inr resp \<Rightarrow> Inr \<lparr>gr_content = content resp, gr_model = resp_model resp, gr_source = u ''llm''\<rparr>),
           s', fst (snd (generate g w (mk_request p))), es)
        \<and> called es = called (snd (snd (generate g w (mk_request p))))))"
proof (cases rule: lookup_cached_cases [of S cf p s])
  case (1 ent s' es)
  then show ?thesis by (auto simp: route_generate_def conclude_def cached_response_def hit_effects_def)
next
  case (2 s' es)
  obtain res g' es' where "generate g w (mk_request p) = (res, g', es')" by (metis prod_cases3)
  with 2 show ?thesis
    by (cases res) (auto simp: route_generate_def conclude_def cached_response_def Let_def store_response_def)
qed

text \<open>
  C6: The cache can neither break nor delay a request into failure. Whatever the store does,
  raising at any operation or answering anything, the generate route either serves a cached
  response, without calling a provider and leaving the gateway untouched, or its result is
  exactly the gateway's: the same content and model, or the same exception, with exactly the
  gateway's provider calls and the gateway's new state.
\<close>

theorem cache_failures_are_invisible:
  "(\<exists>ent es. fst (cache_get S cf p s) = Inr (Some ent)
      \<and> route_generate S c cf g w p s
        = (Inr \<lparr>gr_content = response ent, gr_model = u ''cache'', gr_source = u ''semantic_cache''\<rparr>,
           fst (snd (cache_get S cf p s)), g, es)
      \<and> called es = [])
   \<or> ((\<forall>ent. fst (cache_get S cf p s) \<noteq> Inr (Some ent))
      \<and> (\<exists>s' es. route_generate S c cf g w p s
        = ((case fst (generate g w (mk_request p)) of
              Inl e \<Rightarrow> Inl e
            | Inr resp \<Rightarrow> Inr \<lparr>gr_content = content resp, gr_model = resp_model resp, gr_source = u ''llm''\<rparr>),
           s', fst (snd (generate g w (mk_request p))), es)
        \<and> called es = called (snd (snd (generate g w (mk_request p))))))"
  by (rule route_cases)

text \<open>
  C18: A prompt is paid for once. If a request was answered by the language model, its content
  is encodable and its payload within the size limit, then any request whose prompt has the
  same normal form and that arrives within the time to live is answered from the cache with the
  same content, without any provider call and without touching the gateway.
\<close>

theorem repeated_prompt_served_from_cache:
  assumes world: "redis_world C up ks age" and up: "up s"
    and first: "route_generate (redis_cache C) c cf g w p s = (Inr res1, s1, g1, es1)" "gr_source res1 = u ''llm''"
    and norm: "normalize cf p' = normalize cf p" "scalar_str (normalize cf p)"
    and resp: "scalar_str (gr_content res1)" "int (length (encode_payload (gr_content res1))) \<le> sc_max_bytes c"
    and d: "0 \<le> d" "d < real_of_int (sc_ttl_seconds c)"
  shows "\<exists>s2 es2. route_generate (redis_cache C) c cf g1 w' p' (age d s1)
      = (Inr \<lparr>gr_content = gr_content res1, gr_model = u ''cache'', gr_source = u ''semantic_cache''\<rparr>, s2, g1, es2)
    \<and> called es2 = []"
proof -
  note laws = redis_world.text_laws [OF world]
  obtain key where key: "query_key cf p = Inr key" "query_key cf p' = Inr key"
    by (rule query_key_cases [of cf p]) (use norm in \<open>auto simp: query_key_def\<close>)
  obtain s' where s': "s' = fst (snd (cache_get (redis_cache C) cf p s))" by blast
  have "up s'"
    using text_store.get_pure [OF laws up, of key] key
    by (auto simp: s' cache_get_def split: sum.splits prod.splits option.splits)
  have "gr_content res1 = content resp \<and> s1 = snd (cache_set (redis_cache C) c cf p (content resp) s')"
    if "fst (generate g w (mk_request p)) = Inr resp" for resp
    using first that by (cases rule: lookup_cached_cases [of "redis_cache C" cf p s])
      (auto simp: route_generate_def conclude_def cached_response_def Let_def store_response_def s' split: prod.splits)
  moreover have "\<exists>resp. fst (generate g w (mk_request p)) = Inr resp"
    using first by (cases rule: lookup_cached_cases [of "redis_cache C" cf p s])
      (auto simp: route_generate_def conclude_def cached_response_def Let_def split: prod.splits sum.splits)
  ultimately have s1: "s1 = snd (cache_set (redis_cache C) c cf p (gr_content res1) s')" by auto
  have "0 < sc_ttl_seconds c" using d by linarith
  from text_store.cache_roundtrip [OF laws \<open>up s'\<close> key this resp(2,1) d(1)] d(2) s1
  have "fst (cache_get (redis_cache C) cf p' (age d s1)) = Inr (Some (mk_entry (gr_content res1)))" by auto
  with route_cases [of "redis_cache C" cf p' "age d s1" c g1 w'] show ?thesis
    by (auto simp: mk_entry_def)
qed

lemma demo_first_lookup: "fst (cache_get (redis_cache ks_client) ascii_fold (u '' Hi '') (empty_ks 0)) = Inr None"
proof -
  let ?key = "semantic_cache_key (sha256_hex [104, 105])"
  have "query_key ascii_fold (u '' Hi '') = query_key ascii_fold (u ''hi'')"
    by (simp add: query_key_def)
  then have "query_key ascii_fold (u '' Hi '') = Inr ?key" using query_key_hi by simp
  moreover have "entry (empty_ks 0) ?key = None" by (simp add: entry_def live_def empty_ks_def)
  ultimately obtain s' where
    "cache_get (redis_cache ks_client) ascii_fold (u '' Hi '') (empty_ks 0)
      = (Inr None, s', [Inc SEMANTIC_CACHE_MISSES_TOTAL []])"
    using kw.texts.cache_get_miss [where s = "empty_ks 0" and cf = ascii_fold and q = "u '' Hi ''" and key = ?key] by blast
  then show ?thesis by simp
qed

lemma repeated_prompt_served_from_cache_witness:
  "\<exists>s1 g1 es1 s2 es2. route_generate (redis_cache ks_client) demo_cache ascii_fold demo_gateway
      (quiet_env limited_then_ok) (u '' Hi '') (empty_ks 0)
    = (Inr \<lparr>gr_content = u ''hi'', gr_model = u ''demo-model'', gr_source = u ''llm''\<rparr>, s1, g1, es1)
   \<and> route_generate (redis_cache ks_client) demo_cache ascii_fold g1 (quiet_env limited_then_ok) (u ''hi'') (elapse 10 s1)
    = (Inr \<lparr>gr_content = u ''hi'', gr_model = u ''cache'', gr_source = u ''semantic_cache''\<rparr>, s2, g1, es2)
   \<and> called es2 = []"
proof -
  obtain s1 g1 es1 where first: "route_generate (redis_cache ks_client) demo_cache ascii_fold demo_gateway
      (quiet_env limited_then_ok) (u '' Hi '') (empty_ks 0)
    = (Inr \<lparr>gr_content = u ''hi'', gr_model = u ''demo-model'', gr_source = u ''llm''\<rparr>, s1, g1, es1)"
    using route_cases [of "redis_cache ks_client" ascii_fold "u '' Hi ''" "empty_ks 0" demo_cache demo_gateway
        "quiet_env limited_then_ok"]
    by (auto simp: demo_first_lookup demo_generate demo_response_def)
  have "scalar_str (u ''hi'')" "int (length (encode_payload (u ''hi''))) \<le> 100"
    by (simp_all add: u_def scalar_str_def is_scalar_def encode_payload_def dumps_def dump_pair_def
        dump_str_def escape_char_def)
  with repeated_prompt_served_from_cache [OF kw.redis_world_axioms _ first, where p' = "u ''hi''" and d = 10
      and w' = "quiet_env limited_then_ok"] first
  show ?thesis by (simp add: demo_cache_def scalar_str_def is_scalar_def)
qed

end
