(* ===== verification/Http_Pool.thy ===== *)
theory Http_Pool
  imports Json Llm_Types
begin

text \<open>
  The shared HTTP client pool of \<open>nexus/llm/http/client.py\<close>. The HTTP library (\<open>httpx\<close>) is not
  part of the program: what a sent request yields is a parameter \<open>send\<close>. Of its client the code
  relies on one documented fact: a client that was closed refuses every further request.
\<close>

subsection \<open>Requests and what they yield\<close>

record http_request =
  hr_url :: pystr
  hr_headers :: "(pystr \<times> pystr) list"
  hr_params :: "(pystr \<times> pystr) list"
  hr_json :: json

text \<open>\<open>body_json\<close> is what \<open>response.json()\<close> returns or raises.\<close>

record http_response =
  status_code :: int
  body_json :: "json result"

text \<open>A response, an \<open>httpx.TimeoutException\<close>, another \<open>httpx.RequestError\<close> with its text, or
  any other exception.\<close>

datatype http_outcome = Responded http_response | Timed_Out | Request_Failed pystr | Raised exn

record http_client =
  hc_timeout_seconds :: real
  hc_max_connections :: int
  hc_max_keepalive_connections :: int
  hc_closed :: bool

definition closed_client_error :: exn where
  "closed_client_error = RuntimeError (u ''Cannot send a request, as the client has been closed.'')"

text \<open>What the network answers depends on the client, whose timeout and limits apply.\<close>

type_synonym network = "http_client \<Rightarrow> http_request \<Rightarrow> http_outcome"

definition client_post :: "http_client \<Rightarrow> network \<Rightarrow> http_request \<Rightarrow> http_outcome" where
  "client_post client send r = (if hc_closed client then Raised closed_client_error else send client r)"

text \<open>\<open>httpx.AsyncClient(timeout=t)\<close>: the library's default limits.\<close>

definition own_client :: "real \<Rightarrow> http_client" where
  "own_client timeout = \<lparr>hc_timeout_seconds = timeout, hc_max_connections = 100,
     hc_max_keepalive_connections = 20, hc_closed = False\<rparr>"

subsection \<open>\<open>HTTPClientPool\<close>\<close>

record http_pool =
  hp_client :: http_client
  hp_started :: bool

definition new_http_pool :: "real \<Rightarrow> int \<Rightarrow> int \<Rightarrow> http_pool result" where
  "new_http_pool timeout_seconds max_connections max_keepalive_connections =
     (if timeout_seconds \<le> 0 then Inl (ValueError (u ''timeout_seconds must be positive''))
      else if max_connections \<le> 0 then Inl (ValueError (u ''max_connections must be positive''))
      else if max_keepalive_connections \<le> 0
      then Inl (ValueError (u ''max_keepalive_connections must be positive''))
      else if max_keepalive_connections > max_connections
      then Inl (ValueError (u ''max_keepalive_connections must not exceed max_connections''))
      else Inr \<lparr>hp_client = \<lparr>hc_timeout_seconds = timeout_seconds, hc_max_connections = max_connections,
                 hc_max_keepalive_connections = max_keepalive_connections, hc_closed = False\<rparr>,
               hp_started = False\<rparr>)"

definition pool_client :: "http_pool \<Rightarrow> http_client result" where
  "pool_client p =
     (if \<not> hp_started p then Inl (RuntimeError (u ''HTTP client pool has not been started''))
      else Inr (hp_client p))"

definition is_started :: "http_pool \<Rightarrow> bool" where
  "is_started p = hp_started p"

definition pool_start :: "http_pool \<Rightarrow> http_pool" where
  "pool_start p = (if hp_started p then p else p\<lparr>hp_started := True\<rparr>)"

definition aclose :: "http_client \<Rightarrow> http_client" where
  "aclose client = client\<lparr>hc_closed := True\<rparr>"

definition pool_close :: "http_pool \<Rightarrow> http_pool" where
  "pool_close p =
     (if \<not> hp_started p then p\<lparr>hp_client := aclose (hp_client p)\<rparr>
      else p\<lparr>hp_client := aclose (hp_client p), hp_started := False\<rparr>)"

definition pool_post :: "http_pool \<Rightarrow> network \<Rightarrow> http_request \<Rightarrow> http_outcome" where
  "pool_post p send r =
     (case pool_client p of Inl e \<Rightarrow> Raised e | Inr client \<Rightarrow> client_post client send r)"

end
