(* ===== verification/Providers.thy ===== *)
theory Providers
  imports Http_Pool
begin

text \<open>
  The providers of \<open>nexus/llm/providers\<close>: Groq and Mistral (chat completions), Gemini, and the
  fake provider. Each HTTP provider builds its request, posts it through the shared pool or a
  client of its own, classifies the status code, and digs the content out of the parsed body;
  the body is any JSON value, indexed as Python indexes it.
\<close>

subsection \<open>Indexing a JSON value\<close>

text \<open>\<open>v["k"]\<close>, \<open>v[0]\<close> and \<open>bool(v)\<close>.\<close>

fun item :: "json \<Rightarrow> pystr \<Rightarrow> json result" where
  "item (JObj kvs) k = (case obj_lookup kvs k of None \<Rightarrow> Inl KeyError | Some v \<Rightarrow> Inr v)"
| "item _ k = Inl (TypeError (u ''indices must be integers or slices, not str''))"

fun first_item :: "json \<Rightarrow> json result" where
  "first_item (JArr []) = Inl IndexError"
| "first_item (JArr (v # vs)) = Inr v"
| "first_item (JStr []) = Inl IndexError"
| "first_item (JStr (c # cs)) = Inr (JStr [c])"
| "first_item (JObj kvs) = Inl KeyError"
| "first_item _ = Inl (TypeError (u ''object is not subscriptable''))"

fun truthy :: "json \<Rightarrow> bool" where
  "truthy JNull = False"
| "truthy (JBool b) = b"
| "truthy (JInt n) = (n \<noteq> 0)"
| "truthy (JFloat r) = (r \<noteq> 0)"
| "truthy (JNonFinite s) = True"
| "truthy (JStr s) = (s \<noteq> [])"
| "truthy (JArr vs) = (vs \<noteq> [])"
| "truthy (JObj kvs) = (kvs \<noteq> [])"

fun is_list :: "json \<Rightarrow> bool" where
  "is_list (JArr vs) = True"
| "is_list _ = False"

text \<open>\<open>except (KeyError, IndexError, TypeError)\<close>.\<close>

fun is_access_error :: "exn \<Rightarrow> bool" where
  "is_access_error KeyError = True"
| "is_access_error IndexError = True"
| "is_access_error (TypeError m) = True"
| "is_access_error _ = False"

lemma item_error: "item v k = Inl e \<Longrightarrow> is_access_error e"
  by (cases "(v, k)" rule: item.cases) (auto split: option.splits)

lemma first_item_error: "first_item v = Inl e \<Longrightarrow> is_access_error e"
  by (cases v rule: first_item.cases) auto

subsection \<open>Posting\<close>

text \<open>With a pool: start it if need be and post on its client. Without: a client of one's own,
  with the provider's timeout.\<close>

definition provider_post ::
  "network \<Rightarrow> real \<Rightarrow> http_pool option \<Rightarrow> http_request \<Rightarrow> http_outcome \<times> http_pool option"
where
  "provider_post send timeout pool r =
     (case pool of
        None \<Rightarrow> (client_post (own_client timeout) send r, None)
      | Some p \<Rightarrow>
          (let p' = (if is_started p then p else pool_start p)
           in case pool_client p' of
                Inl e \<Rightarrow> (Raised e, Some p')
              | Inr client \<Rightarrow> (client_post client send r, Some p')))"

text \<open>The fields of \<open>GroqLLMProvider\<close> and \<open>MistralLLMProvider\<close>.\<close>

record chat_provider =
  cp_api_key :: pystr
  cp_model :: pystr
  cp_timeout_seconds :: real

subsection \<open>Groq\<close>

text \<open>\<open>GroqLLMProvider\<close>.\<close>

definition new_groq :: "pystr \<Rightarrow> pystr \<Rightarrow> real \<Rightarrow> chat_provider result" where
  "new_groq key model timeout =
     (if strip key = [] then Inl (ValueError (u ''Groq API key must not be empty''))
      else if timeout \<le> 0 then Inl (ValueError (u ''Groq timeout must be positive''))
      else Inr \<lparr>cp_api_key = key, cp_model = model, cp_timeout_seconds = timeout\<rparr>)"

definition groq_name :: pystr where [simp]:
  "groq_name = u ''groq''"

definition groq_url :: pystr where
  "groq_url = u ''https://api.groq.com/openai/v1/chat/completions''"

definition groq_request :: "chat_provider \<Rightarrow> llm_request \<Rightarrow> http_request" where
  "groq_request P req = \<lparr>hr_url = groq_url,
     hr_headers = [(u ''Authorization'', u ''Bearer '' @ cp_api_key P),
                   (u ''Content-Type'', u ''application/json'')],
     hr_params = [],
     hr_json = JObj [(u ''model'', JStr (cp_model P)),
       (u ''messages'', JArr [JObj [(u ''role'', JStr (u ''user'')), (u ''content'', JStr (prompt req))]])]\<rparr>"

definition groq_raise_for_status :: "int \<Rightarrow> unit result" where
  "groq_raise_for_status status =
     (if status \<in> {401, 403}
      then Inl (LLMProviderAuthenticationError (u ''Groq authentication failed''))
      else if status = 429
      then Inl (LLMProviderRateLimitError (u ''Groq rate limit exceeded''))
      else if status \<in> {500, 502, 503, 504}
      then Inl (LLMProviderUnavailableError (u ''Groq service is temporarily unavailable''))
      else if status \<ge> 400
      then Inl (LLMProviderError (u ''Groq provider request failed with HTTP '' @ str_int status))
      else Inr ())"

text \<open>The first \<open>try\<close> after the body was parsed: the content of the first choice.\<close>

definition groq_content :: "json \<Rightarrow> json result" where
  "groq_content data =
     (case item data (u ''choices'') of
        Inl e \<Rightarrow> Inl e
      | Inr choices \<Rightarrow>
          if \<not> is_list choices \<or> \<not> truthy choices
          then Inl (LLMProviderResponseError (u ''Groq returned no choices''))
          else (case first_item choices of
             Inl e \<Rightarrow> Inl e
           | Inr choice \<Rightarrow>
               (case item choice (u ''message'') of
                  Inl e \<Rightarrow> Inl e
                | Inr message \<Rightarrow> item message (u ''content''))))"

definition groq_parse :: "chat_provider \<Rightarrow> http_response \<Rightarrow> llm_response result" where
  "groq_parse P r =
     (case groq_raise_for_status (status_code r) of
        Inl e \<Rightarrow> Inl e
      | Inr _ \<Rightarrow>
          (case body_json r of
             Inl e \<Rightarrow>
               (if is_value_error e then Inl (LLMProviderResponseError (u ''Groq returned invalid JSON''))
                else Inl e)
           | Inr data \<Rightarrow>
               (case groq_content data of
                  Inl e \<Rightarrow>
                    (if is_access_error e
                     then Inl (LLMProviderResponseError (u ''Groq returned an unexpected response format''))
                     else Inl e)
                | Inr (JStr body) \<Rightarrow> Inr (mk_response body (cp_model P))
                | Inr _ \<Rightarrow> Inl (LLMProviderResponseError (u ''Groq response content is not a string'')))))"

definition groq_generate ::
  "chat_provider \<Rightarrow> network \<Rightarrow> http_pool option \<Rightarrow> llm_request
     \<Rightarrow> llm_response result \<times> http_pool option"
where
  "groq_generate P send pool req =
     (case provider_post send (cp_timeout_seconds P) pool (groq_request P req) of
        (outcome, pool') \<Rightarrow>
          (case outcome of
             Timed_Out \<Rightarrow> Inl (LLMProviderTimeoutError (u ''Groq request timed out''))
           | Request_Failed m \<Rightarrow>
               Inl (LLMProviderUnavailableError (u ''Groq network request failed: '' @ m))
           | Raised e \<Rightarrow> Inl e
           | Responded r \<Rightarrow> groq_parse P r,
           pool'))"

subsection \<open>Mistral\<close>

text \<open>\<open>MistralLLMProvider\<close>.\<close>

definition new_mistral :: "pystr \<Rightarrow> pystr \<Rightarrow> real \<Rightarrow> chat_provider result" where
  "new_mistral key model timeout =
     (if strip key = [] then Inl (ValueError (u ''Mistral API key must not be empty''))
      else if timeout \<le> 0 then Inl (ValueError (u ''Mistral timeout must be positive''))
      else Inr \<lparr>cp_api_key = key, cp_model = model, cp_timeout_seconds = timeout\<rparr>)"

definition mistral_name :: pystr where [simp]:
  "mistral_name = u ''mistral''"

definition mistral_url :: pystr where
  "mistral_url = u ''https://api.mistral.ai/v1/chat/completions''"

definition mistral_request :: "chat_provider \<Rightarrow> llm_request \<Rightarrow> http_request" where
  "mistral_request P req = \<lparr>hr_url = mistral_url,
     hr_headers = [(u ''Authorization'', u ''Bearer '' @ cp_api_key P),
                   (u ''Content-Type'', u ''application/json'')],
     hr_params = [],
     hr_json = JObj [(u ''model'', JStr (cp_model P)),
       (u ''messages'', JArr [JObj [(u ''role'', JStr (u ''user'')), (u ''content'', JStr (prompt req))]])]\<rparr>"

definition mistral_raise_for_status :: "int \<Rightarrow> unit result" where
  "mistral_raise_for_status status =
     (if status \<in> {401, 403}
      then Inl (LLMProviderAuthenticationError (u ''Mistral authentication failed''))
      else if status = 429
      then Inl (LLMProviderRateLimitError (u ''Mistral rate limit exceeded''))
      else if status \<in> {500, 502, 503, 504}
      then Inl (LLMProviderUnavailableError (u ''Mistral service is temporarily unavailable''))
      else if status \<ge> 400
      then Inl (LLMProviderError (u ''Mistral provider request failed with HTTP '' @ str_int status))
      else Inr ())"

text \<open>The first \<open>try\<close> after the body was parsed: the content of the first choice.\<close>

definition mistral_content :: "json \<Rightarrow> json result" where
  "mistral_content data =
     (case item data (u ''choices'') of
        Inl e \<Rightarrow> Inl e
      | Inr choices \<Rightarrow>
          if \<not> is_list choices \<or> \<not> truthy choices
          then Inl (LLMProviderResponseError (u ''Mistral returned no choices''))
          else (case first_item choices of
             Inl e \<Rightarrow> Inl e
           | Inr choice \<Rightarrow>
               (case item choice (u ''message'') of
                  Inl e \<Rightarrow> Inl e
                | Inr message \<Rightarrow> item message (u ''content''))))"

definition mistral_parse :: "chat_provider \<Rightarrow> http_response \<Rightarrow> llm_response result" where
  "mistral_parse P r =
     (case mistral_raise_for_status (status_code r) of
        Inl e \<Rightarrow> Inl e
      | Inr _ \<Rightarrow>
          (case body_json r of
             Inl e \<Rightarrow>
               (if is_value_error e then Inl (LLMProviderResponseError (u ''Mistral returned invalid JSON''))
                else Inl e)
           | Inr data \<Rightarrow>
               (case mistral_content data of
                  Inl e \<Rightarrow>
                    (if is_access_error e
                     then Inl (LLMProviderResponseError (u ''Mistral returned an unexpected response format''))
                     else Inl e)
                | Inr (JStr body) \<Rightarrow> Inr (mk_response body (cp_model P))
                | Inr _ \<Rightarrow> Inl (LLMProviderResponseError (u ''Mistral response content is not a string'')))))"

definition mistral_generate ::
  "chat_provider \<Rightarrow> network \<Rightarrow> http_pool option \<Rightarrow> llm_request
     \<Rightarrow> llm_response result \<times> http_pool option"
where
  "mistral_generate P send pool req =
     (case provider_post send (cp_timeout_seconds P) pool (mistral_request P req) of
        (outcome, pool') \<Rightarrow>
          (case outcome of
             Timed_Out \<Rightarrow> Inl (LLMProviderTimeoutError (u ''Mistral request timed out''))
           | Request_Failed m \<Rightarrow>
               Inl (LLMProviderUnavailableError (u ''Mistral network request failed: '' @ m))
           | Raised e \<Rightarrow> Inl e
           | Responded r \<Rightarrow> mistral_parse P r,
           pool'))"

subsection \<open>Gemini\<close>

text \<open>\<open>GeminiLLMProvider\<close>.\<close>

record gemini_provider =
  gp_api_key :: pystr
  gp_model :: pystr

definition new_gemini :: "pystr \<Rightarrow> pystr \<Rightarrow> gemini_provider result" where
  "new_gemini key model =
     (if strip key = [] then Inl (ValueError (u ''Gemini API key must not be empty''))
      else Inr \<lparr>gp_api_key = key, gp_model = model\<rparr>)"

definition gemini_name :: pystr where [simp]:
  "gemini_name = u ''gemini''"

definition gemini_url :: pystr where
  "gemini_url = u ''https://generativelanguage.googleapis.com/v1beta/models''"

definition gemini_request :: "gemini_provider \<Rightarrow> llm_request \<Rightarrow> http_request" where
  "gemini_request P req = \<lparr>hr_url = gemini_url @ u ''/'' @ gp_model P @ u '':generateContent'',
     hr_headers = [],
     hr_params = [(u ''key'', gp_api_key P)],
     hr_json = JObj [(u ''contents'',
       JArr [JObj [(u ''parts'', JArr [JObj [(u ''text'', JStr (prompt req))]])]])]\<rparr>"

definition gemini_raise_for_status :: "int \<Rightarrow> unit result" where
  "gemini_raise_for_status status =
     (if status \<in> {401, 403}
      then Inl (LLMProviderAuthenticationError (u ''Gemini authentication failed''))
      else if status = 429
      then Inl (LLMProviderRateLimitError (u ''Gemini rate limit exceeded''))
      else if status \<in> {500, 502, 503, 504}
      then Inl (LLMProviderUnavailableError (u ''Gemini service is temporarily unavailable''))
      else if status \<ge> 400
      then Inl (LLMProviderError (u ''Gemini provider request failed: HTTP '' @ str_int status))
      else Inr ())"

definition gemini_content :: "json \<Rightarrow> json result" where
  "gemini_content data =
     (case item data (u ''candidates'') of
        Inl e \<Rightarrow> Inl e
      | Inr candidates \<Rightarrow>
          if \<not> truthy candidates
          then Inl (LLMProviderResponseError (u ''Gemini returned no candidates''))
          else (case first_item candidates of
             Inl e \<Rightarrow> Inl e
           | Inr candidate \<Rightarrow>
               (case item candidate (u ''content'') of
                  Inl e \<Rightarrow> Inl e
                | Inr ct \<Rightarrow>
                    (case item ct (u ''parts'') of
                       Inl e \<Rightarrow> Inl e
                     | Inr parts \<Rightarrow>
                         if \<not> truthy parts
                         then Inl (LLMProviderResponseError (u ''Gemini returned no content parts''))
                         else (case first_item parts of
                            Inl e \<Rightarrow> Inl e
                          | Inr part \<Rightarrow> item part (u ''text''))))))"

definition gemini_parse :: "gemini_provider \<Rightarrow> http_response \<Rightarrow> llm_response result" where
  "gemini_parse P r =
     (case gemini_raise_for_status (status_code r) of
        Inl e \<Rightarrow> Inl e
      | Inr _ \<Rightarrow>
          (case body_json r of
             Inl e \<Rightarrow>
               (if is_value_error e then Inl (LLMProviderResponseError (u ''Gemini returned invalid JSON''))
                else Inl e)
           | Inr data \<Rightarrow>
               (case gemini_content data of
                  Inl e \<Rightarrow>
                    (if is_access_error e
                     then Inl (LLMProviderResponseError (u ''Gemini returned an unexpected response format''))
                     else Inl e)
                | Inr (JStr body) \<Rightarrow> Inr (mk_response body (gp_model P))
                | Inr _ \<Rightarrow> Inl (LLMProviderResponseError (u ''Gemini response content is not a string'')))))"

definition gemini_generate ::
  "gemini_provider \<Rightarrow> network \<Rightarrow> http_pool option \<Rightarrow> llm_request
     \<Rightarrow> llm_response result \<times> http_pool option"
where
  "gemini_generate P send pool req =
     (case provider_post send 30 pool (gemini_request P req) of
        (outcome, pool') \<Rightarrow>
          (case outcome of
             Timed_Out \<Rightarrow> Inl (LLMProviderTimeoutError (u ''Gemini request timed out''))
           | Request_Failed m \<Rightarrow> Inl (LLMProviderUnavailableError (u ''Gemini HTTP request failed''))
           | Raised e \<Rightarrow> Inl e
           | Responded r \<Rightarrow> gemini_parse P r,
           pool'))"

subsection \<open>The fake provider\<close>

record fake_provider =
  fp_model :: pystr
  fp_name :: pystr
  fp_calls :: int

definition new_fake :: fake_provider where
  "new_fake = \<lparr>fp_model = u ''fake-model'', fp_name = u ''fake'', fp_calls = 0\<rparr>"

definition fake_name :: "fake_provider \<Rightarrow> pystr" where [simp]:
  "fake_name P = fp_name P"

definition fake_generate :: "fake_provider \<Rightarrow> llm_request \<Rightarrow> llm_response result \<times> fake_provider" where
  "fake_generate P req =
     (Inr (mk_response (u ''Generated response for: '' @ prompt req) (fp_model P)),
      P\<lparr>fp_calls := fp_calls P + 1\<rparr>)"

end
