(* ===== verification/Factory.thy ===== *)
theory Factory
  imports Providers Settings Gateway
begin

text \<open>
  The provider chain of \<open>nexus/llm/factory.py\<close>. \<open>str.lower\<close> is the parameter \<open>lower\<close>: its tables are those of
  the Unicode standard. A built provider is the value of its class; \<open>provider_object\<close> is what
  the router and the gateway see of it.
\<close>

subsection \<open>\<open>build_llm_providers\<close>\<close>

datatype llm_impl =
    MistralLLMProvider chat_provider
  | GroqLLMProvider chat_provider
  | GeminiLLMProvider gemini_provider
  | FakeLLMProvider fake_provider

definition provider_names :: "(pystr \<Rightarrow> pystr) \<Rightarrow> settings \<Rightarrow> pystr list" where
  "provider_names lower st =
     map (\<lambda>name. lower (strip name)) (filter (\<lambda>name. strip name \<noteq> []) (split_on 44 (llm_provider st)))"

text \<open>\<open>if not settings.x_api_key\<close>: no key, or an empty one.\<close>

definition missing :: "pystr option \<Rightarrow> bool" where
  "missing key \<longleftrightarrow> key = None \<or> key = Some []"

definition build_one :: "settings \<Rightarrow> pystr \<Rightarrow> llm_impl result" where
  "build_one st name =
     (if name = u ''mistral'' then
        (if missing (mistral_api_key st)
         then Inl (LLMProviderError (u ''Mistral provider selected but MISTRAL_API_KEY is not configured''))
         else (case new_mistral (the (mistral_api_key st)) (mistral_model st) 30 of
                 Inl e \<Rightarrow> Inl e | Inr P \<Rightarrow> Inr (MistralLLMProvider P)))
      else if name = u ''groq'' then
        (if missing (groq_api_key st)
         then Inl (LLMProviderError (u ''Groq provider selected but GROQ_API_KEY is not configured''))
         else (case new_groq (the (groq_api_key st)) (groq_model st) 30 of
                 Inl e \<Rightarrow> Inl e | Inr P \<Rightarrow> Inr (GroqLLMProvider P)))
      else if name = u ''gemini'' then
        (if missing (gemini_api_key st)
         then Inl (LLMProviderError (u ''Gemini provider selected but GEMINI_API_KEY is not configured''))
         else (case new_gemini (the (gemini_api_key st)) (gemini_model st) of
                 Inl e \<Rightarrow> Inl e | Inr P \<Rightarrow> Inr (GeminiLLMProvider P)))
      else if name = u ''fake'' then Inr (FakeLLMProvider new_fake)
      else Inl (ValueError (u ''unsupported LLM provider: '' @ name)))"

definition build_llm_providers :: "(pystr \<Rightarrow> pystr) \<Rightarrow> settings \<Rightarrow> llm_impl list result" where
  "build_llm_providers lower st =
     (if provider_names lower st = []
      then Inl (ValueError (u ''at least one LLM provider must be configured''))
      else collect (map (build_one st) (provider_names lower st)))"

fun impl_name :: "llm_impl \<Rightarrow> pystr" where
  "impl_name (MistralLLMProvider P) = mistral_name"
| "impl_name (GroqLLMProvider P) = groq_name"
| "impl_name (GeminiLLMProvider P) = gemini_name"
| "impl_name (FakeLLMProvider P) = fake_name P"

fun impl_class :: "llm_impl \<Rightarrow> pystr" where
  "impl_class (MistralLLMProvider P) = u ''MistralLLMProvider''"
| "impl_class (GroqLLMProvider P) = u ''GroqLLMProvider''"
| "impl_class (GeminiLLMProvider P) = u ''GeminiLLMProvider''"
| "impl_class (FakeLLMProvider P) = u ''FakeLLMProvider''"

definition provider_object :: "nat \<times> llm_impl \<Rightarrow> provider" where
  "provider_object ip = \<lparr>prov_id = fst ip, prov_name = Some (impl_name (snd ip)), prov_class = impl_class (snd ip)\<rparr>"

definition provider_objects :: "llm_impl list \<Rightarrow> provider list" where
  "provider_objects impls = map provider_object (enumerate 0 impls)"

text \<open>\<open>provider.generate(request)\<close> of each class.\<close>

fun impl_generate ::
  "llm_impl \<Rightarrow> network \<Rightarrow> http_pool option \<Rightarrow> llm_request \<Rightarrow> llm_response result"
where
  "impl_generate (MistralLLMProvider P) send pool req = fst (mistral_generate P send pool req)"
| "impl_generate (GroqLLMProvider P) send pool req = fst (groq_generate P send pool req)"
| "impl_generate (GeminiLLMProvider P) send pool req = fst (gemini_generate P send pool req)"
| "impl_generate (FakeLLMProvider P) send pool req = fst (fake_generate P req)"

subsection \<open>What is built\<close>

text \<open>A name is served when it is one of the four and its key, if it needs one, is not blank.\<close>

definition usable_key :: "pystr option \<Rightarrow> bool" where
  "usable_key key \<longleftrightarrow> (case key of None \<Rightarrow> False | Some k \<Rightarrow> strip k \<noteq> [])"

definition served_name :: "settings \<Rightarrow> pystr \<Rightarrow> bool" where
  "served_name st name \<longleftrightarrow>
     (name = u ''mistral'' \<and> usable_key (mistral_api_key st))
     \<or> (name = u ''groq'' \<and> usable_key (groq_api_key st))
     \<or> (name = u ''gemini'' \<and> usable_key (gemini_api_key st))
     \<or> name = u ''fake''"

lemma strip_Nil [simp]: "strip [] = []"
  by (simp add: strip_def)

lemma usable_iff: "usable_key key \<longleftrightarrow> \<not> missing key \<and> strip (the key) \<noteq> []"
  by (auto simp: usable_key_def missing_def split: option.splits)

lemma build_one_cases:
  "build_one st name = Inl e \<Longrightarrow> \<not> served_name st name"
  "build_one st name = Inr impl \<Longrightarrow> served_name st name \<and> impl_name impl = name"
  unfolding build_one_def new_mistral_def new_groq_def new_gemini_def served_name_def usable_iff
  by (auto simp: new_fake_def split: if_splits)

lemma build_all_cases:
  "case collect (map (build_one st) names) of
     Inr impls \<Rightarrow> map impl_name impls = names \<and> list_all (served_name st) names
   | Inl e \<Rightarrow> \<exists>pre n post. names = pre @ n # post \<and> list_all (served_name st) pre \<and> \<not> served_name st n
       \<and> build_one st n = Inl e"
proof (induction names)
  case Nil
  then show ?case by simp
next
  case (Cons n ns)
  show ?case
  proof (cases "build_one st n")
    case (Inl e)
    then have "n # ns = [] @ n # ns \<and> list_all (served_name st) [] \<and> \<not> served_name st n \<and> build_one st n = Inl e"
      using build_one_cases(1) by simp
    then have "\<exists>pre m post. n # ns = pre @ m # post \<and> list_all (served_name st) pre \<and> \<not> served_name st m
       \<and> build_one st m = Inl e" by blast
    with Inl show ?thesis by simp
  next
    case (Inr impl)
    then have n: "served_name st n" "impl_name impl = n" using build_one_cases(2) by blast+
    show ?thesis
    proof (cases "collect (map (build_one st) ns)")
      case (Inl e)
      with Cons.IH obtain pre m post where "ns = pre @ m # post" "list_all (served_name st) pre"
        "\<not> served_name st m" "build_one st m = Inl e" by auto
      with n(1) have "n # ns = (n # pre) @ m # post \<and> list_all (served_name st) (n # pre)
        \<and> \<not> served_name st m \<and> build_one st m = Inl e" by simp
      then have "\<exists>pre m post. n # ns = pre @ m # post \<and> list_all (served_name st) pre \<and> \<not> served_name st m
         \<and> build_one st m = Inl e" by blast
      with Inr Inl show ?thesis by simp
    next
      case inner: (Inr impls)
      with Cons.IH n Inr show ?thesis by simp
    qed
  qed
qed

lemma provider_object_names:
  assumes "impl_name (snd ip) \<noteq> []"
  shows "router_name (provider_object ip) = impl_name (snd ip)"
  using assms by (simp add: provider_object_def router_name_def)

lemma provider_objects_names:
  assumes "list_all (\<lambda>i. impl_name i \<noteq> []) impls"
  shows "map router_name (provider_objects impls) = map impl_name impls"
proof -
  have "map (\<lambda>ip. router_name (provider_object ip)) (enumerate 0 impls) = map (impl_name \<circ> snd) (enumerate 0 impls)"
    using assms by (auto simp: list_all_iff in_set_enumerate_eq intro!: provider_object_names)
  also have "\<dots> = map impl_name impls" by (simp flip: map_map)
  finally show ?thesis by (simp add: provider_objects_def comp_def)
qed

lemma provider_objects_ids: "map prov_id (provider_objects impls) = [0..<length impls]"
proof -
  have "map prov_id (provider_objects impls) = map fst (enumerate 0 impls)"
    by (simp add: provider_objects_def provider_object_def comp_def)
  then show ?thesis by simp
qed

end
