(* ===== verification/Provider_Contract.thy ===== *)
theory Provider_Contract
  imports Providers
begin

text \<open>
  The contract the gateway relies on (\<open>nexus/llm/protocol.py\<close>, \<open>nexus/llm/errors.py\<close>) as a
  locale, with one interpretation per HTTP provider: how each network outcome and each status
  code is classified, that no other error than an \<open>LLMProviderError\<close> comes out but those of the
  HTTP library that no handler names, and that a response names the configured model.
\<close>

text \<open>The exceptions of the HTTP library that the handlers do not name: what a request raises outside
  \<open>httpx.RequestError\<close>, and what \<open>json()\<close> raises outside \<open>ValueError\<close>.\<close>

definition foreign :: "http_outcome \<Rightarrow> exn \<Rightarrow> bool" where
  "foreign out e =
     (case out of
        Responded r \<Rightarrow> body_json r = Inl e \<and> \<not> is_value_error e
      | Raised e' \<Rightarrow> e' = e
      | _ \<Rightarrow> False)"

text \<open>The class of error a failing status code is reported as.\<close>

definition status_class :: "int \<Rightarrow> exn \<Rightarrow> bool" where
  "status_class st e =
     (if st \<in> {401, 403} then is_authentication_error e
      else if st = 429 then is_rate_limit_error e
      else if st \<in> {500, 502, 503, 504} then is_unavailable_error e
      else is_provider_error e \<and> \<not> is_authentication_error e \<and> \<not> is_rate_limit_error e
        \<and> \<not> is_unavailable_error e \<and> \<not> is_timeout_error e)"

definition failing_status :: "int \<Rightarrow> bool" where
  "failing_status st \<longleftrightarrow> st \<ge> 400"

text \<open>What an outcome of the request becomes: \<open>m\<close> is the model a response names.\<close>

definition translated :: "http_outcome \<Rightarrow> pystr \<Rightarrow> llm_response result \<Rightarrow> bool" where
  "translated out m res =
     (case out of
        Timed_Out \<Rightarrow> (\<exists>e. res = Inl e \<and> is_timeout_error e)
      | Request_Failed x \<Rightarrow> (\<exists>e. res = Inl e \<and> is_unavailable_error e)
      | Raised e \<Rightarrow> res = Inl e
      | Responded r \<Rightarrow>
          if failing_status (status_code r) then \<exists>e. res = Inl e \<and> status_class (status_code r) e
          else (case res of
              Inr resp \<Rightarrow> resp_model resp = m
            | Inl e \<Rightarrow> (\<exists>x. e = LLMProviderResponseError x) \<or> body_json r = Inl e \<and> \<not> is_value_error e))"

lemma status_class_provider: "status_class st e \<Longrightarrow> is_provider_error e"
  by (cases e) (auto simp: status_class_def split: if_splits)

lemma timeout_provider: "is_timeout_error e \<Longrightarrow> is_provider_error e"
  by (cases e) simp_all

lemma unavailable_provider: "is_unavailable_error e \<Longrightarrow> is_provider_error e"
  by (cases e) simp_all

text \<open>Whatever is raised is an \<open>LLMProviderError\<close> or a foreign exception.\<close>

lemma translated_error: "translated out m (Inl e) \<Longrightarrow> is_provider_error e \<or> foreign out e"
  using status_class_provider timeout_provider unavailable_provider
  by (auto simp: translated_def foreign_def split: http_outcome.splits if_splits)

locale llm_contract =
  fixes gen :: "'p \<Rightarrow> network \<Rightarrow> http_pool option \<Rightarrow> llm_request
      \<Rightarrow> llm_response result \<times> http_pool option"
    and request :: "'p \<Rightarrow> llm_request \<Rightarrow> http_request"
    and timeout :: "'p \<Rightarrow> real"
    and model :: "'p \<Rightarrow> pystr"
  assumes on_timeout: "fst (provider_post send (timeout P) pool (request P q)) = Timed_Out
      \<Longrightarrow> \<exists>e. fst (gen P send pool q) = Inl e \<and> is_timeout_error e"
    and on_failure: "fst (provider_post send (timeout P) pool (request P q)) = Request_Failed m
      \<Longrightarrow> \<exists>e. fst (gen P send pool q) = Inl e \<and> is_unavailable_error e"
    and on_raise: "fst (provider_post send (timeout P) pool (request P q)) = Raised e \<Longrightarrow> fst (gen P send pool q) = Inl e"
    and on_status: "fst (provider_post send (timeout P) pool (request P q)) = Responded r \<Longrightarrow> failing_status (status_code r)
      \<Longrightarrow> \<exists>e. fst (gen P send pool q) = Inl e \<and> status_class (status_code r) e"
    and on_garbage: "fst (provider_post send (timeout P) pool (request P q)) = Responded r \<Longrightarrow> \<not> failing_status (status_code r)
      \<Longrightarrow> fst (gen P send pool q) = Inl e \<Longrightarrow> (\<exists>m. e = LLMProviderResponseError m) \<or> foreign (Responded r) e"
    and on_answer: "fst (gen P send pool q) = Inr resp
      \<Longrightarrow> (\<exists>r. fst (provider_post send (timeout P) pool (request P q)) = Responded r \<and> \<not> failing_status (status_code r))
        \<and> resp_model resp = model P"
    and keeps_pool: "snd (gen P send pool q) = snd (provider_post send (timeout P) pool (request P q))"
begin

text \<open>The contract at a glance.\<close>

lemma translates:
  "translated (fst (provider_post send (timeout P) pool (request P q))) (model P) (fst (gen P send pool q))"
proof (cases "fst (provider_post send (timeout P) pool (request P q))")
  case (Responded r)
  show ?thesis
  proof (cases "failing_status (status_code r)")
    case True
    from on_status [OF Responded True] Responded True show ?thesis by (simp add: translated_def)
  next
    case False
    show ?thesis
    proof (cases "fst (gen P send pool q)")
      case (Inl e)
      from on_garbage [OF Responded False Inl] Responded False Inl show ?thesis
        by (simp add: translated_def foreign_def)
    next
      case (Inr resp)
      from on_answer [OF Inr] Responded False Inr show ?thesis by (simp add: translated_def)
    qed
  qed
next
  case Timed_Out
  with on_timeout [OF this] show ?thesis by (simp add: translated_def)
next
  case (Request_Failed m)
  with on_failure [OF this] show ?thesis by (simp add: translated_def)
next
  case (Raised x)
  with on_raise [OF this] show ?thesis by (simp add: translated_def)
qed

text \<open>Every error is an \<open>LLMProviderError\<close> or a foreign one.\<close>

lemma only_provider_errors:
  assumes "fst (gen P send pool q) = Inl e"
  shows "is_provider_error e \<or> foreign (fst (provider_post send (timeout P) pool (request P q))) e"
  using translates [of send P pool q] assms translated_error by simp

end

text \<open>The three interpretations: the laws hold branch by branch.\<close>

lemma groq_status:
  "groq_raise_for_status st = Inl e \<Longrightarrow> failing_status st \<and> status_class st e"
  "failing_status st \<Longrightarrow> \<exists>e. groq_raise_for_status st = Inl e"
  by (auto simp: groq_raise_for_status_def failing_status_def status_class_def split: if_splits)

lemma mistral_status:
  "mistral_raise_for_status st = Inl e \<Longrightarrow> failing_status st \<and> status_class st e"
  "failing_status st \<Longrightarrow> \<exists>e. mistral_raise_for_status st = Inl e"
  by (auto simp: mistral_raise_for_status_def failing_status_def status_class_def split: if_splits)

lemma gemini_status:
  "gemini_raise_for_status st = Inl e \<Longrightarrow> failing_status st \<and> status_class st e"
  "failing_status st \<Longrightarrow> \<exists>e. gemini_raise_for_status st = Inl e"
  by (auto simp: gemini_raise_for_status_def failing_status_def status_class_def split: if_splits)

lemma groq_content_error:
  "groq_content d = Inl e \<Longrightarrow> is_access_error e \<or> (\<exists>m. e = LLMProviderResponseError m)"
  by (auto simp: groq_content_def split: sum.splits if_splits dest: item_error first_item_error)

lemma mistral_content_error:
  "mistral_content d = Inl e \<Longrightarrow> is_access_error e \<or> (\<exists>m. e = LLMProviderResponseError m)"
  by (auto simp: mistral_content_def split: sum.splits if_splits dest: item_error first_item_error)

lemma gemini_content_error:
  "gemini_content d = Inl e \<Longrightarrow> is_access_error e \<or> (\<exists>m. e = LLMProviderResponseError m)"
  by (auto simp: gemini_content_def split: sum.splits if_splits dest: item_error first_item_error)

lemma groq_parse_error:
  assumes "groq_parse P r = Inl e" and "\<not> failing_status (status_code r)"
  shows "(\<exists>m. e = LLMProviderResponseError m) \<or> foreign (Responded r) e"
  using assms groq_status(1) groq_content_error
  by (auto simp: groq_parse_def foreign_def split: sum.splits if_splits json.splits) blast+

lemma mistral_parse_error:
  assumes "mistral_parse P r = Inl e" and "\<not> failing_status (status_code r)"
  shows "(\<exists>m. e = LLMProviderResponseError m) \<or> foreign (Responded r) e"
  using assms mistral_status(1) mistral_content_error
  by (auto simp: mistral_parse_def foreign_def split: sum.splits if_splits json.splits) blast+

lemma gemini_parse_error:
  assumes "gemini_parse P r = Inl e" and "\<not> failing_status (status_code r)"
  shows "(\<exists>m. e = LLMProviderResponseError m) \<or> foreign (Responded r) e"
  using assms gemini_status(1) gemini_content_error
  by (auto simp: gemini_parse_def foreign_def split: sum.splits if_splits json.splits) blast+

lemma groq_parse_ok: "groq_parse P r = Inr resp \<Longrightarrow> \<not> failing_status (status_code r) \<and> resp_model resp = cp_model P"
  using groq_status(2) [of "status_code r"]
  by (auto simp: groq_parse_def split: sum.splits if_splits json.splits)

lemma mistral_parse_ok: "mistral_parse P r = Inr resp \<Longrightarrow> \<not> failing_status (status_code r) \<and> resp_model resp = cp_model P"
  using mistral_status(2) [of "status_code r"]
  by (auto simp: mistral_parse_def split: sum.splits if_splits json.splits)

lemma gemini_parse_ok: "gemini_parse P r = Inr resp \<Longrightarrow> \<not> failing_status (status_code r) \<and> resp_model resp = gp_model P"
  using gemini_status(2) [of "status_code r"]
  by (auto simp: gemini_parse_def split: sum.splits if_splits json.splits)

lemma parse_status:
  "failing_status (status_code r) \<Longrightarrow> \<exists>e. groq_parse P r = Inl e \<and> status_class (status_code r) e"
  "failing_status (status_code r) \<Longrightarrow> \<exists>e. mistral_parse P r = Inl e \<and> status_class (status_code r) e"
  "failing_status (status_code r) \<Longrightarrow> \<exists>e. gemini_parse G r = Inl e \<and> status_class (status_code r) e"
  using groq_status [of "status_code r"] mistral_status [of "status_code r"] gemini_status [of "status_code r"]
  by (auto simp: groq_parse_def mistral_parse_def gemini_parse_def)

interpretation groq: llm_contract groq_generate groq_request cp_timeout_seconds cp_model
  by unfold_locales
    (auto simp: groq_generate_def parse_status split: prod.splits http_outcome.splits
      dest: groq_parse_error groq_parse_ok)

interpretation mistral: llm_contract mistral_generate mistral_request cp_timeout_seconds cp_model
  by unfold_locales
    (auto simp: mistral_generate_def parse_status split: prod.splits http_outcome.splits
      dest: mistral_parse_error mistral_parse_ok)

interpretation gemini: llm_contract gemini_generate gemini_request "\<lambda>_. 30" gp_model
  by unfold_locales
    (auto simp: gemini_generate_def parse_status split: prod.splits http_outcome.splits
      dest: gemini_parse_error gemini_parse_ok)

end
