(* ===== verification/Logging.thy ===== *)
theory Logging
  imports Settings
begin

text \<open>
  The logging setup of \<open>nexus/core/logging.py\<close>: the level is looked up by its upper-case name
  among the attributes of Python's \<open>logging\<close> module, and the root logger and structlog are
  configured with it. \<open>str.upper\<close> is the parameter \<open>upper\<close>.
\<close>

subsection \<open>\<open>getattr(logging, name, logging.INFO)\<close>\<close>

text \<open>The attributes of the module whose name has no lower-case letter: the levels, a format
  string, and a private table.\<close>

datatype logging_attr = Level int | Format_Text | Style_Table

definition logging_attrs :: "(pystr \<times> logging_attr) list" where
  "logging_attrs =
     [(u ''NOTSET'', Level 0), (u ''DEBUG'', Level 10), (u ''INFO'', Level 20), (u ''WARNING'', Level 30),
      (u ''WARN'', Level 30), (u ''ERROR'', Level 40), (u ''CRITICAL'', Level 50), (u ''FATAL'', Level 50),
      (u ''BASIC_FORMAT'', Format_Text), (u ''_STYLES'', Style_Table)]"

definition logging_level :: "(pystr \<Rightarrow> pystr) \<Rightarrow> pystr \<Rightarrow> logging_attr" where
  "logging_level upper name =
     (case map_of logging_attrs (upper name) of None \<Rightarrow> Level 20 | Some a \<Rightarrow> a)"

subsection \<open>\<open>configure_logging\<close>\<close>

datatype log_processor = Merge_Contextvars | Add_Log_Level | Time_Stamper_Iso_Utc | JSON_Renderer

record logging_config =
  lc_root_level :: int
  lc_root_format :: pystr
  lc_processors :: "log_processor list"
  lc_min_level :: int
  lc_cached :: bool

text \<open>\<open>basicConfig\<close> refuses a level that is no integer: an unknown level name, or another type.\<close>

definition configure_logging :: "(pystr \<Rightarrow> pystr) \<Rightarrow> pystr \<Rightarrow> logging_config result" where
  "configure_logging upper log_level_name =
     (case logging_level upper log_level_name of
        Format_Text \<Rightarrow> Inl (ValueError (u ''Unknown level''))
      | Style_Table \<Rightarrow> Inl (TypeError (u ''Level not an integer or a valid string''))
      | Level n \<Rightarrow>
          Inr \<lparr>lc_root_level = n, lc_root_format = u ''%(message)s'',
               lc_processors = [Merge_Contextvars, Add_Log_Level, Time_Stamper_Iso_Utc, JSON_Renderer],
               lc_min_level = n, lc_cached = True\<rparr>)"

text \<open>An unknown name does not fail: it means \<open>INFO\<close>. Both libraries filter alike.\<close>

lemma configure_logging_unknown:
  "map_of logging_attrs (upper name) = None
    \<Longrightarrow> \<exists>c. configure_logging upper name = Inr c \<and> lc_root_level c = 20"
  by (simp add: configure_logging_def logging_level_def)

lemma configure_logging_consistent:
  "configure_logging upper name = Inr c
    \<Longrightarrow> lc_min_level c = lc_root_level c \<and> lc_root_level c \<in> {0, 10, 20, 30, 40, 50}"
  by (auto simp: configure_logging_def logging_level_def logging_attrs_def
      split: logging_attr.splits option.splits if_splits)

lemma configure_logging_fails:
  "configure_logging upper name = Inl e \<Longrightarrow> upper name \<in> {u ''BASIC_FORMAT'', u ''_STYLES''}"
  by (auto simp: configure_logging_def logging_level_def logging_attrs_def
      split: logging_attr.splits option.splits if_splits)

end
