(* ===== verification/Http_Layer.thy ===== *)
theory Http_Layer
  imports Cache_Store Llm_Types Json
begin

text \<open>
  The HTTP layer around the routes: the request-context middleware (\<open>nexus/api/middleware.py\<close>),
  the health probes (\<open>nexus/api/routes/health.py\<close>) and the start of tracing
  (\<open>nexus/observability/tracing.py\<close>). What the application returns or raises, the clock and the
  fresh identifier are inputs.
\<close>

subsection \<open>The middleware\<close>

text \<open>A request: \<open>rq_route_path\<close> is the template of the route that matched it; \<open>rq_body\<close> is the
  parsed body, or nothing when it is no JSON.\<close>

record http_call =
  rq_method :: pystr
  rq_path :: pystr
  rq_route_path :: "pystr option"
  rq_request_id :: "pystr option"
  rq_api_key :: "pystr option"
  rq_body :: "json option"

datatype reply_body = JSON_Body json | Text_Body pystr

record http_reply =
  rs_status :: int
  rs_headers :: "(pystr \<times> pystr) list"
  rs_body :: reply_body

datatype log_record =
    Request_Failed_Log pystr pystr real
  | Request_Completed_Log pystr pystr int real

text \<open>\<open>_get_route\<close>: the path of the matched route when it has one, else the path of the URL.\<close>

definition get_route :: "http_call \<Rightarrow> pystr" where
  "get_route rq = (case rq_route_path rq of Some path \<Rightarrow> path | None \<Rightarrow> rq_path rq)"

text \<open>\<open>headers[k] = v\<close> of a response: names compare without case, the first entry is replaced,
  further ones are removed.\<close>

fun set_header :: "pystr \<Rightarrow> pystr \<Rightarrow> (pystr \<times> pystr) list \<Rightarrow> (pystr \<times> pystr) list" where
  "set_header k v [] = [(ascii_lower k, v)]"
| "set_header k v (h # hs) =
     (if ascii_lower (fst h) = ascii_lower k
      then (ascii_lower k, v) # filter (\<lambda>h'. ascii_lower (fst h') \<noteq> ascii_lower k) hs
      else h # set_header k v hs)"

lemma set_header_same:
  "filter (\<lambda>h. ascii_lower (fst h) = ascii_lower k) (set_header k v hs) = [(ascii_lower k, v)]"
proof -
  have "ascii_lower (ascii_lower s) = ascii_lower s" for s
    by (simp add: ascii_lower_def ascii_lower_char_def comp_def)
  then show ?thesis by (induction k v hs rule: set_header.induct) (auto simp: filter_empty_conv)
qed

lemma set_header_others:
  "filter (\<lambda>h. ascii_lower (fst h) \<noteq> ascii_lower k) (set_header k v hs)
    = filter (\<lambda>h. ascii_lower (fst h) \<noteq> ascii_lower k) hs"
proof -
  have "ascii_lower (ascii_lower s) = ascii_lower s" for s
    by (simp add: ascii_lower_def ascii_lower_char_def comp_def)
  then show ?thesis by (induction k v hs rule: set_header.induct) auto
qed

definition request_id_of :: "http_call \<Rightarrow> pystr \<Rightarrow> pystr" where
  "request_id_of rq fresh =
     (case rq_request_id rq of
        Some i \<Rightarrow> (if i = [] then fresh else i)
      | None \<Rightarrow> fresh)"

definition http_metrics :: "http_call \<Rightarrow> pystr \<Rightarrow> real \<Rightarrow> effect list" where
  "http_metrics rq status elapsed_seconds =
     [Inc HTTP_REQUESTS_TOTAL
        [(''method'', rq_method rq), (''route'', get_route rq), (''status_code'', status)],
      Observe HTTP_REQUEST_DURATION_SECONDS
        [(''method'', rq_method rq), (''route'', get_route rq)] elapsed_seconds]"

definition dispatch ::
  "http_call \<Rightarrow> pystr \<Rightarrow> real \<Rightarrow> http_reply result \<Rightarrow> http_reply result \<times> effect list \<times> log_record list"
where
  "dispatch rq fresh elapsed_seconds inner =
     (case inner of
        Inl e \<Rightarrow> (Inl e, http_metrics rq (u ''500'') elapsed_seconds,
          [Request_Failed_Log (rq_method rq) (get_route rq) (elapsed_seconds * 1000)])
      | Inr response \<Rightarrow>
          (Inr (response\<lparr>rs_headers :=
             set_header (u ''X-Request-ID'') (request_id_of rq fresh) (rs_headers response)\<rparr>),
           http_metrics rq (str_int (rs_status response)) elapsed_seconds,
           [Request_Completed_Log (rq_method rq) (get_route rq) (rs_status response) (elapsed_seconds * 1000)]))"

subsection \<open>The probes\<close>

definition health :: "(pystr \<times> pystr) list" where
  "health = [(u ''status'', u ''ok'')]"

text \<open>\<open>app.state.cache_adapter\<close>: absent, an object of another class, or the Redis adapter.\<close>

datatype 's cache_attr = No_Adapter | Other_Adapter pystr | Redis_Adapter "'s redis_client"

definition exn_texts :: "(exn \<Rightarrow> pystr \<times> pystr) \<Rightarrow> exn \<Rightarrow> (pystr \<times> pystr) list" where
  "exn_texts describe e = [(u ''error'', fst (describe e)), (u ''message'', snd (describe e))]"

text \<open>\<open>describe e\<close> is the class name and the text of an exception.\<close>

definition readiness ::
  "(exn \<Rightarrow> pystr \<times> pystr) \<Rightarrow> 's cache_attr \<Rightarrow> 's \<Rightarrow> (int \<times> (pystr \<times> pystr) list) \<times> 's"
where
  "readiness describe attr s =
     (case attr of
        No_Adapter \<Rightarrow>
          ((503, [(u ''status'', u ''not_ready''), (u ''reason'', u ''cache_adapter_missing'')]), s)
      | Other_Adapter cls \<Rightarrow>
          ((503, [(u ''status'', u ''not_ready''), (u ''reason'', u ''invalid_cache_adapter''),
                  (u ''cache_type'', cls)]), s)
      | Redis_Adapter C \<Rightarrow>
          (case adapter_ping C s of
             (Inr r, s') \<Rightarrow>
               ((200, [(u ''status'', u ''ready''), (u ''cache'', u ''ok''),
                       (u ''ping'', if r then u ''True'' else u ''False'')]), s')
           | (Inl e, s') \<Rightarrow>
               ((503, [(u ''status'', u ''not_ready''), (u ''reason'', u ''cache_ping_failed'')]
                  @ exn_texts describe e), s')))"

subsection \<open>Tracing\<close>

text \<open>The process-wide tracer provider: OpenTelemetry's proxy until one is set.\<close>

datatype tracer_provider = Proxy | Sdk "(pystr \<times> pystr) list" "pystr option"

definition configure_tracing :: "settings \<Rightarrow> tracer_provider \<Rightarrow> tracer_provider" where
  "configure_tracing st current =
     (if \<not> otel_enabled st then current
      else (case current of
              Sdk res exporter \<Rightarrow> current
            | Proxy \<Rightarrow>
                Sdk [(u ''service.name'', otel_service_name st),
                     (u ''deployment.environment.name'', environment st)]
                  (case otel_exporter_otlp_endpoint st of
                     None \<Rightarrow> None
                   | Some url \<Rightarrow> (if url = [] then None else Some url))))"

lemma configure_tracing_once:
  "otel_enabled st \<Longrightarrow> configure_tracing st' (configure_tracing st t) = configure_tracing st t"
  by (simp add: configure_tracing_def split: tracer_provider.split)

end
