(* ===== verification/Route_Table.thy ===== *)
theory Route_Table
  imports Http_Layer
begin

text \<open>
  The routes of the application (\<open>nexus/api/router.py\<close> and the \<open>APIRouter\<close>s of
  \<open>nexus/api/routes\<close>): every router is mounted under \<open>/v1\<close> with its own prefix, in order.
  Matching a method and a path against a route without parameters is equality.
\<close>

datatype endpoint = Generate_EP | Health_EP | Ready_EP | Metrics_EP | Rate_Check_EP

instantiation endpoint :: enum
begin

definition enum_endpoint :: "endpoint list" where
  "enum_endpoint = [Generate_EP, Health_EP, Ready_EP, Metrics_EP, Rate_Check_EP]"

definition enum_all_endpoint :: "(endpoint \<Rightarrow> bool) \<Rightarrow> bool" where
  "enum_all_endpoint P \<longleftrightarrow> list_all P [Generate_EP, Health_EP, Ready_EP, Metrics_EP, Rate_Check_EP]"

definition enum_ex_endpoint :: "(endpoint \<Rightarrow> bool) \<Rightarrow> bool" where
  "enum_ex_endpoint P \<longleftrightarrow> list_ex P [Generate_EP, Health_EP, Ready_EP, Metrics_EP, Rate_Check_EP]"

instance
proof
  show univ: "(UNIV :: endpoint set) = set enum_class.enum"
    using endpoint.exhaust by (auto simp: enum_endpoint_def)
  show "distinct (enum_class.enum :: endpoint list)" by (simp add: enum_endpoint_def)
  show "enum_class.enum_all P \<longleftrightarrow> Ball UNIV P" for P :: "endpoint \<Rightarrow> bool"
    by (simp add: univ enum_endpoint_def enum_all_endpoint_def)
  show "enum_class.enum_ex P \<longleftrightarrow> Bex UNIV P" for P :: "endpoint \<Rightarrow> bool"
    by (simp add: univ enum_endpoint_def enum_ex_endpoint_def)
qed

end

type_synonym route_table = "(pystr \<times> pystr \<times> endpoint) list"

definition mount :: "pystr \<Rightarrow> route_table \<Rightarrow> route_table" where
  "mount prefix = map (\<lambda>(m, path, ep). (m, prefix @ path, ep))"

definition generate_router :: route_table where
  "generate_router = mount (u ''/generate'') [(u ''POST'', [], Generate_EP)]"

definition health_router :: route_table where
  "health_router = [(u ''GET'', u ''/health'', Health_EP), (u ''GET'', u ''/ready'', Ready_EP)]"

definition metrics_router :: route_table where
  "metrics_router = [(u ''GET'', u ''/metrics'', Metrics_EP)]"

definition rate_limit_router :: route_table where
  "rate_limit_router = mount (u ''/rate-limit'') [(u ''GET'', u ''/check'', Rate_Check_EP)]"

definition api_router :: route_table where
  "api_router = mount (u ''/v1'') (generate_router @ health_router @ metrics_router @ rate_limit_router)"

text \<open>The first route that matches method and path.\<close>

fun find_route :: "route_table \<Rightarrow> http_call \<Rightarrow> (pystr \<times> endpoint) option" where
  "find_route [] rq = None"
| "find_route ((m, path, ep) # routes) rq =
     (if m = rq_method rq \<and> path = rq_path rq then Some (path, ep) else find_route routes rq)"

lemma api_router_eval:
  "api_router =
     [(u ''POST'', u ''/v1/generate'', Generate_EP), (u ''GET'', u ''/v1/health'', Health_EP),
      (u ''GET'', u ''/v1/ready'', Ready_EP), (u ''GET'', u ''/v1/metrics'', Metrics_EP),
      (u ''GET'', u ''/v1/rate-limit/check'', Rate_Check_EP)]"
  by (simp add: api_router_def mount_def generate_router_def health_router_def metrics_router_def
      rate_limit_router_def u_def)

lemma find_route_member:
  "find_route table rq = Some (path, ep) \<Longrightarrow> path = rq_path rq \<and> (rq_method rq, path, ep) \<in> set table"
  by (induction table) (auto split: if_splits)

lemma find_route_none: "find_route table rq = None \<longleftrightarrow> (\<forall>ep. (rq_method rq, rq_path rq, ep) \<notin> set table)"
  by (induction table) (auto split: if_splits)

text \<open>Method and path are a key of the table, so every endpoint listed is reached.\<close>

lemma find_route_unique:
  assumes "distinct (map (\<lambda>(m, path, ep). (m, path)) table)"
  shows "(rq_method rq, rq_path rq, ep) \<in> set table \<Longrightarrow> find_route table rq = Some (rq_path rq, ep)"
  using assms by (induction table) (auto simp: rev_image_eqI)

lemma api_router_distinct: "distinct (map (\<lambda>(m, path, ep). (m, path)) api_router)"
  by (simp add: api_router_eval u_def)

text \<open>Every endpoint is mounted; quantifying over endpoints is evaluation.\<close>

lemma api_router_complete: "\<forall>ep. ep \<in> set (map (\<lambda>(m, path, ep). ep) api_router)"
  by code_simp

end
