(* ===== verification/App.thy ===== *)
theory App
  imports Factory Provider_Contract Rate_Limiter Semantic_Cache Logging Route_Table
begin

text \<open>
  The life of the application in \<open>nexus/main.py\<close>: \<open>create_app\<close> configures tracing and wires the
  framework object; \<open>lifespan\<close> builds every component in order, serves, and releases the pool
  and the cache at the end. Acquiring and releasing are recorded as events. Making a Redis client
  from its options and closing the HTTP client are done by libraries and are parameters.
\<close>

subsection \<open>\<open>get_settings\<close> and \<open>create_app\<close>\<close>

text \<open>\<open>@lru_cache\<close>: the settings are read once; a failed reading is not kept. \<open>reading\<close> is what
  constructing \<open>Settings()\<close> yields now.\<close>

definition get_settings :: "settings result \<Rightarrow> settings option \<Rightarrow> settings result \<times> settings option" where
  "get_settings reading cache =
     (case cache of
        Some st \<Rightarrow> (Inr st, cache)
      | None \<Rightarrow> (case reading of Inl e \<Rightarrow> (Inl e, None) | Inr st \<Rightarrow> (Inr st, Some st)))"

lemma get_settings_stable:
  "get_settings reading cache = (Inr st, cache') \<Longrightarrow> get_settings reading' cache' = (Inr st, cache')"
  by (auto simp: get_settings_def split: option.splits sum.splits)

datatype middleware = Request_Context_Middleware

record fastapi_app =
  fa_title :: pystr
  fa_version :: pystr
  fa_instrumented :: bool
  fa_middleware :: "middleware list"
  fa_routes :: route_table

definition create_app :: "settings \<Rightarrow> tracer_provider \<Rightarrow> fastapi_app \<times> tracer_provider" where
  "create_app st current =
     (\<lparr>fa_title = u ''NEXUS AI Platform'', fa_version = u ''0.1.0'',
        fa_instrumented = otel_enabled st, fa_middleware = [Request_Context_Middleware],
        fa_routes = api_router\<rparr>,
      configure_tracing st current)"

subsection \<open>\<open>lifespan\<close>\<close>

datatype resource_event =
    Cache_Created
  | Pool_Created
  | Pool_Started
  | Pool_Closed
  | Cache_Closed

record 's app_state =
  app_adapter :: "'s redis_client"
  app_limiter :: rate_limiter
  app_cache :: semantic_cache
  app_pool :: http_pool
  app_impls :: "llm_impl list"
  app_gateway :: gateway

text \<open>Startup: the part of \<open>lifespan\<close> before the \<open>try\<close>.\<close>

definition startup ::
  "(pystr \<Rightarrow> pystr) \<Rightarrow> (pystr \<Rightarrow> pystr) \<Rightarrow> settings \<Rightarrow> (redis_options \<Rightarrow> 's redis_client result)
     \<Rightarrow> (nat \<Rightarrow> real) \<Rightarrow> 's app_state result \<times> resource_event list"
where
  "startup upper lower st connect clk =
     (case configure_logging upper (log_level st) of
        Inl e \<Rightarrow> (Inl e, [])
      | Inr _ \<Rightarrow>
     (case cache_from_settings connect st of
        Inl e \<Rightarrow> (Inl e, [])
      | Inr adapter \<Rightarrow>
     (case new_rate_limiter st of
        Inl e \<Rightarrow> (Inl e, [Cache_Created])
      | Inr limiter \<Rightarrow>
     (case new_semantic_cache st of
        Inl e \<Rightarrow> (Inl e, [Cache_Created])
      | Inr cache \<Rightarrow>
     (case new_http_pool (llm_request_timeout_seconds st) 100 20 of
        Inl e \<Rightarrow> (Inl e, [Cache_Created])
      | Inr pool \<Rightarrow>
          (let events = [Cache_Created, Pool_Created, Pool_Started];
               started = pool_start pool
           in case build_llm_providers lower st of
                Inl e \<Rightarrow> (Inl e, events)
              | Inr impls \<Rightarrow>
                  (case fst (new_gateway (provider_objects impls) st clk) of
                     Inl e \<Rightarrow> (Inl e, events)
                   | Inr g \<Rightarrow>
                       (Inr \<lparr>app_adapter = adapter, app_limiter = limiter, app_cache = cache,
                             app_pool = started, app_impls = impls, app_gateway = g\<rparr>, events))))))))"

text \<open>The \<open>finally\<close> block after serving: when closing the HTTP client raises, the cache connection
  is not closed. \<open>closing\<close> is what closing the client yields.\<close>

definition shutdown ::
  "'s app_state \<Rightarrow> unit result \<Rightarrow> 's \<Rightarrow> unit result \<times> 's app_state \<times> 's \<times> resource_event list"
where
  "shutdown app closing s =
     (case closing of
        Inl e \<Rightarrow> (Inl e, app, s, [])
      | Inr _ \<Rightarrow> (Inr (), app\<lparr>app_pool := pool_close (app_pool app)\<rparr>,
                 cs_close (redis_cache (app_adapter app)) s, [Pool_Closed, Cache_Closed]))"

text \<open>The whole life: a failed startup never reaches the \<open>try\<close>. \<open>serving\<close> is what happens to the
  gateway and the store between startup and shutdown.\<close>

definition lifespan ::
  "(pystr \<Rightarrow> pystr) \<Rightarrow> (pystr \<Rightarrow> pystr) \<Rightarrow> settings \<Rightarrow> (redis_options \<Rightarrow> 's redis_client result)
     \<Rightarrow> (nat \<Rightarrow> real) \<Rightarrow> (gateway \<Rightarrow> 's \<Rightarrow> gateway \<times> 's) \<Rightarrow> unit result \<Rightarrow> 's
     \<Rightarrow> 's app_state result \<times> 's \<times> resource_event list"
where
  "lifespan upper lower st connect clk serving closing s =
     (case startup upper lower st connect clk of
        (Inl e, events) \<Rightarrow> (Inl e, s, events)
      | (Inr app, events) \<Rightarrow>
          (case serving (app_gateway app) s of
             (g, s1) \<Rightarrow>
               (case shutdown (app\<lparr>app_gateway := g\<rparr>) closing s1 of
                  (res, app', s2, events') \<Rightarrow>
                    (case res of Inl e \<Rightarrow> Inl e | Inr _ \<Rightarrow> Inr app', s2, events @ events'))))"

text \<open>A started resource that is not released.\<close>

definition leaks_pool :: "resource_event list \<Rightarrow> bool" where
  "leaks_pool es \<longleftrightarrow> Pool_Started \<in> set es \<and> Pool_Closed \<notin> set es"

text \<open>The gateway of a built chain is well formed: its constructor can only refuse the settings.\<close>

lemma build_nonempty:
  assumes "build_llm_providers lower st = Inr impls"
  shows "impls \<noteq> []" and "map impl_name impls = provider_names lower st"
    and "list_all (served_name st) (provider_names lower st)"
proof -
  from assms have ne: "provider_names lower st \<noteq> []"
    and c: "collect (map (build_one st) (provider_names lower st)) = Inr impls"
    by (auto simp: build_llm_providers_def split: if_splits)
  from build_all_cases [where st = st and names = "provider_names lower st"] c
  show names: "map impl_name impls = provider_names lower st"
    and "list_all (served_name st) (provider_names lower st)" by simp_all
  from names ne show "impls \<noteq> []" by auto
qed

lemma served_name_nonempty: "served_name st n \<Longrightarrow> n \<noteq> []"
  by (auto simp: served_name_def)

end
