(* ===== verification/App_Serve.thy ===== *)
theory App_Serve
  imports App Api Gateway_State
begin

text \<open>
  The running application: a request goes through the middleware (\<open>nexus/api/middleware.py\<close>),
  the route table (\<open>nexus/api/router.py\<close>) and the handler of its endpoint
  (\<open>nexus/api/routes\<close>), on the components \<open>lifespan\<close> built. Of FastAPI the model has the
  documented order: a body that is no JSON is refused before the dependencies run, an
  \<open>HTTPException\<close> becomes a response inside the middleware, any other exception passes through it.
\<close>

subsection \<open>The gateway's world over the built providers\<close>

text \<open>
  \<open>net i a\<close> is the network during attempt \<open>a\<close> of the \<open>i\<close>-th provider tried, \<open>late i a\<close> says that
  \<open>wait_for\<close> gave that attempt up. Every attempt runs the provider of \<open>nexus/llm/providers\<close> that
  the object stands for, on the shared pool.
\<close>

definition app_env ::
  "llm_impl list \<Rightarrow> http_pool \<Rightarrow> (nat \<Rightarrow> nat \<Rightarrow> network) \<Rightarrow> (nat \<Rightarrow> nat \<Rightarrow> bool) \<Rightarrow> env \<Rightarrow> env"
where
  "app_env impls hp net late w = w\<lparr>env_result := (\<lambda>i a p req.
     if late i a then Inl TimeoutError
     else impl_generate (impls ! prov_id p) (net i a) (Some hp) req)\<rparr>"

subsection \<open>Replies\<close>

text \<open>What a request meets: the case-folding table, the gateway's world, the time, the class and
  text of an exception, the metrics page, the framework's reply when no route matches, a fresh
  identifier and the time the request takes.\<close>

record ambient =
  amb_casefold :: "nat \<Rightarrow> pystr"
  amb_env :: env
  amb_time :: real
  amb_describe :: "exn \<Rightarrow> pystr \<times> pystr"
  amb_page :: pystr
  amb_unmatched :: "http_call \<Rightarrow> http_reply"
  amb_fresh_id :: pystr
  amb_elapsed :: real

definition json_object :: "(pystr \<times> pystr) list \<Rightarrow> reply_body" where
  "json_object kvs = JSON_Body (JObj (map (\<lambda>(k, v). (k, JStr v)) kvs))"

definition ok_reply :: "reply_body \<Rightarrow> http_reply" where
  "ok_reply body = \<lparr>rs_status = 200, rs_headers = [], rs_body = body\<rparr>"

definition generate_body :: "generate_response \<Rightarrow> reply_body" where
  "generate_body r = json_object
     [(u ''content'', gr_content r), (u ''model'', gr_model r), (u ''source'', gr_source r)]"

fun error_reply :: "exn \<Rightarrow> http_reply result" where
  "error_reply (HTTPException status detail headers) =
     Inr \<lparr>rs_status = status, rs_headers = headers, rs_body = json_object [(u ''detail'', detail)]\<rparr>"
| "error_reply e = Inl e"

definition reply_with :: "('a \<Rightarrow> reply_body) \<Rightarrow> 'a result \<Rightarrow> http_reply result" where
  "reply_with body res = (case res of Inl e \<Rightarrow> error_reply e | Inr x \<Rightarrow> Inr (ok_reply (body x)))"

text \<open>\<open>GET /v1/metrics\<close>.\<close>

definition metrics :: "pystr \<Rightarrow> http_reply" where
  "metrics page = ok_reply (Text_Body page)"

subsection \<open>Handlers and the whole request\<close>

fun handle ::
  "endpoint \<Rightarrow> settings \<Rightarrow> 's app_state \<Rightarrow> ambient \<Rightarrow> http_call \<Rightarrow> 's \<Rightarrow> gateway
     \<Rightarrow> http_reply result \<times> 's \<times> gateway \<times> effect list"
where
  "handle Generate_EP st app amb rq s g =
     (case rq_body rq of
        None \<Rightarrow> (error_reply request_validation_error, s, g, [])
      | Some body \<Rightarrow>
          (case post_generate (redis_cache (app_adapter app)) st (Some (app_limiter app)) (app_cache app)
                  (amb_casefold amb) g (amb_env amb) (rq_api_key rq) (amb_time amb) body s of
             (res, s', g', es) \<Rightarrow> (reply_with generate_body res, s', g', es)))"
| "handle Rate_Check_EP st app amb rq s g =
     (case rate_limit_check (redis_cache (app_adapter app)) st (Some (app_limiter app)) (rq_api_key rq)
             (amb_time amb) s of
        (res, s') \<Rightarrow> (reply_with json_object res, s', g, []))"
| "handle Health_EP st app amb rq s g = (Inr (ok_reply (json_object health)), s, g, [])"
| "handle Ready_EP st app amb rq s g =
     (case readiness (amb_describe amb) (Redis_Adapter (app_adapter app)) s of
        ((code, kvs), s') \<Rightarrow>
          (Inr \<lparr>rs_status = code, rs_headers = [], rs_body = json_object kvs\<rparr>, s', g, []))"
| "handle Metrics_EP st app amb rq s g = (Inr (metrics (amb_page amb)), s, g, [])"

definition serve ::
  "fastapi_app \<Rightarrow> settings \<Rightarrow> 's app_state \<Rightarrow> ambient \<Rightarrow> http_call \<Rightarrow> 's \<Rightarrow> gateway
     \<Rightarrow> http_reply result \<times> 's \<times> gateway \<times> effect list \<times> log_record list"
where
  "serve fa st app amb rq s g =
     (case (case find_route (fa_routes fa) rq of
              None \<Rightarrow> (None, Inr (amb_unmatched amb rq), s, g, [])
            | Some (path, ep) \<Rightarrow> (Some path, handle ep st app amb rq s g)) of
        (template, inner, s', g', es) \<Rightarrow>
          (case dispatch (rq\<lparr>rq_route_path := template\<rparr>) (amb_fresh_id amb) (amb_elapsed amb) inner of
             (out, es', logs) \<Rightarrow> (out, s', g', es @ es', logs)))"

subsection \<open>Requests without the key\<close>

text \<open>The endpoints whose routers declare \<open>enforce_rate_limit\<close> as a dependency.\<close>

definition guarded :: "endpoint \<Rightarrow> bool" where
  "guarded ep \<longleftrightarrow> ep \<in> {Generate_EP, Rate_Check_EP}"

definition has_key :: "settings \<Rightarrow> http_call \<Rightarrow> bool" where
  "has_key st rq \<longleftrightarrow> rq_api_key rq = api_key st \<and> api_key st \<notin> {None, Some []}"

text \<open>An answer to a request that may not enter: 401, 503, 422, or no answer at all.\<close>

fun turned_away :: "http_reply result \<Rightarrow> bool" where
  "turned_away (Inr r) = (rs_status r \<in> {401, 503, 422})"
| "turned_away (Inl e) = (\<exists>m. e = TypeError m)"

lemma no_key_refused:
  assumes "\<not> has_key st rq"
  shows "\<exists>e. require_api_key st (rq_api_key rq) = Inl e \<and> turned_away (error_reply e)"
  using assms
  by (cases "api_key st"; cases "rq_api_key rq")
    (auto simp: has_key_def require_api_key_def compare_digest_def HTTP_503_def HTTP_401_def)

lemma handle_without_key:
  assumes "\<not> has_key st rq" and "guarded ep"
  shows "\<exists>out. handle ep st app amb rq s g = (out, s, g, []) \<and> turned_away out"
proof -
  from no_key_refused [OF assms(1)] obtain e where
    "require_api_key st (rq_api_key rq) = Inl e" "turned_away (error_reply e)" by blast
  with assms(2) show ?thesis
    by (auto simp: guarded_def post_generate_def rate_limit_check_def enforce_rate_limit_def
        reply_with_def request_validation_error_def split: option.split)
qed

lemma handle_unguarded:
  assumes "\<not> guarded ep"
  shows "\<exists>out s'. handle ep st app amb rq s g = (out, s', g, [])
    \<and> (s' = s \<or> s' = snd (adapter_ping (app_adapter app) s))"
proof (cases ep)
  case Ready_EP
  obtain code kvs s' where r: "readiness (amb_describe amb) (Redis_Adapter (app_adapter app)) s = ((code, kvs), s')"
    by (metis surj_pair)
  then have "s' = snd (adapter_ping (app_adapter app) s)"
    by (auto simp: readiness_def split: prod.splits sum.splits)
  with Ready_EP r show ?thesis by simp
qed (use assms in \<open>auto simp: guarded_def\<close>)

subsection \<open>The metrics of the inner handlers\<close>

fun http_metric :: "effect \<Rightarrow> bool" where
  "http_metric (Inc m ls) = (m \<in> {HTTP_REQUESTS_TOTAL, HTTP_REQUEST_DURATION_SECONDS})"
| "http_metric (Observe m ls v) = (m \<in> {HTTP_REQUESTS_TOTAL, HTTP_REQUEST_DURATION_SECONDS})"
| "http_metric (SetGauge m ls v) = (m \<in> {HTTP_REQUESTS_TOTAL, HTTP_REQUEST_DURATION_SECONDS})"
| "http_metric _ = False"

definition inner_effect :: "effect \<Rightarrow> bool" where
  "inner_effect x \<longleftrightarrow> well_labelled x \<and> \<not> http_metric x"

lemma inner_generate: "list_all inner_effect (snd (snd (generate g w req)))"
proof -
  have "inner_effect x" if "llm_labelled x" for x
    using that llm_labelled_well [OF that] by (cases x) (auto simp: inner_effect_def)
  with generate_telemetry [of g w req] show ?thesis by (auto simp: list_all_iff)
qed

lemma inner_lookup: "list_all inner_effect (snd (snd (lookup_cached S cf p s)))"
  by (auto simp: lookup_cached_def cache_get_def Let_def inner_effect_def metric_spec_def
      split: sum.splits prod.splits option.splits)

lemma inner_route: "list_all inner_effect (snd (snd (snd (route_generate S c cf g w p s))))"
proof -
  obtain hit s1 es1 where l: "lookup_cached S cf p s = (hit, s1, es1)" by (metis prod_cases3)
  obtain res g' es2 where g: "generate g w (mk_request p) = (res, g', es2)" by (metis prod_cases3)
  from inner_lookup [of S cf p s] inner_generate [of g w "mk_request p"] l g
  have "list_all inner_effect es1" "list_all inner_effect es2" by simp_all
  then show ?thesis
    by (auto simp: route_generate_def conclude_def cached_response_def l g Let_def store_response_def hit_effects_def
        inner_effect_def list_all_iff split: option.split sum.split)
qed

lemma inner_post: "list_all inner_effect (snd (snd (snd (post_generate S st attr c cf g w k t body s))))"
  by (simp add: post_generate_def case_prod_beta' inner_route split: option.split sum.split)

lemma inner_handle: "list_all inner_effect (snd (snd (snd (handle ep st app amb rq s g))))"
proof (cases ep)
  case Generate_EP
  then show ?thesis by (simp add: case_prod_beta' inner_post split: option.split)
next
  case Rate_Check_EP
  then show ?thesis by (simp add: case_prod_beta')
qed (use handle_unguarded [of ep st app amb rq s g] in \<open>auto simp: guarded_def\<close>)

end
