(* ===== verification/Services.thy ===== *)
theory Services
  imports Llm_Types
begin

text \<open>
  Two small services: the provider-neutral gateway of \<open>nexus/llm/services/gateway.py\<close>, which
  validates a request and bounds the time of one provider call, and the request-size guardrail
  of \<open>nexus/guardrails\<close>.
\<close>

subsection \<open>The validating gateway\<close>

record simple_gateway =
  sg_timeout_seconds :: real

definition new_simple_gateway :: "real \<Rightarrow> simple_gateway result" where
  "new_simple_gateway timeout_seconds =
     (if timeout_seconds \<le> 0 then Inl (ValueError (u ''timeout_seconds must be positive''))
      else Inr \<lparr>sg_timeout_seconds = timeout_seconds\<rparr>)"

definition validate_request :: "llm_request \<Rightarrow> unit result" where
  "validate_request req =
     (let p = strip (prompt req)
      in if p = [] then Inl (ValueError (u ''prompt must not be empty''))
         else if length p > 32000 then Inl (ValueError (u ''prompt exceeds maximum length''))
         else if max_tokens req \<le> 0 then Inl (ValueError (u ''max_tokens must be positive''))
         else if temperature req < 0 \<or> temperature req > 2
         then Inl (ValueError (u ''temperature must be between 0 and 2''))
         else Inr ())"

text \<open>
  \<open>call\<close> is what awaiting the provider under \<open>wait_for\<close> yields, with \<open>TimeoutError\<close> when the time
  was up. \<open>GatewayTimeoutError\<close> is this module's own \<open>LLMProviderTimeoutError\<close>, a class unrelated
  to the one of \<open>errors.py\<close>.
\<close>

definition simple_generate ::
  "simple_gateway \<Rightarrow> provider \<Rightarrow> (real \<Rightarrow> llm_request \<Rightarrow> llm_response result) \<Rightarrow> llm_request
     \<Rightarrow> llm_response result \<times> effect list"
where
  "simple_generate g p call req =
     (case validate_request req of
        Inl e \<Rightarrow> (Inl e, [])
      | Inr _ \<Rightarrow>
          ((case call (sg_timeout_seconds g) req of
              Inl e \<Rightarrow> (if e = TimeoutError then Inl (GatewayTimeoutError (u ''LLM provider request timed out''))
                       else Inl e)
            | Inr resp \<Rightarrow> Inr resp),
           [ProviderCall p req]))"

definition valid_request :: "llm_request \<Rightarrow> bool" where
  "valid_request req \<longleftrightarrow>
     (\<exists>c \<in> set (prompt req). \<not> is_space c) \<and> length (strip (prompt req)) \<le> 32000
     \<and> 0 < max_tokens req \<and> 0 \<le> temperature req \<and> temperature req \<le> 2"

lemma strip_empty: "strip s = [] \<longleftrightarrow> (\<forall>c \<in> set s. is_space c)"
proof
  assume "strip s = []"
  then have a: "\<forall>c \<in> set (dropWhile is_space s). is_space c" by (simp add: strip_def)
  show "\<forall>c \<in> set s. is_space c"
  proof
    fix c assume "c \<in> set s"
    then have "c \<in> set (takeWhile is_space s) \<or> c \<in> set (dropWhile is_space s)"
      by (metis UnE set_append takeWhile_dropWhile_id)
    with a show "is_space c" by (auto dest: set_takeWhileD)
  qed
qed (auto simp: strip_def dest: set_dropWhileD)

lemma validate_request_iff: "validate_request req = Inr () \<longleftrightarrow> valid_request req"
  by (auto simp: validate_request_def valid_request_def Let_def strip_empty)

lemma validate_request_error: "\<not> valid_request req \<Longrightarrow> \<exists>m. validate_request req = Inl (ValueError m)"
  by (auto simp: validate_request_def valid_request_def Let_def strip_empty)

subsection \<open>The request-size guardrail\<close>

datatype guardrail_action = ALLOW | BLOCK | REVIEW

record guardrail_result =
  action :: guardrail_action
  reason :: "pystr option"

definition guardrail_allowed :: "guardrail_result \<Rightarrow> bool" where
  "guardrail_allowed r \<longleftrightarrow> action r = ALLOW"

record size_guardrail =
  max_characters :: int

definition new_size_guardrail :: "int \<Rightarrow> size_guardrail result" where
  "new_size_guardrail n =
     (if n \<le> 0 then Inl (ValueError (u ''max_characters must be positive''))
      else Inr \<lparr>max_characters = n\<rparr>)"

definition evaluate :: "size_guardrail \<Rightarrow> pystr \<Rightarrow> guardrail_result" where
  "evaluate g s =
     (if int (length s) > max_characters g
      then \<lparr>action = BLOCK, reason = Some (u ''request exceeds maximum allowed size'')\<rparr>
      else \<lparr>action = ALLOW, reason = None\<rparr>)"

lemma evaluate_allows: "guardrail_allowed (evaluate g s) \<longleftrightarrow> int (length s) \<le> max_characters g"
  by (simp add: guardrail_allowed_def evaluate_def)

end
