(* ===== verification/Doubles.thy ===== *)
theory Doubles
  imports Complex_Main
begin

text \<open>
  Python's \<open>float\<close>: a result is the real result rounded to the nearest number with 53 significant
  bits (ties to even), with the exponents of IEEE 754 binary64 at the lower end. Overflow to
  infinity is left out: the computations modelled with \<open>double\<close> stay far below it. The locale
  \<open>rounding\<close> states what error bounds need of a rounding.
\<close>

subsection \<open>Rounding to an integer, ties to even\<close>

definition round_even :: "real \<Rightarrow> int" where
  "round_even x =
     (let n = \<lfloor>x\<rfloor>; d = x - real_of_int n
      in if d < 1 / 2 \<or> (d = 1 / 2 \<and> even n) then n else n + 1)"

lemma round_even_int [simp]: "round_even (real_of_int n) = n"
  by (simp add: round_even_def)

lemma round_even_error: "\<bar>real_of_int (round_even x) - x\<bar> \<le> 1 / 2"
proof -
  have "real_of_int \<lfloor>x\<rfloor> \<le> x" "x < real_of_int \<lfloor>x\<rfloor> + 1" by linarith+
  then show ?thesis by (auto simp: round_even_def Let_def abs_le_iff)
qed

lemma round_even_mono:
  assumes "x \<le> y"
  shows "round_even x \<le> round_even y"
proof (cases "\<lfloor>x\<rfloor> = \<lfloor>y\<rfloor>")
  case True
  with assms show ?thesis by (auto simp: round_even_def Let_def)
next
  case False
  with assms have "\<lfloor>x\<rfloor> + 1 \<le> \<lfloor>y\<rfloor>" using floor_mono [OF assms] by linarith
  then show ?thesis by (auto simp: round_even_def Let_def)
qed

subsection \<open>Rounding to a double\<close>

text \<open>The distance of neighbouring doubles around a positive number.\<close>

definition ulp_exponent :: "real \<Rightarrow> int" where
  "ulp_exponent x = max (\<lfloor>log 2 x\<rfloor> - 52) (- 1074)"

definition ulp :: "real \<Rightarrow> real" where
  "ulp x = 2 powi ulp_exponent x"

definition double :: "real \<Rightarrow> real" where
  "double x =
     (if x = 0 then 0
      else if 0 < x then real_of_int (round_even (x / ulp x)) * ulp x
      else - (real_of_int (round_even (- x / ulp (- x))) * ulp (- x)))"

lemma double_0 [simp]: "double 0 = 0"
  by (simp add: double_def)

lemma double_minus: "double (- x) = - double x"
  by (simp add: double_def)

lemma ulp_pos [simp]: "0 < ulp x"
  by (simp add: ulp_def)

lemma powi_log_floor:
  assumes "0 < x"
  shows "2 powi \<lfloor>log 2 x\<rfloor> \<le> x" and "x < 2 powi (\<lfloor>log 2 x\<rfloor> + 1)"
proof -
  have p: "2 powi n = 2 powr real_of_int n" for n :: int by (simp add: powr_real_of_int')
  have "2 powr real_of_int \<lfloor>log 2 x\<rfloor> \<le> 2 powr log 2 x" by (intro powr_mono) simp_all
  then show "2 powi \<lfloor>log 2 x\<rfloor> \<le> x" using assms by (simp add: p)
  have "2 powr log 2 x < 2 powr real_of_int (\<lfloor>log 2 x\<rfloor> + 1)" by (intro powr_less_mono) (linarith, simp)
  then show "x < 2 powi (\<lfloor>log 2 x\<rfloor> + 1)" using assms by (simp only: p) simp
qed

lemma ulp_le:
  assumes "0 < x"
  shows "ulp x \<le> x / 2 ^ 52 + 1 / 2 ^ 1074"
proof (cases "\<lfloor>log 2 x\<rfloor> - 52 \<le> - 1074")
  case True
  then have "ulp x = 1 / 2 ^ 1074" by (simp add: ulp_def ulp_exponent_def max_def power_int_minus inverse_eq_divide)
  with assms show ?thesis by simp
next
  case False
  then have "ulp x = 2 powi \<lfloor>log 2 x\<rfloor> / 2 ^ 52" by (simp add: ulp_def ulp_exponent_def max_def power_int_diff)
  also have "\<dots> \<le> x / 2 ^ 52" using powi_log_floor(1) [OF assms] by (rule divide_right_mono) simp
  finally show ?thesis by (rule order_trans) simp
qed

lemma double_error: "\<bar>double x - x\<bar> \<le> \<bar>x\<bar> / 2 ^ 53 + 1 / 2 ^ 1075"
proof -
  have pos: "\<bar>double x - x\<bar> \<le> x / 2 ^ 53 + 1 / 2 ^ 1075" if x: "0 < x" for x
  proof -
    have "double x - x = (real_of_int (round_even (x / ulp x)) - x / ulp x) * ulp x"
      using x less_imp_neq [OF ulp_pos, of x] by (simp add: double_def left_diff_distrib)
    then have "\<bar>double x - x\<bar> = \<bar>real_of_int (round_even (x / ulp x)) - x / ulp x\<bar> * ulp x"
      by (simp add: abs_mult abs_of_pos [OF ulp_pos])
    also have "\<dots> \<le> 1 / 2 * ulp x" by (intro mult_right_mono round_even_error) (simp add: less_imp_le)
    also have "\<dots> \<le> 1 / 2 * (x / 2 ^ 52 + 1 / 2 ^ 1074)" using ulp_le [OF x] by (intro mult_left_mono) simp_all
    also have "\<dots> = x / 2 ^ 53 + 1 / 2 ^ 1075" by (simp add: distrib_left)
    finally show ?thesis .
  qed
  show ?thesis
  proof (cases "0 < x")
    case False
    show ?thesis
    proof (cases "x = 0")
      case False
      with \<open>\<not> 0 < x\<close> pos [of "- x"] show ?thesis by (simp add: double_minus abs_minus_commute)
    qed simp
  qed (use pos in simp)
qed

text \<open>Within one exponent the integer rounding is monotone; between two, a power of two lies
  between the results.\<close>

lemma double_ge_power:
  assumes "0 < x" and "2 powi k \<le> x" and "ulp_exponent x \<le> k"
  shows "2 powi k \<le> double x"
proof -
  have k: "2 powi k = real_of_int (2 ^ nat (k - ulp_exponent x)) * ulp x"
    using assms(3) by (simp add: ulp_def flip: power_int_of_nat power_int_add)
  then have "real_of_int (2 ^ nat (k - ulp_exponent x)) \<le> x / ulp x"
    using assms(2) by (simp add: pos_le_divide_eq)
  from round_even_mono [OF this] have "2 ^ nat (k - ulp_exponent x) \<le> round_even (x / ulp x)"
    by (metis round_even_int)
  then have "real_of_int (2 ^ nat (k - ulp_exponent x)) * ulp x \<le> real_of_int (round_even (x / ulp x)) * ulp x"
    by (intro mult_right_mono) (simp_all only: of_int_le_iff ulp_pos less_imp_le)
  with assms(1) k show ?thesis by (simp add: double_def)
qed

lemma double_le_power:
  assumes "0 < x" and "x \<le> 2 powi k" and "ulp_exponent x \<le> k"
  shows "double x \<le> 2 powi k"
proof -
  have k: "2 powi k = real_of_int (2 ^ nat (k - ulp_exponent x)) * ulp x"
    using assms(3) by (simp add: ulp_def flip: power_int_of_nat power_int_add)
  then have "x / ulp x \<le> real_of_int (2 ^ nat (k - ulp_exponent x))"
    using assms(2) by (simp add: pos_divide_le_eq)
  from round_even_mono [OF this] have "round_even (x / ulp x) \<le> 2 ^ nat (k - ulp_exponent x)"
    by (metis round_even_int)
  then have "real_of_int (round_even (x / ulp x)) * ulp x \<le> real_of_int (2 ^ nat (k - ulp_exponent x)) * ulp x"
    by (intro mult_right_mono) (simp_all only: of_int_le_iff ulp_pos less_imp_le)
  with assms(1) k show ?thesis by (simp add: double_def)
qed

lemma double_mono_pos:
  assumes "0 < x" and "x \<le> y"
  shows "double x \<le> double y"
proof (cases "ulp_exponent x = ulp_exponent y")
  case True
  then have u: "ulp x = ulp y" by (simp add: ulp_def)
  have "x / ulp y \<le> y / ulp y" using assms by (intro divide_right_mono) (simp_all add: less_imp_le)
  from round_even_mono [OF this] u assms show ?thesis
    by (simp add: double_def mult_right_mono less_imp_le)
next
  case False
  let ?k = "\<lfloor>log 2 y\<rfloor>"
  have "\<lfloor>log 2 x\<rfloor> \<le> ?k" using assms by (intro floor_mono log_mono) simp_all
  with False have e: "ulp_exponent y = ?k - 52" "ulp_exponent x < ulp_exponent y" and lt: "\<lfloor>log 2 x\<rfloor> + 1 \<le> ?k"
    by (auto simp: ulp_exponent_def max_def split: if_splits)
  have "x \<le> 2 powi (\<lfloor>log 2 x\<rfloor> + 1)" using powi_log_floor(2) [OF assms(1)] by simp
  also have "\<dots> \<le> 2 powi ?k" using lt by (intro power_int_increasing) simp_all
  finally have "double x \<le> 2 powi ?k" using e assms(1) by (intro double_le_power) simp_all
  also have "\<dots> \<le> double y" using powi_log_floor(1) [of y] e assms by (intro double_ge_power) simp_all
  finally show ?thesis .
qed

lemma double_nonneg: "0 \<le> x \<Longrightarrow> 0 \<le> double x"
proof (cases "x = 0")
  case False
  assume "0 \<le> x"
  with False have x: "0 < x" by simp
  then have "0 \<le> x / ulp x" by (simp add: less_imp_le)
  from round_even_mono [OF this] have "0 \<le> round_even (x / ulp x)" using round_even_int [of 0] by simp
  with x show ?thesis by (simp add: double_def less_imp_le)
qed simp

lemma double_mono: "x \<le> y \<Longrightarrow> double x \<le> double y"
proof (cases "0 < x")
  case False
  assume le: "x \<le> y"
  show ?thesis
  proof (cases "0 \<le> y")
    case True
    from False double_nonneg [of "- x"] double_nonneg [OF True] show ?thesis by (simp add: double_minus)
  next
    case neg: False
    with le double_mono_pos [of "- y" "- x"] show ?thesis by (simp add: double_minus)
  qed
qed (rule double_mono_pos)

text \<open>Integers below \<open>2 ** 53\<close> are exact.\<close>

lemma double_of_int:
  assumes "0 \<le> n" and "n < 2 ^ 53"
  shows "double (real_of_int n) = real_of_int n"
proof (cases "n = 0")
  case False
  let ?x = "real_of_int n"
  from False assms have x: "0 < ?x" by simp
  have "?x < 2 ^ 53" using assms(2) by (metis of_int_less_iff of_int_numeral of_int_power)
  moreover have "2 powi 53 \<le> (2 :: real) powi \<lfloor>log 2 ?x\<rfloor>" if "53 \<le> \<lfloor>log 2 ?x\<rfloor>"
    using that by (intro power_int_increasing) simp_all
  ultimately have "\<lfloor>log 2 ?x\<rfloor> < 53" using powi_log_floor(1) [OF x] by force
  then have e: "ulp_exponent ?x \<le> 0" by (simp add: ulp_exponent_def)
  then have "2 powi (- ulp_exponent ?x) = real_of_int (2 ^ nat (- ulp_exponent ?x))"
    by (simp flip: power_int_of_nat)
  then have "?x / ulp ?x = real_of_int (n * 2 ^ nat (- ulp_exponent ?x))"
    by (simp add: ulp_def power_int_minus divide_inverse)
  then have "real_of_int (round_even (?x / ulp ?x)) = ?x / ulp ?x" by (metis round_even_int)
  with x show ?thesis using less_imp_neq [OF ulp_pos, of ?x] by (simp add: double_def)
qed simp

text \<open>A double is computed once its exponent is known.\<close>

lemma double_at:
  assumes "2 powi k \<le> x" and "x < 2 powi (k + 1)" and "- 1022 \<le> k"
  shows "double x = real_of_int (round_even (x / 2 powi (k - 52))) * 2 powi (k - 52)"
proof -
  have x: "0 < x" using assms(1) zero_less_power_int [of "2 :: real" k] by linarith
  have p: "2 powi n = 2 powr real_of_int n" for n :: int by (simp add: powr_real_of_int')
  have "real_of_int k \<le> log 2 x" using assms(1) x by (simp add: p le_log_iff)
  moreover have "log 2 x < real_of_int (k + 1)" using assms(2) x by (simp only: p log_less_iff)
  ultimately have "\<lfloor>log 2 x\<rfloor> = k" by linarith
  with x assms(3) show ?thesis by (simp add: double_def ulp_def ulp_exponent_def)
qed

subsection \<open>What error bounds need\<close>

lemma abs_steps:
  fixes s A B x y e :: real
  assumes "\<bar>s - (A + B)\<bar> \<le> p" "\<bar>A - x\<bar> \<le> q" "\<bar>B - y\<bar> \<le> r" "\<bar>x + y - e\<bar> \<le> z"
  shows "\<bar>s - e\<bar> \<le> p + q + r + z"
  using assms by linarith

locale rounding =
  fixes fl :: "real \<Rightarrow> real" and rel tiny :: real
  assumes fl_mono: "x \<le> y \<Longrightarrow> fl x \<le> fl y"
    and fl_0: "fl 0 = 0" and fl_1: "fl 1 = 1"
    and fl_error: "\<bar>fl x - x\<bar> \<le> rel * \<bar>x\<bar> + tiny"
    and small: "0 \<le> rel" "rel \<le> 1 / 2 ^ 20" "0 \<le> tiny" "tiny \<le> 1 / 2 ^ 20"
begin

lemma fl_unit: "0 \<le> x \<Longrightarrow> x \<le> 1 \<Longrightarrow> 0 \<le> fl x \<and> fl x \<le> 1"
  using fl_mono [of 0 x] fl_mono [of x 1] fl_0 fl_1 by simp

lemma fl_nonneg: "0 \<le> x \<Longrightarrow> 0 \<le> fl x"
  using fl_mono [of 0 x] fl_0 by simp

text \<open>One rounding of a number between 0 and \<open>M\<close>.\<close>

lemma fl_error_le: "0 \<le> x \<Longrightarrow> x \<le> M \<Longrightarrow> \<bar>fl x - x\<bar> \<le> rel * M + tiny"
  using fl_error [of x] mult_left_mono [of x M rel] small(1) by simp

lemma fl_above:
  assumes "0 \<le> x"
  shows "fl x \<le> x + x / 1000 + 1 / 1000"
proof -
  have "rel * x \<le> 1 / 1000 * x" using small assms by (intro mult_right_mono) simp_all
  moreover have "tiny \<le> 1 / 1000" using small by simp
  ultimately show ?thesis using fl_error_le [OF assms order_refl] by (simp add: abs_le_iff)
qed

text \<open>A weighted mean computed with rounding: \<open>a * (1 - t) + b * t\<close>.\<close>

lemma mix_error:
  assumes "0 \<le> a" "a \<le> b" "b \<le> M" and t: "0 \<le> t" "t \<le> 1"
  shows "\<bar>fl (fl (a * fl (1 - fl t)) + fl (b * fl t)) - (a + (b - a) * t)\<bar> \<le> 8 * rel * M + 4 * tiny * (M + 1)"
proof -
  define w where "w = fl t"
  define v where "v = fl (1 - w)"
  define A where "A = fl (a * v)"
  define B where "B = fl (b * w)"
  have w: "0 \<le> w" "w \<le> 1" and v: "0 \<le> v" "v \<le> 1" using fl_unit t by (simp_all add: w_def v_def)
  have M: "0 \<le> M" "0 \<le> b" using assms by linarith+
  have ew: "\<bar>w - t\<bar> \<le> rel + tiny" using fl_error_le [of t 1] t by (simp add: w_def)
  have ev: "\<bar>v - (1 - w)\<bar> \<le> rel + tiny" using fl_error_le [of "1 - w" 1] w by (simp add: v_def)
  have prod: "0 \<le> x * y \<and> x * y \<le> M" if "0 \<le> x" "x \<le> b" "0 \<le> y" "y \<le> 1" for x y
    using that assms(3) mult_mono [of x M y 1] M by simp
  have eA: "\<bar>A - a * v\<bar> \<le> rel * M + tiny" and eB: "\<bar>B - b * w\<bar> \<le> rel * M + tiny"
    using prod [of a v] prod [of b w] assms v w M fl_error_le unfolding A_def B_def by auto
  have nonneg: "0 \<le> A" "0 \<le> B"
    using prod [of a v] prod [of b w] assms v w M fl_nonneg unfolding A_def B_def by auto
  have av: "\<bar>a * v - a * (1 - w)\<bar> \<le> M * (rel + tiny)"
    using mult_mono [of "\<bar>a\<bar>" M "\<bar>v - (1 - w)\<bar>" "rel + tiny"] ev assms M
    by (simp add: abs_mult flip: right_diff_distrib)
  have bw: "\<bar>(b - a) * w - (b - a) * t\<bar> \<le> M * (rel + tiny)"
    using mult_mono [of "\<bar>b - a\<bar>" M "\<bar>w - t\<bar>" "rel + tiny"] ew assms M
    by (simp add: abs_mult flip: right_diff_distrib)
  have exact: "\<bar>a * v + b * w - (a + (b - a) * t)\<bar> \<le> 2 * (M * (rel + tiny))"
    using av bw by (simp add: algebra_simps abs_le_iff)
  have "a + (b - a) * t \<le> M"
    using mult_left_le [of t "b - a"] assms by linarith
  then have sum: "A + B \<le> M + 2 * (M * (rel + tiny)) + 2 * (rel * M + tiny)"
    using eA eB exact by (simp add: abs_le_iff)
  also have "\<dots> \<le> 2 * M + 2 * tiny"
  proof -
    have le: "M + 2 * x + 2 * (y + tiny) \<le> 2 * M + 2 * tiny" if "x \<le> M * (1 / 8)" "y \<le> 1 / 8 * M" for x y
      using that M by argo
    show ?thesis using small M by (intro le mult_left_mono mult_right_mono) simp_all
  qed
  finally have "\<bar>fl (A + B) - (A + B)\<bar> \<le> rel * (2 * M + 2 * tiny) + tiny"
    using nonneg by (intro fl_error_le) simp_all
  from abs_steps [OF this eA eB exact] have "\<bar>fl (A + B) - (a + (b - a) * t)\<bar>
      \<le> rel * (2 * M + 2 * tiny) + tiny + (rel * M + tiny) + (rel * M + tiny) + 2 * (M * (rel + tiny))" .
  also have "\<dots> = 6 * rel * M + 2 * tiny * M + 3 * tiny + 2 * (rel * tiny)"
    by (simp add: algebra_simps)
  also have "\<dots> \<le> 8 * rel * M + 4 * tiny * (M + 1)"
  proof -
    have "rel * tiny \<le> 1 / 8 * tiny" using small by (intro mult_right_mono) simp_all
    moreover have "0 \<le> rel * M" "0 \<le> tiny * M" using small M by simp_all
    moreover have "4 * tiny * (M + 1) = 4 * (tiny * M) + 4 * tiny" "8 * rel * M = 8 * (rel * M)"
      "6 * rel * M = 6 * (rel * M)" "2 * tiny * M = 2 * (tiny * M)"
      by (simp_all add: algebra_simps)
    ultimately show ?thesis using small(3) by argo
  qed
  finally show ?thesis by (simp add: A_def B_def v_def w_def)
qed

end

interpretation double: rounding double "1 / 2 ^ 53" "1 / 2 ^ 1075"
proof unfold_locales
  show "double 1 = 1" using double_of_int [of 1] by simp
  show "\<bar>double x - x\<bar> \<le> 1 / 2 ^ 53 * \<bar>x\<bar> + 1 / 2 ^ 1075" for x using double_error [of x] by simp
  show "1 / 2 ^ 53 \<le> (1 / 2 ^ 20 :: real)" "1 / 2 ^ 1075 \<le> (1 / 2 ^ 20 :: real)"
    by (simp_all add: frac_le power_increasing)
qed (simp_all add: double_mono)

end
