(* ===== verification/Benchmark.thy ===== *)
theory Benchmark
  imports Nexus_Prelude Doubles
begin

text \<open>
  The statistics of the load benchmark (\<open>benchmarks/generate_benchmark.py\<close>): percentiles with
  linear interpolation, the result record, and the counters read from the Prometheus page. Every
  arithmetic operation on floats rounds its result with \<open>double\<close>; comparisons, \<open>min\<close>, \<open>max\<close> and
  \<open>sorted\<close> are exact. Parsing a number with \<open>float\<close> is the parameter \<open>to_float\<close>.
\<close>

subsection \<open>Percentiles\<close>

text \<open>The callers pass the percentage as an integer, so the product is one of integers and only
  the division rounds.\<close>

definition percentile :: "real list \<Rightarrow> int \<Rightarrow> real" where
  "percentile values percentage =
     (if values = [] then 0
      else
        (let ordered = sort values;
             index = double (real_of_int ((int (length ordered) - 1) * percentage) / 100);
             lower = nat \<lfloor>index\<rfloor>;
             upper = min (lower + 1) (length ordered - 1)
         in if lower = upper then ordered ! lower
            else (let weight = double (index - real lower)
                  in double (double (ordered ! lower * double (1 - weight))
                       + double (ordered ! upper * weight)))))"

subsection \<open>The result\<close>

record benchmark_result =
  total_requests :: int
  successful_requests :: int
  failed_requests :: int
  error_rate_percent :: real
  cache_hits :: int
  cache_misses :: int
  cache_hit_rate_percent :: real
  p50_ms :: real
  p95_ms :: real
  p99_ms :: real
  min_ms :: real
  max_ms :: real
  throughput_rps :: real
  duration_seconds :: real

definition build_result :: "real list \<Rightarrow> bool list \<Rightarrow> int \<Rightarrow> int \<Rightarrow> real \<Rightarrow> benchmark_result" where
  "build_result latencies oks hits misses duration =
     (let total = int (length oks);
          good = int (length (filter (\<lambda>b. b) oks));
          bad = total - good;
          ops = hits + misses
      in \<lparr>total_requests = total, successful_requests = good, failed_requests = bad,
          error_rate_percent = (if total \<noteq> 0 then double (double (real_of_int bad / real_of_int total) * 100) else 0),
          cache_hits = hits, cache_misses = misses,
          cache_hit_rate_percent = (if ops \<noteq> 0 then double (double (real_of_int hits / real_of_int ops) * 100) else 0),
          p50_ms = percentile latencies 50, p95_ms = percentile latencies 95,
          p99_ms = percentile latencies 99,
          min_ms = (if latencies \<noteq> [] then Min (set latencies) else 0),
          max_ms = (if latencies \<noteq> [] then Max (set latencies) else 0),
          throughput_rps = (if duration > 0 then double (real_of_int total / duration) else 0),
          duration_seconds = duration\<rparr>)"

subsection \<open>The counters of the metrics page\<close>

definition starts_with :: "pystr \<Rightarrow> pystr \<Rightarrow> bool" where
  "starts_with pre s \<longleftrightarrow> take (length pre) s = pre"

text \<open>\<open>line.split(" ", 1)[1]\<close> of a line that contains a space.\<close>

definition after_space :: "pystr \<Rightarrow> pystr" where
  "after_space s = drop 1 (dropWhile (\<lambda>c. c \<noteq> 32) s)"

definition hits_name :: pystr where
  "hits_name = u ''nexus_semantic_cache_hits_total ''"

definition misses_name :: pystr where
  "misses_name = u ''nexus_semantic_cache_misses_total ''"

text \<open>The loop over the lines: a later line replaces an earlier value.\<close>

fun read_counters :: "(pystr \<Rightarrow> real result) \<Rightarrow> pystr list \<Rightarrow> real \<times> real \<Rightarrow> (real \<times> real) result" where
  "read_counters to_float [] hm = Inr hm"
| "read_counters to_float (l # ls) (h, m) =
     (let line = strip l
      in if starts_with hits_name line \<and> \<not> starts_with (u ''#'') line then
           (case to_float (after_space line) of
              Inl e \<Rightarrow> Inl e | Inr v \<Rightarrow> read_counters to_float ls (v, m))
         else if starts_with misses_name line \<and> \<not> starts_with (u ''#'') line then
           (case to_float (after_space line) of
              Inl e \<Rightarrow> Inl e | Inr v \<Rightarrow> read_counters to_float ls (h, v))
         else read_counters to_float ls (h, m))"

definition read_cache_metrics :: "(pystr \<Rightarrow> real result) \<Rightarrow> pystr list \<Rightarrow> (real \<times> real) result" where
  "read_cache_metrics to_float lines = read_counters to_float lines (0, 0)"

text \<open>\<open>int(x)\<close> of a float truncates towards zero; the difference of two readings is never
  reported below zero.\<close>

definition trunc :: "real \<Rightarrow> int" where
  "trunc x = (if x \<ge> 0 then \<lfloor>x\<rfloor> else \<lceil>x\<rceil>)"

definition run_result ::
  "real \<times> real \<Rightarrow> real \<times> real \<Rightarrow> (real \<times> bool) list \<Rightarrow> real \<Rightarrow> benchmark_result"
where
  "run_result before after results duration =
     build_result (map fst results) (map snd results)
       (max 0 (trunc (double (fst after - fst before)))) (max 0 (trunc (double (snd after - snd before)))) duration"

definition check_args :: "int \<Rightarrow> int \<Rightarrow> unit result" where
  "check_args requests concurrency =
     (if requests \<le> 0 then Inl (ValueError (u ''--requests must be positive''))
      else if concurrency \<le> 0 then Inl (ValueError (u ''--concurrency must be positive''))
      else Inr ())"

subsection \<open>Interpolation between neighbours of a sorted list\<close>

definition interpolate :: "real list \<Rightarrow> real \<Rightarrow> real" where
  "interpolate xs x =
     (let i = nat \<lfloor>x\<rfloor>; j = min (i + 1) (length xs - 1)
      in xs ! i + (xs ! j - xs ! i) * (x - real i))"

lemma interpolate_between:
  assumes "sorted xs" and "0 \<le> x" and "x \<le> real (length xs - 1)" and "xs \<noteq> []"
  shows "xs ! nat \<lfloor>x\<rfloor> \<le> interpolate xs x"
    and "interpolate xs x \<le> xs ! min (nat \<lfloor>x\<rfloor> + 1) (length xs - 1)"
proof -
  let ?i = "nat \<lfloor>x\<rfloor>" and ?j = "min (nat \<lfloor>x\<rfloor> + 1) (length xs - 1)"
  have i: "?i \<le> length xs - 1" using assms(2,3) by linarith
  have "xs ! ?i \<le> xs ! ?j"
    using i assms(4) by (intro sorted_nth_mono [OF assms(1)]) (auto simp: min_def)
  moreover have "0 \<le> x - real ?i" "x - real ?i \<le> 1" using assms(2) by linarith+
  ultimately show "xs ! ?i \<le> interpolate xs x" and "interpolate xs x \<le> xs ! ?j"
    using mult_left_le [of "x - real ?i" "xs ! ?j - xs ! ?i"]
    by (simp_all add: interpolate_def Let_def)
qed

lemma interpolate_mono:
  assumes "sorted xs" and "0 \<le> x" and "x \<le> y" and "y \<le> real (length xs - 1)" and "xs \<noteq> []"
  shows "interpolate xs x \<le> interpolate xs y"
proof (cases "nat \<lfloor>x\<rfloor> = nat \<lfloor>y\<rfloor>")
  case True
  let ?i = "nat \<lfloor>x\<rfloor>" and ?j = "min (nat \<lfloor>x\<rfloor> + 1) (length xs - 1)"
  have "?i \<le> length xs - 1" using assms(2-4) by linarith
  then have "xs ! ?i \<le> xs ! ?j"
    using assms(5) by (intro sorted_nth_mono [OF assms(1)]) (auto simp: min_def)
  then have "(xs ! ?j - xs ! ?i) * (x - real ?i) \<le> (xs ! ?j - xs ! ?i) * (y - real ?i)"
    using assms(3) by (intro mult_left_mono) simp_all
  with True show ?thesis by (simp add: interpolate_def Let_def)
next
  case False
  have "nat \<lfloor>x\<rfloor> \<le> nat \<lfloor>y\<rfloor>" using assms(3) by (intro nat_mono floor_mono)
  with False have lt: "nat \<lfloor>x\<rfloor> + 1 \<le> nat \<lfloor>y\<rfloor>" by simp
  have y: "nat \<lfloor>y\<rfloor> \<le> length xs - 1" using assms(2-4) by linarith
  have "interpolate xs x \<le> xs ! min (nat \<lfloor>x\<rfloor> + 1) (length xs - 1)"
    using assms by (intro interpolate_between(2)) simp_all
  also have "\<dots> \<le> xs ! nat \<lfloor>y\<rfloor>"
    using lt y assms(5) by (intro sorted_nth_mono [OF assms(1)]) (simp_all add: min_def)
  also have "\<dots> \<le> interpolate xs y"
    using assms by (intro interpolate_between(1)) simp_all
  finally show ?thesis .
qed

lemma sort_nonempty: "values \<noteq> [] \<Longrightarrow> sort values \<noteq> []"
  by (metis length_0_conv length_sort)

text \<open>The rounded position stays within the list for every percentage up to 99, and is monotone.\<close>

definition position :: "nat \<Rightarrow> int \<Rightarrow> real" where
  "position n p = double (real_of_int ((int n - 1) * p) / 100)"

lemma position_bounds:
  assumes "0 < n" and "0 \<le> p" and "p \<le> 99"
  shows "0 \<le> position n p" and "position n p \<le> real (n - 1)"
proof -
  define x where "x = real_of_int ((int n - 1) * p) / 100"
  have m: "real_of_int (int n - 1) = real (n - 1)" using assms(1) by (simp add: of_nat_diff)
  have x: "x = real (n - 1) * (real_of_int p / 100)" by (simp only: x_def of_int_mult m times_divide_eq_right)
  have "real_of_int p / 100 \<le> 99 / 100" using assms(3) by simp
  from mult_left_mono [OF this, of "real (n - 1)"] have le: "x \<le> 99 / 100 * real (n - 1)" by (simp add: x)
  have nonneg: "0 \<le> x" using assms by (simp add: x)
  from double_mono [OF this] show "0 \<le> position n p" by (simp add: position_def x_def)
  show "position n p \<le> real (n - 1)"
  proof (cases "n = 1")
    case True
    then show ?thesis by (simp add: position_def)
  next
    case False
    with assms(1) have one: "1 \<le> real (n - 1)" by simp
    have "double x \<le> x + x / 1000 + 1 / 1000" by (rule double.fl_above [OF nonneg])
    also have "\<dots> \<le> real (n - 1)" using le one by argo
    finally show ?thesis by (simp add: position_def x_def)
  qed
qed

lemma position_mono: "0 < n \<Longrightarrow> p \<le> q \<Longrightarrow> position n p \<le> position n q"
  unfolding position_def by (intro double_mono divide_right_mono) (simp_all add: mult_left_mono)

text \<open>A percentile is the interpolation at the rounded position, up to the rounding of the
  weighted mean.\<close>

definition slack :: "real \<Rightarrow> real" where
  "slack M = M / 2 ^ 49 + 1 / 2 ^ 1073"

lemma slack_bound: "0 \<le> M \<Longrightarrow> 8 * (1 / 2 ^ 53) * M + 4 * (1 / 2 ^ 1075) * (M + 1) \<le> slack M"
proof -
  assume M: "0 \<le> M"
  have "4 * (1 / 2 ^ 1075) * M = 1 / 2 ^ 1073 * M" by simp
  also have "\<dots> \<le> 1 / 2 ^ 50 * M" using M by (intro mult_right_mono frac_le power_increasing) simp_all
  finally show ?thesis by (simp add: slack_def distrib_left)
qed

lemma percentile_error:
  assumes ne: "values \<noteq> []" and nonneg: "\<forall>x \<in> set values. 0 \<le> x" and p: "0 \<le> p" "p \<le> 99"
  shows "\<bar>percentile values p - interpolate (sort values) (position (length values) p)\<bar>
    \<le> slack (Max (set values))"
proof -
  define xs where "xs = sort values"
  define x where "x = position (length values) p"
  define i j where "i = nat \<lfloor>x\<rfloor>" and "j = min (i + 1) (length xs - 1)"
  have len: "length xs = length values" "0 < length xs" using ne by (simp_all add: xs_def)
  have x: "0 \<le> x" "x \<le> real (length xs - 1)"
    using position_bounds [of "length values" p] p len by (simp_all add: x_def)
  have ij: "i < length xs" "j < length xs" "i \<le> j" using x len unfolding i_def j_def by linarith+
  have mem: "xs ! i \<in> set values" "xs ! j \<in> set values" using nth_mem ij by (metis set_sort xs_def)+
  have le: "xs ! i \<le> xs ! j" using ij by (intro sorted_nth_mono) (simp_all add: xs_def)
  have t: "0 \<le> x - real i" "x - real i \<le> 1" using x(1) unfolding i_def by linarith+
  have Max: "xs ! j \<le> Max (set values)" "0 \<le> Max (set values)"
    using mem nonneg by (auto intro: Max_ge order_trans [OF _ Max_ge])
  have perc: "percentile values p = (if i = j then xs ! i
      else double (double (xs ! i * double (1 - double (x - real i))) + double (xs ! j * double (x - real i))))"
    using ne by (simp add: percentile_def Let_def i_def j_def x_def xs_def position_def)
  have inter: "interpolate xs x = xs ! i + (xs ! j - xs ! i) * (x - real i)"
    by (simp add: interpolate_def Let_def i_def j_def)
  have s: "0 \<le> slack (Max (set values))" using Max(2) by (simp add: slack_def)
  have "\<bar>percentile values p - interpolate xs x\<bar> \<le> slack (Max (set values))"
  proof (cases "i = j")
    case True
    with s show ?thesis by (simp add: perc inter)
  next
    case False
    have "0 \<le> xs ! i" using mem nonneg by blast
    from order_trans [OF double.mix_error [OF this le Max(1) t] slack_bound [OF Max(2)]] False
    show ?thesis by (simp add: perc inter)
  qed
  then show ?thesis by (simp add: xs_def x_def)
qed

lemma percentile_mono:
  assumes "values \<noteq> []" and "\<forall>x \<in> set values. 0 \<le> x" and "0 \<le> p" and "p \<le> q" and "q \<le> 99"
  shows "percentile values p \<le> percentile values q + 2 * slack (Max (set values))"
proof -
  have "interpolate (sort values) (position (length values) p) \<le> interpolate (sort values) (position (length values) q)"
    using assms position_bounds(1) [of "length values" p] position_bounds(2) [of "length values" q]
      position_mono [of "length values" p q] sort_nonempty
    by (intro interpolate_mono) simp_all
  with percentile_error [OF assms(1,2), of p] percentile_error [OF assms(1,2), of q] assms(3-5)
  show ?thesis by (simp add: abs_le_iff)
qed

lemma percentile_range:
  assumes "values \<noteq> []" and "\<forall>x \<in> set values. 0 \<le> x" and "0 \<le> p" and "p \<le> 99"
  shows "Min (set values) \<le> percentile values p + slack (Max (set values))"
    and "percentile values p \<le> Max (set values) + slack (Max (set values))"
proof -
  let ?xs = "sort values"
  define x where "x = position (length values) p"
  have x: "0 \<le> x" "x \<le> real (length ?xs - 1)"
    using position_bounds [of "length values" p] assms by (simp_all add: x_def)
  have "0 < length ?xs" using assms(1) by simp
  then have i: "nat \<lfloor>x\<rfloor> < length ?xs" "min (nat \<lfloor>x\<rfloor> + 1) (length ?xs - 1) < length ?xs"
    using x by linarith+
  note b = interpolate_between [OF sorted_sort x sort_nonempty [OF assms(1)]]
  have "?xs ! nat \<lfloor>x\<rfloor> \<in> set values" "?xs ! min (nat \<lfloor>x\<rfloor> + 1) (length ?xs - 1) \<in> set values"
    using nth_mem [OF i(1)] nth_mem [OF i(2)] by (simp_all only: set_sort)
  then have "Min (set values) \<le> interpolate ?xs x" "interpolate ?xs x \<le> Max (set values)"
    using b by (meson List.finite_set Min_le Max_ge order_trans)+
  with percentile_error [OF assms] show "Min (set values) \<le> percentile values p + slack (Max (set values))"
    and "percentile values p \<le> Max (set values) + slack (Max (set values))"
    by (simp_all add: x_def abs_le_iff)
qed

text \<open>A quotient of counts times 100 is a percentage.\<close>

lemma percentage_bounds:
  assumes "0 \<le> q" and "q \<le> 1"
  shows "0 \<le> double (double q * 100)" and "double (double q * 100) \<le> 100"
proof -
  have "0 \<le> double q" "double q \<le> 1" using double.fl_unit assms by blast+
  then show "0 \<le> double (double q * 100)" "double (double q * 100) \<le> 100"
    using double_mono [of 0 "double q * 100"] double_mono [of "double q * 100" 100] double_of_int [of 100] by simp_all
qed

text \<open>
  The rounding can be seen: of two requests of 433.334 ms each, the 95th percentile is reported
  larger than the maximum.
\<close>

definition ms_433 :: real where
  "ms_433 = 7623292347370963 / 17592186044416"

lemma double_95_percent:
  "double (19 / 20) = 4278419646001971 / 4503599627370496"
  using double_at [of "- 1" "19 / 20"] by (simp add: power_int_minus power_int_numeral round_even_def Let_def)

lemma double_coweight:
  "double (225179981368525 / 4503599627370496) = 225179981368525 / 4503599627370496"
  using double_at [of "- 5" "225179981368525 / 4503599627370496"] by (simp add: power_int_minus round_even_def Let_def)

lemma double_low:
  "double (ms_433 * 225179981368525 / 4503599627370496) = 762329234737097 / 35184372088832"
  using double_at [of 4 "ms_433 * 225179981368525 / 4503599627370496"] by (simp add: ms_433_def power_int_minus round_even_def Let_def)

lemma double_high:
  "double (ms_433 * 4278419646001971 / 4503599627370496) = 7242127730002415 / 17592186044416"
  using double_at [of 8 "ms_433 * 4278419646001971 / 4503599627370496"] by (simp add: ms_433_def power_int_minus round_even_def Let_def)

lemma double_sum:
  "double (15246584694741927 / 35184372088832) = 1905823086842741 / 4398046511104"
  using double_at [of 8 "15246584694741927 / 35184372088832"] by (simp add: power_int_minus round_even_def Let_def)

lemma double_weight:
  "double (4278419646001971 / 4503599627370496) = 4278419646001971 / 4503599627370496"
  using double_at [of "- 1" "4278419646001971 / 4503599627370496"] by (simp add: power_int_minus power_int_numeral round_even_def Let_def)

lemma percentile_exceeds_maximum:
  "max_ms (build_result [ms_433, ms_433] [True, True] 0 0 1) < p95_ms (build_result [ms_433, ms_433] [True, True] 0 0 1)"
proof -
  have "nat \<lfloor>4278419646001971 / 4503599627370496 :: real\<rfloor> = 0" by simp
  then have "percentile [ms_433, ms_433] 95 = 1905823086842741 / 4398046511104"
    by (simp add: percentile_def Let_def double_95_percent double_weight double_coweight double_low double_high double_sum)
  then show ?thesis by (simp add: build_result_def Let_def ms_433_def)
qed

end
