(* ===== verification/Benchmark_Run.thy ===== *)
theory Benchmark_Run
  imports Benchmark Http_Pool
begin

text \<open>
  A run of the load benchmark (\<open>benchmarks/generate_benchmark.py\<close>): its arguments, one request,
  the requests in flight under the semaphore as a step relation, the result and its two outputs.
  The HTTP library, number formatting and rounding are parameters.
\<close>

subsection \<open>Arguments\<close>

record bench_args =
  ba_url :: pystr
  ba_metrics_url :: pystr
  ba_api_key :: pystr
  ba_requests :: int
  ba_concurrency :: int
  ba_prompt :: pystr

text \<open>\<open>parse_args\<close> when only the required key is given.\<close>

definition default_args :: "pystr \<Rightarrow> bench_args" where
  "default_args key = \<lparr>ba_url = u ''http://localhost:8000/v1/generate'',
     ba_metrics_url = u ''http://localhost:8000/v1/metrics'', ba_api_key = key, ba_requests = 20,
     ba_concurrency = 5, ba_prompt = u ''Explain what an LLM gateway is in one paragraph.''\<rparr>"

subsection \<open>Requests\<close>

definition bench_request :: "bench_args \<Rightarrow> http_request" where
  "bench_request args = \<lparr>hr_url = ba_url args,
     hr_headers = [(u ''X-API-Key'', ba_api_key args), (u ''Content-Type'', u ''application/json'')],
     hr_params = [], hr_json = JObj [(u ''prompt'', JStr (ba_prompt args))]\<rparr>"

text \<open>\<open>response.is_success\<close>; both a timeout and a failed request are \<open>httpx.HTTPError\<close>s.\<close>

definition is_success :: "http_response \<Rightarrow> bool" where
  "is_success r \<longleftrightarrow> 200 \<le> status_code r \<and> status_code r \<le> 299"

definition send_request ::
  "network \<Rightarrow> http_client \<Rightarrow> bench_args \<Rightarrow> real \<times> real \<Rightarrow> (real \<times> bool) result"
where
  "send_request send client args clock =
     (let elapsed_ms = double (double (snd clock - fst clock) * 1000)
      in case client_post client send (bench_request args) of
           Responded r \<Rightarrow> Inr (elapsed_ms, is_success r)
         | Timed_Out \<Rightarrow> Inr (elapsed_ms, False)
         | Request_Failed m \<Rightarrow> Inr (elapsed_ms, False)
         | Raised e \<Rightarrow> Inl e)"

text \<open>Reading the counters: \<open>raise_for_status\<close> refuses every status but the successful ones.\<close>

definition fetch_metrics ::
  "(int \<Rightarrow> exn) \<Rightarrow> (pystr \<Rightarrow> real result) \<Rightarrow> (int \<times> pystr list) result \<Rightarrow> (real \<times> real) result"
where
  "fetch_metrics status_error to_float got =
     (case got of
        Inl e \<Rightarrow> Inl e
      | Inr (status, lines) \<Rightarrow>
          if 200 \<le> status \<and> status \<le> 299 then read_cache_metrics to_float lines
          else Inl (status_error status))"

subsection \<open>The requests in flight\<close>

text \<open>
  \<open>gather\<close> starts all coroutines at once; each waits for the semaphore in the order of starting,
  sends its request, and releases the semaphore when it is done, an exception included.
  \<open>answer i\<close> is what the \<open>i\<close>-th request yields. The first exception ends the await of \<open>gather\<close>
  (\<open>fl_failed\<close>), and the run with it.
\<close>

record flight =
  fl_waiting :: "nat list"
  fl_running :: "nat list"
  fl_done :: "(nat \<times> real \<times> bool) list"
  fl_failed :: "exn option"
  fl_free :: nat

definition take_off :: "nat \<Rightarrow> nat \<Rightarrow> flight" where
  "take_off requests concurrency =
     \<lparr>fl_waiting = [0..<requests], fl_running = [], fl_done = [], fl_failed = None, fl_free = concurrency\<rparr>"

inductive bench_step :: "(nat \<Rightarrow> (real \<times> bool) result) \<Rightarrow> flight \<Rightarrow> flight \<Rightarrow> bool" for answer where
  acquire: "fl_failed b = None \<Longrightarrow> fl_waiting b = i # q \<Longrightarrow> 0 < fl_free b \<Longrightarrow> bench_step answer b
     (b\<lparr>fl_waiting := q, fl_running := fl_running b @ [i], fl_free := fl_free b - 1\<rparr>)"
| release: "fl_failed b = None \<Longrightarrow> i \<in> set (fl_running b) \<Longrightarrow> answer i = Inr r \<Longrightarrow> bench_step answer b
     (b\<lparr>fl_running := remove1 i (fl_running b), fl_done := (i, r) # fl_done b,
        fl_free := fl_free b + 1\<rparr>)"
| raises: "fl_failed b = None \<Longrightarrow> i \<in> set (fl_running b) \<Longrightarrow> answer i = Inl e \<Longrightarrow> bench_step answer b
     (b\<lparr>fl_running := remove1 i (fl_running b), fl_failed := Some e, fl_free := fl_free b + 1\<rparr>)"

inductive bench_run :: "(nat \<Rightarrow> (real \<times> bool) result) \<Rightarrow> nat \<Rightarrow> nat \<Rightarrow> nat \<Rightarrow> flight \<Rightarrow> bool"
  for answer requests concurrency where
  start: "bench_run answer requests concurrency 0 (take_off requests concurrency)"
| step: "bench_run answer requests concurrency k b \<Longrightarrow> bench_step answer b b'
    \<Longrightarrow> bench_run answer requests concurrency (Suc k) b'"

text \<open>\<open>gather\<close> returns the results in the order of the coroutines, or raises the first exception.\<close>

definition gathered :: "nat \<Rightarrow> flight \<Rightarrow> (real \<times> bool) list result" where
  "gathered requests b =
     (case fl_failed b of
        Some e \<Rightarrow> Inl e
      | None \<Rightarrow> Inr (map (\<lambda>i. the (map_of (fl_done b) i)) [0..<requests]))"

definition flight_inv ::
  "(nat \<Rightarrow> (real \<times> bool) result) \<Rightarrow> nat \<Rightarrow> nat \<Rightarrow> nat \<Rightarrow> flight \<Rightarrow> bool"
where
  "flight_inv answer requests concurrency k b \<longleftrightarrow>
     length (fl_running b) + fl_free b = concurrency
     \<and> distinct (fl_waiting b @ fl_running b @ map fst (fl_done b))
     \<and> set (fl_waiting b @ fl_running b @ map fst (fl_done b)) \<subseteq> {0..<requests}
     \<and> (fl_failed b = None \<longrightarrow> {0..<requests} \<subseteq> set (fl_waiting b @ fl_running b @ map fst (fl_done b)))
     \<and> (\<forall>(i, r) \<in> set (fl_done b). answer i = Inr r)
     \<and> (\<forall>e. fl_failed b = Some e \<longrightarrow> (\<exists>i < requests. answer i = Inl e))
     \<and> k + 2 * length (fl_waiting b) + length (fl_running b) = 2 * requests"

lemma flight_inv_start: "flight_inv answer n c 0 (take_off n c)"
  by (auto simp: flight_inv_def take_off_def)

lemma flight_inv_step:
  assumes "bench_step answer b b'" and "flight_inv answer n c k b"
  shows "flight_inv answer n c (Suc k) b'"
  using assms(1)
proof (cases rule: bench_step.cases)
  case (acquire i q)
  with assms(2) show ?thesis by (auto simp: flight_inv_def)
next
  case (release i r)
  then have "length (remove1 i (fl_running b)) + 1 = length (fl_running b)"
    by (simp add: length_remove1) (metis One_nat_def Suc_pred length_pos_if_in_set)
  with release assms(2) show ?thesis
    by (auto simp: flight_inv_def set_remove1_eq)
next
  case (raises i e)
  then have "length (remove1 i (fl_running b)) + 1 = length (fl_running b)"
    by (simp add: length_remove1) (metis One_nat_def Suc_pred length_pos_if_in_set)
  moreover from raises assms(2) have "i < n" by (auto simp: flight_inv_def)
  ultimately show ?thesis using raises assms(2)
    by (auto simp: flight_inv_def set_remove1_eq)
qed

lemma flight_inv_run: "bench_run answer n c k b \<Longrightarrow> flight_inv answer n c k b"
  by (induction rule: bench_run.induct) (auto intro: flight_inv_start flight_inv_step)

text \<open>As long as something is left to do and nothing was raised, a request can be sent or can come
  back.\<close>

lemma flight_progress:
  assumes "flight_inv answer n c k b" and "0 < c" and "k < 2 * n" and ok: "fl_failed b = None"
  shows "\<exists>b'. bench_step answer b b'"
proof (cases "fl_running b")
  case Nil
  with assms obtain i q where "fl_waiting b = i # q" "0 < fl_free b"
    by (cases "fl_waiting b") (auto simp: flight_inv_def)
  then show ?thesis using bench_step.acquire ok by blast
next
  case (Cons i q)
  then show ?thesis
    using bench_step.release [OF ok, of i answer] bench_step.raises [OF ok, of i answer]
    by (cases "answer i") auto
qed

text \<open>When all requests are answered, \<open>gather\<close> returns the answers in order.\<close>

lemma flight_landed:
  assumes "flight_inv answer n c (2 * n) b" and ok: "fl_failed b = None"
  shows "\<exists>rs. gathered n b = Inr rs \<and> map Inr rs = map answer [0..<n]"
    and "fl_running b = []" and "fl_free b = c"
proof -
  from assms(1) have e: "fl_waiting b = []" "fl_running b = []" by (simp_all add: flight_inv_def)
  from assms(1) have sound: "\<forall>(i, r) \<in> set (fl_done b). answer i = Inr r" by (simp add: flight_inv_def)
  have "Inr (the (map_of (fl_done b) i)) = answer i" if "i < n" for i
  proof -
    from that e ok have "i \<in> fst ` set (fl_done b)" using assms(1) by (auto simp: flight_inv_def)
    then obtain r where r: "map_of (fl_done b) i = Some r" by (metis not_None_eq map_of_eq_None_iff)
    with map_of_SomeD [OF r] sound show ?thesis by auto
  qed
  then show "\<exists>rs. gathered n b = Inr rs \<and> map Inr rs = map answer [0..<n]"
    by (simp add: gathered_def ok)
  from e show "fl_running b = []" by simp
  from e assms(1) show "fl_free b = c" by (simp add: flight_inv_def)
qed

text \<open>A request raises only what the HTTP library raises outside \<open>httpx.HTTPError\<close>.\<close>

lemma send_request_raises:
  "send_request send client args clock = Inl e \<longleftrightarrow> client_post client send (bench_request args) = Raised e"
  by (simp add: send_request_def Let_def split: http_outcome.splits)

subsection \<open>The result and its outputs\<close>

definition run_benchmark ::
  "(real \<times> real) result \<Rightarrow> (real \<times> bool) list result \<Rightarrow> (real \<times> real) result \<Rightarrow> real \<times> real
     \<Rightarrow> benchmark_result result"
where
  "run_benchmark metrics_before results metrics_after clock =
     (case metrics_before of
        Inl e \<Rightarrow> Inl e
      | Inr before \<Rightarrow>
          (case results of
             Inl e \<Rightarrow> Inl e
           | Inr rs \<Rightarrow>
               (case metrics_after of
                  Inl e \<Rightarrow> Inl e
                | Inr after \<Rightarrow> Inr (run_result before after rs (double (snd clock - fst clock))))))"

text \<open>\<open>print_result\<close>, line by line; \<open>fmt\<close> is the format \<open>.2f\<close>.\<close>

definition print_result :: "(real \<Rightarrow> pystr) \<Rightarrow> benchmark_result \<Rightarrow> pystr list" where
  "print_result fmt r =
     (let bar = replicate 60 61; rule_line = replicate 60 45
      in [[], bar, u ''NEXUS PERFORMANCE BENCHMARK'', bar,
          [], u ''Requests'', rule_line,
          u ''Total requests:       '' @ str_int (total_requests r),
          u ''Successful requests:  '' @ str_int (successful_requests r),
          u ''Failed requests:      '' @ str_int (failed_requests r),
          u ''Error rate:           '' @ fmt (error_rate_percent r) @ u ''%'',
          [], u ''Semantic Cache'', rule_line,
          u ''Cache hits:           '' @ str_int (cache_hits r),
          u ''Cache misses:         '' @ str_int (cache_misses r),
          u ''Cache hit rate:       '' @ fmt (cache_hit_rate_percent r) @ u ''%'',
          [], u ''Latency'', rule_line,
          u ''P50:                  '' @ fmt (p50_ms r) @ u '' ms'',
          u ''P95:                  '' @ fmt (p95_ms r) @ u '' ms'',
          u ''P99:                  '' @ fmt (p99_ms r) @ u '' ms'',
          u ''Min:                  '' @ fmt (min_ms r) @ u '' ms'',
          u ''Max:                  '' @ fmt (max_ms r) @ u '' ms'',
          [], u ''Throughput'', rule_line,
          u ''Duration:             '' @ fmt (duration_seconds r) @ u '' s'',
          u ''Throughput:           '' @ fmt (throughput_rps r) @ u '' req/s'',
          bar, []])"

text \<open>The JSON document \<open>main\<close> prints; \<open>rnd x n\<close> is \<open>round(x, n)\<close>.\<close>

definition summary :: "(real \<Rightarrow> nat \<Rightarrow> real) \<Rightarrow> benchmark_result \<Rightarrow> json" where
  "summary rnd r = JObj
     [(u ''total_requests'', JInt (total_requests r)),
      (u ''successful_requests'', JInt (successful_requests r)),
      (u ''failed_requests'', JInt (failed_requests r)),
      (u ''error_rate_percent'', JFloat (rnd (error_rate_percent r) 4)),
      (u ''cache_hits'', JInt (cache_hits r)),
      (u ''cache_misses'', JInt (cache_misses r)),
      (u ''cache_hit_rate_percent'', JFloat (rnd (cache_hit_rate_percent r) 4)),
      (u ''p50_ms'', JFloat (rnd (p50_ms r) 2)),
      (u ''p95_ms'', JFloat (rnd (p95_ms r) 2)),
      (u ''p99_ms'', JFloat (rnd (p99_ms r) 2)),
      (u ''min_ms'', JFloat (rnd (min_ms r) 2)),
      (u ''max_ms'', JFloat (rnd (max_ms r) 2)),
      (u ''throughput_rps'', JFloat (rnd (throughput_rps r) 2)),
      (u ''duration_seconds'', JFloat (rnd (duration_seconds r) 2))]"

text \<open>\<open>main\<close>: the arguments are checked before anything is sent. \<open>run\<close> is \<open>run_benchmark\<close> with them.\<close>

definition main ::
  "(real \<Rightarrow> pystr) \<Rightarrow> (real \<Rightarrow> nat \<Rightarrow> real) \<Rightarrow> (bench_args \<Rightarrow> benchmark_result result) \<Rightarrow> bench_args
     \<Rightarrow> (pystr list \<times> json) result"
where
  "main fmt rnd run args =
     (case check_args (ba_requests args) (ba_concurrency args) of
        Inl e \<Rightarrow> Inl e
      | Inr _ \<Rightarrow>
          (case run args of Inl e \<Rightarrow> Inl e | Inr r \<Rightarrow> Inr (print_result fmt r, summary rnd r)))"

text \<open>The counter differences of a run are never negative, so the hit rate is a percentage.\<close>

lemma run_benchmark_counters:
  assumes "run_benchmark mb rs ma clock = Inr r"
  shows "0 \<le> cache_hits r \<and> 0 \<le> cache_misses r
    \<and> 0 \<le> cache_hit_rate_percent r \<and> cache_hit_rate_percent r \<le> 100"
proof -
  obtain h m lats oks d where r: "r = build_result lats oks h m d" and hm: "0 \<le> h" "0 \<le> m"
    using assms by (auto simp: run_benchmark_def run_result_def split: sum.splits)
  have "0 \<le> real_of_int h / real_of_int (h + m)" "real_of_int h / real_of_int (h + m) \<le> 1"
    using hm by (simp_all add: divide_le_eq)
  from percentage_bounds [OF this] hm show ?thesis by (simp add: r build_result_def Let_def)
qed

end
