(* ===== verification/System_Properties.thy ===== *)
theory System_Properties
  imports App Services Http_Layer Benchmark_Run
begin

text \<open>
  The properties of the providers, the connection pool, the provider chain, the HTTP middleware,
  the validating gateway and the benchmark.
\<close>

subsection \<open>Providers\<close>

text \<open>
  C22: Every HTTP provider translates failures into the provider error language. Whatever a
  request yields, \<open>generate\<close> of Groq, Mistral and Gemini returns a response of the configured
  model, and then the status was below 400, or raises an \<open>LLMProviderError\<close>, or raises unchanged an
  exception of the HTTP library that is neither a \<open>RequestError\<close> nor a \<open>ValueError\<close> of \<open>json()\<close>. A
  timeout is reported as a timeout, a failed request as unavailability, 401 and 403 as
  authentication, 429 as a rate limit and 500, 502, 503 and 504 as unavailability, so that
  exactly these last two kinds are retried and, with timeouts, fall back.
\<close>

theorem providers_speak_provider_errors:
  "translated (fst (provider_post send (cp_timeout_seconds P) pool (groq_request P q))) (cp_model P)
      (fst (groq_generate P send pool q))
   \<and> translated (fst (provider_post send (cp_timeout_seconds P) pool (mistral_request P q))) (cp_model P)
      (fst (mistral_generate P send pool q))
   \<and> translated (fst (provider_post send 30 pool (gemini_request G q))) (gp_model G)
      (fst (gemini_generate G send pool q))
   \<and> (\<forall>out m e. translated out m (Inl e) \<longrightarrow> is_provider_error e \<or> foreign out e)"
  using groq.translates [of send P pool q] mistral.translates [of send P pool q]
    gemini.translates [where send = send and P = G and pool = pool and q = q] translated_error
  by simp

definition demo_chat :: chat_provider where
  "demo_chat = \<lparr>cp_api_key = u ''k'', cp_model = u ''m'', cp_timeout_seconds = 30\<rparr>"

definition demo_gemini :: gemini_provider where
  "demo_gemini = \<lparr>gp_api_key = u ''k'', gp_model = u ''m''\<rparr>"

definition answer_429 :: network where
  "answer_429 client r = Responded \<lparr>status_code = 429, body_json = Inr JNull\<rparr>"

lemma providers_speak_provider_errors_witness:
  "\<exists>e. fst (groq_generate demo_chat answer_429 None (mk_request [])) = Inl e \<and> is_rate_limit_error e"
proof -
  have post: "fst (provider_post answer_429 t None r) = Responded \<lparr>status_code = 429, body_json = Inr JNull\<rparr>" for t r
    by (simp add: provider_post_def answer_429_def client_post_def own_client_def)
  have "\<exists>e. fst (groq_generate demo_chat answer_429 None (mk_request [])) = Inl e \<and> status_class 429 e"
    using providers_speak_provider_errors [of answer_429 demo_chat None "mk_request []" demo_gemini]
    by (simp add: post translated_def failing_status_def)
  then show ?thesis by (simp add: status_class_def)
qed

subsection \<open>The connection pool\<close>

text \<open>
  A closed pool cannot be brought back, though it says so. After \<open>close\<close>, \<open>start\<close> makes
  \<open>is_started\<close> true again, but the client underneath stays closed: every post raises
  \<open>RuntimeError\<close>, and so does \<open>generate\<close> of every HTTP provider given the pool, which restart
  it by themselves. The error is not an \<open>LLMProviderError\<close>, so no fallback follows.
\<close>

lemma closed_pool_stays_unusable:
  "is_started (pool_start (pool_close p))
   \<and> pool_post (pool_start (pool_close p)) send r = Raised closed_client_error
   \<and> fst (groq_generate P send (Some (pool_close p)) q) = Inl closed_client_error
   \<and> fst (mistral_generate P send (Some (pool_close p)) q) = Inl closed_client_error
   \<and> fst (gemini_generate G send (Some (pool_close p)) q) = Inl closed_client_error
   \<and> \<not> is_provider_error closed_client_error"
proof -
  have "provider_post send t (Some (pool_close p)) r'
      = (Raised closed_client_error, Some (pool_start (pool_close p)))" for t r'
    by (simp add: provider_post_def pool_close_def pool_start_def is_started_def pool_client_def
        client_post_def aclose_def Let_def)
  then have "fst (groq_generate P send (Some (pool_close p)) q) = Inl closed_client_error"
    "fst (mistral_generate P send (Some (pool_close p)) q) = Inl closed_client_error"
    "fst (gemini_generate G send (Some (pool_close p)) q) = Inl closed_client_error"
    by (simp_all add: groq_generate_def mistral_generate_def gemini_generate_def)
  then show ?thesis
    by (simp add: is_started_def pool_start_def pool_close_def pool_post_def pool_client_def
        client_post_def aclose_def closed_client_error_def)
qed

subsection \<open>The provider chain\<close>

text \<open>
  C26: The chain is built exactly as configured. The names are the comma-separated pieces that
  are not blank, stripped and lower-cased. If the factory returns, each of them is served and
  the providers stand in that order, one per name, so that the configured order is the fallback
  order; otherwise there is no name at all, or the error is that of the first name that is not
  served, an unknown one or one without a key.
\<close>

theorem factory_builds_the_chain:
  "(case build_llm_providers lower st of
      Inr impls \<Rightarrow> impls \<noteq> [] \<and> map impl_name impls = provider_names lower st
        \<and> map router_name (provider_objects impls) = provider_names lower st
        \<and> distinct (map prov_id (provider_objects impls))
    | Inl e \<Rightarrow> provider_names lower st = []
        \<or> (\<exists>pre n post. provider_names lower st = pre @ n # post \<and> list_all (served_name st) pre
             \<and> \<not> served_name st n \<and> build_one st n = Inl e))
   \<and> ((\<exists>impls. build_llm_providers lower st = Inr impls)
      \<longleftrightarrow> provider_names lower st \<noteq> [] \<and> list_all (served_name st) (provider_names lower st))"
proof (cases "build_llm_providers lower st")
  case (Inl e)
  show ?thesis
  proof (cases "provider_names lower st = []")
    case True
    with Inl show ?thesis by simp
  next
    case False
    with Inl have "collect (map (build_one st) (provider_names lower st)) = Inl e"
      by (simp add: build_llm_providers_def)
    with build_all_cases [where st = st and names = "provider_names lower st"]
    have "\<exists>pre n post. provider_names lower st = pre @ n # post \<and> list_all (served_name st) pre
         \<and> \<not> served_name st n \<and> build_one st n = Inl e" by simp
    with Inl show ?thesis by auto
  qed
next
  case (Inr impls)
  note b = build_nonempty [OF Inr]
  from b(2,3) have "list_all (\<lambda>i. impl_name i \<noteq> []) impls"
    using served_name_nonempty by (auto simp: list_all_iff simp flip: b(2))
  moreover have "provider_names lower st \<noteq> []" using b(1,2) by (metis map_is_Nil_conv)
  ultimately show ?thesis using provider_objects_names [of impls] provider_objects_ids [of impls] b Inr by simp
qed

definition chain_settings :: "pystr \<Rightarrow> settings" where
  "chain_settings names = default_settings\<lparr>llm_provider := names, mistral_api_key := Some (u ''k'')\<rparr>"

lemma chain_settings_sel [simp]:
  "mistral_api_key (chain_settings names) = Some (u ''k'')"
  "llm_provider (chain_settings names) = names"
  "0 < rate_limit_per_minute (chain_settings names)" "0 < rate_limit_per_hour (chain_settings names)"
  "0 < semantic_cache_ttl_seconds (chain_settings names)" "0 < semantic_cache_max_bytes (chain_settings names)"
  "0 < llm_request_timeout_seconds (chain_settings names)"
  by (simp_all add: chain_settings_def default_settings_def)

lemma names_mistral_fake:
  "provider_names ascii_lower (chain_settings (u '' Mistral , fake'')) = [u ''mistral'', u ''fake'']"
  by (simp add: provider_names_def split_on_def u_def strip_def is_space_def
      ascii_lower_def ascii_lower_char_def)

lemma factory_builds_the_chain_witness:
  "\<exists>impls. build_llm_providers ascii_lower (chain_settings (u '' Mistral , fake'')) = Inr impls"
proof -
  have "strip (u ''k'') \<noteq> []" by (simp add: u_def strip_def is_space_def)
  then have "list_all (served_name (chain_settings (u '' Mistral , fake'')))
      (provider_names ascii_lower (chain_settings (u '' Mistral , fake'')))"
    by (simp add: names_mistral_fake served_name_def usable_key_def)
  with factory_builds_the_chain [of ascii_lower "chain_settings (u '' Mistral , fake'')"]
  show ?thesis by (simp add: names_mistral_fake)
qed

subsection \<open>The HTTP middleware\<close>

text \<open>
  Every HTTP request is counted and logged exactly once, whatever the application does. The
  request counter grows by one under the method, the route and the status of the response, or
  500 for an exception, one duration is observed and one record logged, all with the labels the
  metrics declare; an exception is raised again unchanged. A response keeps its status and all
  its headers but \<open>X-Request-ID\<close>, which carries the caller's identifier if that is not empty
  and the fresh one otherwise.
\<close>

lemma http_requests_counted_once:
  assumes "dispatch rq fresh elapsed inner = (res, es, logs)"
  shows "incs HTTP_REQUESTS_TOTAL [(''method'', rq_method rq), (''route'', get_route rq),
        (''status_code'', case inner of Inl e \<Rightarrow> u ''500'' | Inr r \<Rightarrow> str_int (rs_status r))] es = 1
    \<and> length es = 2 \<and> list_all well_labelled es \<and> length logs = 1
    \<and> (case inner of
         Inl e \<Rightarrow> res = Inl e
       | Inr r \<Rightarrow> (\<exists>r'. res = Inr r' \<and> rs_status r' = rs_status r
           \<and> filter (\<lambda>h. ascii_lower (fst h) \<noteq> ascii_lower (u ''X-Request-ID'')) (rs_headers r')
             = filter (\<lambda>h. ascii_lower (fst h) \<noteq> ascii_lower (u ''X-Request-ID'')) (rs_headers r)
           \<and> filter (\<lambda>h. ascii_lower (fst h) = ascii_lower (u ''X-Request-ID'')) (rs_headers r')
             = [(ascii_lower (u ''X-Request-ID''), request_id_of rq fresh)]))"
proof -
  have lab: "list_all well_labelled (http_metrics rq st elapsed)" for st
    by (simp add: http_metrics_def metric_spec_def)
  show ?thesis
  proof (cases inner)
    case (Inl e)
    with assms lab [of "u ''500''"] show ?thesis by (auto simp: dispatch_def http_metrics_def)
  next
    case (Inr r)
    with assms lab [of "str_int (rs_status r)"] show ?thesis
      by (auto simp: dispatch_def http_metrics_def set_header_same set_header_others)
  qed
qed

definition demo_call :: http_call where
  "demo_call = \<lparr>rq_method = u ''GET'', rq_path = u ''/v1/health'', rq_route_path = None,
     rq_request_id = None, rq_api_key = None, rq_body = None\<rparr>"

lemma http_requests_counted_once_example:
  "length (fst (snd (dispatch demo_call (u ''id'') 1 (Inl IndexError)))) = 2
   \<and> fst (dispatch demo_call (u ''id'') 1 (Inl IndexError)) = Inl IndexError"
proof -
  obtain res es logs where d: "dispatch demo_call (u ''id'') 1 (Inl IndexError) = (res, es, logs)"
    by (metis prod_cases3)
  from http_requests_counted_once [OF d] d show ?thesis by simp
qed

subsection \<open>The validating gateway\<close>

text \<open>
  Only valid requests reach the provider. A request is passed on iff its prompt has a
  non-space character and at most 32000 characters without the surrounding white space, asks
  for a positive number of tokens and has a temperature between 0 and 2; then the provider is
  called once with it, unchanged, under the configured timeout, and its response or exception
  comes back, a timeout as the gateway's own error. Otherwise a \<open>ValueError\<close> is raised and the
  provider is not called.
\<close>

lemma only_valid_requests_reach_the_provider:
  "(if valid_request req
    then simple_generate g p call req =
      ((case call (sg_timeout_seconds g) req of
          Inr resp \<Rightarrow> Inr resp
        | Inl e \<Rightarrow> if e = TimeoutError then Inl (GatewayTimeoutError (u ''LLM provider request timed out''))
                 else Inl e), [ProviderCall p req])
    else (\<exists>m. simple_generate g p call req = (Inl (ValueError m), [])))
   \<and> (\<forall>m. \<not> is_provider_error (GatewayTimeoutError m))"
proof (cases "valid_request req")
  case True
  then have "validate_request req = Inr ()" by (simp add: validate_request_iff)
  with True show ?thesis by (auto simp: simple_generate_def split: sum.splits)
next
  case False
  with validate_request_error [OF False] show ?thesis by (auto simp: simple_generate_def)
qed

subsection \<open>The benchmark\<close>

text \<open>
  C39: The reported statistics are consistent, up to the rounding of floats. For latencies that
  are not negative, the minimum and the maximum are exactly those measured, and the minimum, the
  50th, 95th and 99th percentile and the maximum ascend up to \<open>slack (max_ms r)\<close>, that is
  \<open>2 ** -49\<close> of the maximum: the weighted mean is computed with roundings, and
  \<open>percentile_exceeds_maximum\<close> shows that the order is not exact. Successes and failures add up
  to the number of requests, the successes are those counted, and the error rate lies between 0
  and 100 percent.
\<close>

theorem benchmark_statistics_consistent:
  assumes "\<forall>x \<in> set latencies. 0 \<le> x"
  shows "let r = build_result latencies oks hits misses duration; eps = slack (max_ms r)
   in min_ms r \<le> p50_ms r + eps \<and> p50_ms r \<le> p95_ms r + 2 * eps \<and> p95_ms r \<le> p99_ms r + 2 * eps
    \<and> p99_ms r \<le> max_ms r + eps
    \<and> (latencies \<noteq> [] \<longrightarrow> {min_ms r, max_ms r} \<subseteq> set latencies
         \<and> (\<forall>x \<in> set latencies. min_ms r \<le> x \<and> x \<le> max_ms r))
    \<and> successful_requests r + failed_requests r = total_requests r
    \<and> successful_requests r = int (count_list oks True) \<and> failed_requests r = int (count_list oks False)
    \<and> 0 \<le> error_rate_percent r \<and> error_rate_percent r \<le> 100"
proof -
  define r where "r = build_result latencies oks hits misses duration"
  define n k where "n = length oks" and "k = length (filter (\<lambda>b. b) oks)"
  have k: "k \<le> n" by (simp add: n_def k_def)
  then have "0 \<le> (real n - real k) / real n" "(real n - real k) / real n \<le> 1"
    by (cases "n = 0"; simp add: divide_le_eq_1)+
  from percentage_bounds [OF this] have "0 \<le> error_rate_percent r \<and> error_rate_percent r \<le> 100"
    by (simp add: r_def build_result_def Let_def n_def k_def)
  moreover have "k = count_list oks True \<and> n = count_list oks True + count_list oks False"
    unfolding n_def k_def by (induction oks) auto
  then have "successful_requests r + failed_requests r = total_requests r
      \<and> successful_requests r = int (count_list oks True) \<and> failed_requests r = int (count_list oks False)"
    by (simp add: r_def build_result_def Let_def n_def k_def)
  moreover have "min_ms r \<le> p50_ms r + slack (max_ms r) \<and> p50_ms r \<le> p95_ms r + 2 * slack (max_ms r)
      \<and> p95_ms r \<le> p99_ms r + 2 * slack (max_ms r) \<and> p99_ms r \<le> max_ms r + slack (max_ms r)"
  proof (cases "latencies = []")
    case True
    then show ?thesis by (simp add: r_def build_result_def Let_def percentile_def slack_def)
  next
    case False
    with percentile_range [OF False assms, of 50] percentile_range [OF False assms, of 99]
      percentile_mono [OF False assms, of 50 95] percentile_mono [OF False assms, of 95 99]
    show ?thesis by (simp add: r_def build_result_def Let_def)
  qed
  moreover have "latencies \<noteq> [] \<longrightarrow> {min_ms r, max_ms r} \<subseteq> set latencies
         \<and> (\<forall>x \<in> set latencies. min_ms r \<le> x \<and> x \<le> max_ms r)"
    by (simp add: r_def build_result_def Let_def)
  ultimately show ?thesis unfolding Let_def r_def by blast
qed

lemma benchmark_statistics_consistent_witness:
  "failed_requests (build_result [20, 10] [True, False] 0 0 1) = 1
   \<and> error_rate_percent (build_result [20, 10] [True, False] 0 0 1) \<le> 100"
proof -
  have "\<forall>x \<in> set [20, 10 :: real]. 0 \<le> x" by simp
  from benchmark_statistics_consistent [OF this, of "[True, False]" 0 0 1]
  show ?thesis by (simp add: Let_def)
qed

text \<open>
  C40: The load stays within the requested concurrency, and the run ends. With arguments that
  pass the checks, at every moment of a run at most \<open>--concurrency\<close> requests are in flight and at
  most two steps per request have been made. As long as no request has raised an exception, the
  run cannot get stuck before all requests are answered; then \<open>gather\<close> returns the answers of
  \<open>send_request\<close> in the order of the requests, and a result is about that many requests. The
  first exception, which only an error of the HTTP library outside \<open>httpx.HTTPError\<close> is, ends
  the run: \<open>run_benchmark\<close> raises it and reports nothing of the others.
\<close>

theorem benchmark_load_bounded:
  fixes net client args clock
  defines "answer \<equiv> \<lambda>i. send_request (net i) client args (clock i)"
  assumes args: "check_args (ba_requests args) (ba_concurrency args) = Inr ()"
    and n: "ba_requests args = int n" and c: "ba_concurrency args = int c"
    and run: "bench_run answer n c k b"
  shows "length (fl_running b) \<le> c \<and> k \<le> 2 * n
    \<and> (case fl_failed b of
         None \<Rightarrow>
           if k < 2 * n then \<exists>b'. bench_step answer b b'
           else fl_running b = [] \<and> fl_free b = c
             \<and> (\<exists>rs. gathered n b = Inr rs \<and> map Inr rs = map answer [0..<n])
             \<and> (\<forall>mb ma t r. run_benchmark mb (gathered n b) ma t = Inr r \<longrightarrow> total_requests r = int n)
       | Some e \<Rightarrow>
           (\<forall>before ma t. run_benchmark (Inr before) (gathered n b) ma t = Inl e)
             \<and> (\<exists>i < n. client_post client (net i) (bench_request args) = Raised e)
             \<and> (\<forall>b'. \<not> bench_step answer b b'))"
proof -
  from args n c have "0 < c" by (auto simp: check_args_def split: if_splits)
  from flight_inv_run [OF run] have inv: "flight_inv answer n c k b" .
  then have bounds: "length (fl_running b) \<le> c" "k \<le> 2 * n" by (simp_all add: flight_inv_def)
  show ?thesis
  proof (cases "fl_failed b")
    case None
    show ?thesis
    proof (cases "k < 2 * n")
      case True
      with flight_progress [OF inv \<open>0 < c\<close> True None] bounds None show ?thesis by simp
    next
      case False
      with bounds inv have "flight_inv answer n c (2 * n) b" by simp
      note landed = flight_landed [OF this None]
      from landed(1) obtain rs where rs: "gathered n b = Inr rs" "map Inr rs = map answer [0..<n]" by blast
      from arg_cong [OF rs(2), of length] have "length rs = n" by simp
      then have "total_requests r = int n" if "run_benchmark mb (gathered n b) ma t = Inr r" for mb ma t r
        using that by (auto simp: rs(1) run_benchmark_def run_result_def build_result_def Let_def split: sum.splits)
      with landed rs bounds False None show ?thesis by auto
    qed
  next
    case (Some e)
    with inv have "\<exists>i < n. answer i = Inl e" by (simp add: flight_inv_def)
    then have "\<exists>i < n. client_post client (net i) (bench_request args) = Raised e"
      by (simp add: answer_def send_request_raises)
    moreover have "\<not> bench_step answer b b'" for b' using Some by (auto elim: bench_step.cases)
    ultimately show ?thesis using bounds Some by (simp add: gathered_def run_benchmark_def)
  qed
qed

definition two_requests :: bench_args where
  "two_requests = (default_args (u ''k''))\<lparr>ba_requests := 2, ba_concurrency := 1\<rparr>"

lemma benchmark_load_bounded_witness:
  "\<exists>b b'. bench_run (\<lambda>i. send_request answer_429 (own_client 60) two_requests (0, 1)) 2 1 1 b
    \<and> fl_running b = [0] \<and> bench_step (\<lambda>i. send_request answer_429 (own_client 60) two_requests (0, 1)) b b'"
proof -
  let ?a = "\<lambda>i. send_request answer_429 (own_client 60) two_requests (0, 1)"
  let ?b = "\<lparr>fl_waiting = [1], fl_running = [0], fl_done = [], fl_failed = None, fl_free = 0\<rparr>"
  have "bench_step ?a (take_off 2 1) ?b"
    using bench_step.acquire [of "take_off 2 1" 0 "[1]" ?a] by (simp add: take_off_def upt_rec)
  with bench_run.step [OF bench_run.start] have run: "bench_run ?a 2 1 1 ?b" by simp
  from benchmark_load_bounded [OF _ _ _ run] run show ?thesis by (auto simp: check_args_def two_requests_def)
qed

end
