(* ===== verification/App_Startup.thy ===== *)
theory App_Startup
  imports App_Serve System_Properties
begin

text \<open>
  Which settings \<open>lifespan\<close> accepts. The checks are scattered over the constructors startup calls in
  turn (logging, limiter, cache, pool, provider chain, gateway); here they are collected into one
  condition on the settings.
\<close>

subsection \<open>The condition\<close>

definition valid_settings :: "(pystr \<Rightarrow> pystr) \<Rightarrow> (pystr \<Rightarrow> pystr) \<Rightarrow> settings \<Rightarrow> bool" where
  "valid_settings upper lower st \<longleftrightarrow>
     upper (log_level st) \<notin> {u ''BASIC_FORMAT'', u ''_STYLES''}
     \<and> 0 < rate_limit_per_minute st \<and> 0 < rate_limit_per_hour st
     \<and> 0 < semantic_cache_ttl_seconds st \<and> 0 < semantic_cache_max_bytes st
     \<and> 0 < llm_request_timeout_seconds st \<and> 0 \<le> llm_max_retries st
     \<and> 0 < llm_retry_base_delay_seconds st
     \<and> llm_retry_base_delay_seconds st \<le> llm_retry_max_delay_seconds st
     \<and> provider_names lower st \<noteq> [] \<and> list_all (served_name st) (provider_names lower st)"

subsection \<open>One lemma per constructor\<close>

lemma logging_iff:
  "(\<exists>c. configure_logging upper name = Inr c) \<longleftrightarrow> upper name \<notin> {u ''BASIC_FORMAT'', u ''_STYLES''}"
proof
  assume "\<exists>c. configure_logging upper name = Inr c"
  then show "upper name \<notin> {u ''BASIC_FORMAT'', u ''_STYLES''}"
    by (auto simp: configure_logging_def logging_level_def logging_attrs_def u_def)
next
  assume "upper name \<notin> {u ''BASIC_FORMAT'', u ''_STYLES''}"
  then show "\<exists>c. configure_logging upper name = Inr c"
    using configure_logging_fails by (metis sum.exhaust)
qed

lemma limiter_iff:
  "(\<exists>l. new_rate_limiter st = Inr l) \<longleftrightarrow> 0 < rate_limit_per_minute st \<and> 0 < rate_limit_per_hour st"
  by (auto simp: new_rate_limiter_def Let_def)

lemma cache_iff:
  "(\<exists>c. new_semantic_cache st = Inr c) \<longleftrightarrow> 0 < semantic_cache_ttl_seconds st \<and> 0 < semantic_cache_max_bytes st"
  by (auto simp: new_semantic_cache_def Let_def)

lemma pool_iff: "(\<exists>hp. new_http_pool t 100 20 = Inr hp) \<longleftrightarrow> 0 < t"
  by (auto simp: new_http_pool_def)

lemma chain_iff:
  "(\<exists>impls. build_llm_providers lower st = Inr impls)
    \<longleftrightarrow> provider_names lower st \<noteq> [] \<and> list_all (served_name st) (provider_names lower st)"
  using build_all_cases [where st = st and names = "provider_names lower st"]
  by (cases "collect (map (build_one st) (provider_names lower st))")
    (auto simp: build_llm_providers_def)

lemma gateway_iff:
  assumes "ps \<noteq> []"
  shows "(\<exists>g. fst (new_gateway ps st clk) = Inr g) \<longleftrightarrow>
     0 < llm_request_timeout_seconds st \<and> 0 \<le> llm_max_retries st \<and> 0 < llm_retry_base_delay_seconds st
     \<and> llm_retry_base_delay_seconds st \<le> llm_retry_max_delay_seconds st"
proof -
  obtain r where r: "new_router ps 30 = Inr r" "rt_providers r = ps"
    using assms by (auto simp: new_router_def Let_def)
  let ?g = "\<lparr>gw_providers = ps, gw_router = r, gw_timeout_seconds = llm_request_timeout_seconds st,
     gw_max_retries = llm_max_retries st, gw_retry_base_delay = llm_retry_base_delay_seconds st,
     gw_retry_max_delay = llm_retry_max_delay_seconds st\<rparr>"
  have upd: "\<exists>es. update_provider_metrics ?g clk = (Inr (), es)"
    if "0 < llm_request_timeout_seconds st" "0 \<le> llm_max_retries st" "0 < llm_retry_base_delay_seconds st"
      "llm_retry_base_delay_seconds st \<le> llm_retry_max_delay_seconds st"
  proof -
    have "gateway_inv ?g" using new_router_inv [OF r(1)] r(2) that assms by (simp add: gateway_inv_def)
    then show ?thesis using update_pair by blast
  qed
  show ?thesis
  proof (cases "0 < llm_request_timeout_seconds st \<and> 0 \<le> llm_max_retries st
      \<and> 0 < llm_retry_base_delay_seconds st \<and> llm_retry_base_delay_seconds st \<le> llm_retry_max_delay_seconds st")
    case True
    then obtain es where "update_provider_metrics ?g clk = (Inr (), es)" using upd by blast
    with True assms r(1) show ?thesis by (simp add: new_gateway_def Let_def)
  next
    case False
    with assms r(1) show ?thesis by (auto simp: new_gateway_def Let_def not_less not_le)
  qed
qed

subsection \<open>Startup\<close>

text \<open>Startup succeeds when every constructor does.\<close>

lemma startup_iff_parts:
  assumes "connect (redis_options_of st) = Inr C"
  shows "(\<exists>app. fst (startup upper lower st connect clk) = Inr app) \<longleftrightarrow>
     (\<exists>c. configure_logging upper (log_level st) = Inr c) \<and> (\<exists>l. new_rate_limiter st = Inr l)
     \<and> (\<exists>c. new_semantic_cache st = Inr c) \<and> (\<exists>hp. new_http_pool (llm_request_timeout_seconds st) 100 20 = Inr hp)
     \<and> (\<exists>impls. build_llm_providers lower st = Inr impls
          \<and> (\<exists>g. fst (new_gateway (provider_objects impls) st clk) = Inr g))"
  using assms by (auto simp: startup_def cache_from_settings_def Let_def split: sum.splits)

lemma provider_objects_nonempty: "impls \<noteq> [] \<Longrightarrow> provider_objects impls \<noteq> []"
  by (simp add: provider_objects_def) (metis length_enumerate length_0_conv)

lemma startup_iff_valid:
  assumes "connect (redis_options_of st) = Inr C"
  shows "(\<exists>app. fst (startup upper lower st connect clk) = Inr app) \<longleftrightarrow> valid_settings upper lower st"
proof -
  have "(\<exists>impls. build_llm_providers lower st = Inr impls
          \<and> (\<exists>g. fst (new_gateway (provider_objects impls) st clk) = Inr g))
    \<longleftrightarrow> (\<exists>impls. build_llm_providers lower st = Inr impls) \<and> 0 < llm_request_timeout_seconds st
      \<and> 0 \<le> llm_max_retries st \<and> 0 < llm_retry_base_delay_seconds st
      \<and> llm_retry_base_delay_seconds st \<le> llm_retry_max_delay_seconds st"
    using gateway_iff [OF provider_objects_nonempty [OF build_nonempty(1)]] by blast
  then show ?thesis
    unfolding startup_iff_parts [where connect = connect, OF assms] logging_iff limiter_iff cache_iff pool_iff chain_iff valid_settings_def
    by blast
qed

lemma startup_needs_client:
  assumes "connect (redis_options_of st) = Inl e"
  shows "\<exists>e'. fst (startup upper lower st connect clk) = Inl e'"
  using assms by (auto simp: startup_def cache_from_settings_def Let_def split: sum.split)

lemma startup_iff:
  "(\<exists>app. fst (startup upper lower st connect clk) = Inr app)
    \<longleftrightarrow> (\<exists>C. connect (redis_options_of st) = Inr C) \<and> valid_settings upper lower st"
proof (cases "connect (redis_options_of st)")
  case (Inl e)
  from startup_needs_client [where connect = connect, OF Inl] Inl show ?thesis by (metis sum.distinct(1))
next
  case (Inr C)
  from startup_iff_valid [where connect = connect, OF Inr] Inr show ?thesis by simp
qed

text \<open>The settings that get startup past the starting of the pool.\<close>

definition reaches_pool ::
  "(pystr \<Rightarrow> pystr) \<Rightarrow> (redis_options \<Rightarrow> 's redis_client result) \<Rightarrow> settings \<Rightarrow> bool"
where
  "reaches_pool upper connect st \<longleftrightarrow>
     upper (log_level st) \<notin> {u ''BASIC_FORMAT'', u ''_STYLES''}
     \<and> (\<exists>C. connect (redis_options_of st) = Inr C)
     \<and> 0 < rate_limit_per_minute st \<and> 0 < rate_limit_per_hour st
     \<and> 0 < semantic_cache_ttl_seconds st \<and> 0 < semantic_cache_max_bytes st
     \<and> 0 < llm_request_timeout_seconds st"

lemma startup_events:
  assumes "startup upper lower st connect clk = (res, events)"
  shows "Pool_Started \<in> set events \<longleftrightarrow> reaches_pool upper connect st"
    and "Pool_Closed \<notin> set events" and "Cache_Closed \<notin> set events"
proof -
  have "reaches_pool upper connect st \<longleftrightarrow>
     (\<exists>c. configure_logging upper (log_level st) = Inr c) \<and> (\<exists>C. connect (redis_options_of st) = Inr C)
     \<and> (\<exists>l. new_rate_limiter st = Inr l) \<and> (\<exists>c. new_semantic_cache st = Inr c)
     \<and> (\<exists>hp. new_http_pool (llm_request_timeout_seconds st) 100 20 = Inr hp)"
    unfolding reaches_pool_def logging_iff limiter_iff cache_iff pool_iff by blast
  then show "Pool_Started \<in> set events \<longleftrightarrow> reaches_pool upper connect st"
    using assms by (auto simp: startup_def cache_from_settings_def Let_def split: sum.splits)
  show "Pool_Closed \<notin> set events" and "Cache_Closed \<notin> set events"
    using assms by (auto simp: startup_def cache_from_settings_def Let_def split: sum.splits)
qed

text \<open>What a successful startup has built.\<close>

lemma startup_sound:
  assumes "startup upper lower st connect clk = (Inr app, events)"
  shows "events = [Cache_Created, Pool_Created, Pool_Started]"
    and "hp_started (app_pool app)" and "\<not> hc_closed (hp_client (app_pool app))"
    and "connect (redis_options_of st) = Inr (app_adapter app)"
    and "build_llm_providers lower st = Inr (app_impls app)"
    and "\<exists>es. new_gateway (provider_objects (app_impls app)) st clk = (Inr (app_gateway app), es)"
  using assms
  by (auto simp: startup_def cache_from_settings_def Let_def new_http_pool_def pool_start_def prod_eq_iff
      split: sum.splits if_splits)

end
