(* ===== verification/App_Properties.thy ===== *)
theory App_Properties
  imports App_Startup Api_Properties
begin

text \<open>
  The properties of the composed application: what startup builds and releases, what a request
  without the key can reach, how requests are counted, and that the gateway over the real
  providers keeps to the provider error language.
\<close>

subsection \<open>Startup and shutdown\<close>



subsection \<open>The gateway over the real providers\<close>

fun impl_model :: "llm_impl \<Rightarrow> pystr" where
  "impl_model (MistralLLMProvider P) = cp_model P"
| "impl_model (GroqLLMProvider P) = cp_model P"
| "impl_model (GeminiLLMProvider P) = gp_model P"
| "impl_model (FakeLLMProvider P) = fp_model P"

lemma open_pool_post:
  "hp_started hp \<Longrightarrow> \<not> hc_closed (hp_client hp) \<Longrightarrow> fst (provider_post send t (Some hp) r) = send (hp_client hp) r"
  by (simp add: provider_post_def is_started_def pool_client_def client_post_def)

lemma impl_generate_error:
  assumes "hp_started hp" and "\<not> hc_closed (hp_client hp)"
  shows "case impl_generate impl send (Some hp) req of
      Inl e \<Rightarrow> is_provider_error e \<or> (\<exists>r. foreign (send (hp_client hp) r) e)
    | Inr resp \<Rightarrow> resp_model resp = impl_model impl"
proof (cases impl)
  case (GroqLLMProvider P)
  with groq.only_provider_errors [of P send "Some hp" req] groq.on_answer [of P send "Some hp" req]
  show ?thesis by (auto simp: open_pool_post [OF assms] split: sum.split)
next
  case (MistralLLMProvider P)
  with mistral.only_provider_errors [of P send "Some hp" req] mistral.on_answer [of P send "Some hp" req]
  show ?thesis by (auto simp: open_pool_post [OF assms] split: sum.split)
next
  case (GeminiLLMProvider P)
  with gemini.only_provider_errors [where P = P and send = send and pool = "Some hp" and q = req]
    gemini.on_answer [where P = P and send = send and pool = "Some hp" and q = req]
  show ?thesis by (auto simp: open_pool_post [OF assms] split: sum.split)
qed (simp add: fake_generate_def)

lemma env_ok_app_env [simp]: "env_ok (app_env impls hp net late w) = env_ok w"
  by (simp add: env_ok_def steady_def app_env_def)

lemma provider_objects_member:
  "p \<in> set (provider_objects impls) \<Longrightarrow> prov_id p < length impls \<and> prov_name p = Some (impl_name (impls ! prov_id p))"
  by (auto simp: provider_objects_def provider_object_def in_set_enumerate_eq)

text \<open>
  C7: The composed application answers or fails with an error of known origin. Take any
  application that startup built and any state its gateway reaches while serving. Whatever the
  network does during each attempt and whichever attempts are given up for time, a request ends
  in a response of a model of the configured chain, or in an \<open>LLMProviderError\<close>, or in an exception
  the HTTP library raised, for a request on the application's client, outside the two classes the
  providers translate (\<open>foreign\<close>), or, with more than 1024 configured retries, in the
  \<open>OverflowError\<close> of the backoff; nothing else escapes, and the gateway still serves that chain.
  Other tasks may interfere with the router in between as \<open>env_ok\<close> allows.
\<close>

theorem application_answers_or_provider_error:
  assumes started: "startup upper lower st connect clk = (Inr app, events)"
    and reached: "served (provider_objects (app_impls app)) st g"
    and ok: "env_ok w"
  shows "(case fst (generate g (app_env (app_impls app) (app_pool app) net late w) req) of
      Inr resp \<Rightarrow> resp_model resp \<in> impl_model ` set (app_impls app)
    | Inl e \<Rightarrow> is_provider_error e
        \<or> (\<exists>i a r. foreign (net i a (hp_client (app_pool app)) r) e)
        \<or> e = OverflowError \<and> 1024 < llm_max_retries st)
   \<and> map router_name (gw_providers g) = provider_names lower st"
proof -
  note sound = startup_sound [OF started]
  let ?w = "app_env (app_impls app) (app_pool app) net late w"
  from served_inv [OF reached] have g: "gateway_inv g" "gw_max_retries g = llm_max_retries st"
    and ps: "gw_providers g = provider_objects (app_impls app)" by auto
  have ok': "env_ok ?w" using ok by simp
  have "case fst (generate g ?w req) of
      Inr resp \<Rightarrow> resp_model resp \<in> impl_model ` set (app_impls app)
    | Inl e \<Rightarrow> is_provider_error e \<or> (\<exists>i a r. foreign (net i a (hp_client (app_pool app)) r) e)
        \<or> e = OverflowError \<and> 1024 < llm_max_retries st"
    using g(1) ok'
  proof (rule generate_attempt_source [of g ?w req])
    assume "fst (generate g ?w req) = Inl OverflowError" "1024 < gw_max_retries g"
    with g(2) show ?thesis by simp
  next
    fix i a p
    assume p: "p \<in> set (gw_providers g)" and src: "surface (env_result ?w i a p req) = fst (generate g ?w req)"
    have "case env_result ?w i a p req of
        Inl e \<Rightarrow> e = TimeoutError \<or> is_provider_error e \<or> (\<exists>i a r. foreign (net i a (hp_client (app_pool app)) r) e)
      | Inr resp \<Rightarrow> resp_model resp \<in> impl_model ` set (app_impls app)"
      using impl_generate_error [OF sound(2,3), where impl = "app_impls app ! prov_id p" and send = "net i a" and req = req]
        provider_objects_member [of p "app_impls app"] p ps
      by (auto simp: app_env_def split: sum.splits)
    then show ?thesis by (auto simp: surface_def simp flip: src split: sum.splits)
  qed
  moreover have "map router_name (gw_providers g) = provider_names lower st"
  proof -
    note b = build_nonempty [OF sound(5)]
    from b(2,3) have "list_all (\<lambda>i. impl_name i \<noteq> []) (app_impls app)"
      using served_name_nonempty by (auto simp: list_all_iff simp flip: b(2))
    with provider_objects_names b(2) ps show ?thesis by simp
  qed
  ultimately show ?thesis by blast
qed

lemma fake_app_starts:
  "\<exists>app events. startup ascii_lower ascii_lower (chain_settings (u ''fake'')) (\<lambda>_. Inr ks_client) (\<lambda>_. 0)
      = (Inr app, events) \<and> app_impls app = [FakeLLMProvider new_fake]"
proof -
  let ?st = "chain_settings (u ''fake'')"
  have names: "provider_names ascii_lower ?st = [u ''fake'']"
    by (simp add: provider_names_def split_on_def u_def strip_def is_space_def
        ascii_lower_def ascii_lower_char_def)
  then have impls: "build_llm_providers ascii_lower ?st = Inr [FakeLLMProvider new_fake]"
    by (simp add: build_llm_providers_def build_one_def u_def)
  have "valid_settings ascii_lower ascii_lower ?st"
    by (simp add: valid_settings_def names served_name_def)
      (simp add: chain_settings_def default_settings_def u_def ascii_lower_def ascii_lower_char_def)
  with startup_iff_valid [where connect = "\<lambda>_. Inr ks_client" and st = ?st, OF refl]
  obtain app where "fst (startup ascii_lower ascii_lower ?st (\<lambda>_. Inr ks_client) (\<lambda>_. 0)) = Inr app" by blast
  then obtain events where app: "startup ascii_lower ascii_lower ?st (\<lambda>_. Inr ks_client) (\<lambda>_. 0) = (Inr app, events)"
    by (metis prod.collapse)
  with startup_sound(5) [OF app] impls show ?thesis by simp
qed

lemma application_answers_or_provider_error_witness:
  "\<exists>app g. map router_name (gw_providers g) = [u ''fake'']
    \<and> (case fst (generate g (app_env (app_impls app) (app_pool (app :: keyspace app_state))
          (\<lambda>i a. answer_429) (\<lambda>i a. False) (quiet_env limited_then_ok)) (mk_request (u ''hi''))) of
        Inr resp \<Rightarrow> resp_model resp = u ''fake-model'' | Inl e \<Rightarrow> is_provider_error e)"
proof -
  have none: "\<not> foreign (answer_429 client r) e" for client r e by (simp add: foreign_def answer_429_def)
  let ?st = "chain_settings (u ''fake'')"
  obtain app events where app: "startup ascii_lower ascii_lower ?st (\<lambda>_. Inr ks_client) (\<lambda>_. 0) = (Inr app, events)"
    "app_impls app = [FakeLLMProvider new_fake]" using fake_app_starts by blast
  from startup_sound(6) [OF app(1)] have reached: "served (provider_objects (app_impls app)) ?st (app_gateway app)"
    by (auto intro: served.built)
  have "llm_max_retries ?st \<le> 1024" by (simp add: chain_settings_def default_settings_def)
  moreover have "provider_names ascii_lower ?st = [u ''fake'']"
    by (simp add: provider_names_def split_on_def u_def strip_def is_space_def
        ascii_lower_def ascii_lower_char_def)
  ultimately show ?thesis
    using application_answers_or_provider_error [OF app(1) reached, of "quiet_env limited_then_ok"
        "\<lambda>i a. answer_429" "\<lambda>i a. False" "mk_request (u ''hi'')"] quiet_env_ok
    by (intro exI [of _ app] exI [of _ "app_gateway app"]) (simp add: app(2) new_fake_def none cong: sum.case_cong)
qed

subsection \<open>Requests without the key\<close>

lemma serve_split:
  assumes "serve fa st app amb rq s g = (out, s', g', es, logs)"
  obtains (unmatched) "find_route (fa_routes fa) rq = None" "s' = s" "g' = g"
      "dispatch (rq\<lparr>rq_route_path := None\<rparr>) (amb_fresh_id amb) (amb_elapsed amb) (Inr (amb_unmatched amb rq))
        = (out, es, logs)"
  | (matched) ep inner es1 es2 where "find_route (fa_routes fa) rq = Some (rq_path rq, ep)"
      "handle ep st app amb rq s g = (inner, s', g', es1)" "es = es1 @ es2"
      "dispatch (rq\<lparr>rq_route_path := Some (rq_path rq)\<rparr>) (amb_fresh_id amb) (amb_elapsed amb) inner
        = (out, es2, logs)"
proof (cases "find_route (fa_routes fa) rq")
  case None
  with assms show ?thesis by (auto simp: serve_def split: prod.splits intro: unmatched)
next
  case (Some pe)
  then obtain ep where "find_route (fa_routes fa) rq = Some (rq_path rq, ep)"
    using find_route_member by (metis surj_pair)
  with assms show ?thesis by (auto simp: serve_def split: prod.splits intro: matched)
qed

lemma dispatch_status:
  assumes "dispatch rq i t inner = (out, es, logs)"
  shows "es = http_metrics rq (case out of Inl e \<Rightarrow> u ''500'' | Inr r \<Rightarrow> str_int (rs_status r)) t"
    and "length logs = 1" and "turned_away inner \<Longrightarrow> turned_away out"
  using assms by (auto simp: dispatch_def split: sum.splits)

text \<open>
  C10: Nothing behind the key is reached without it. Whatever the method, the path, the body and
  the state, a request that does not carry the configured key calls no provider, leaves the
  gateway as it was and, apart from the ping of the readiness probe, the store as well. On
  \<open>POST /v1/generate\<close> and \<open>GET /v1/rate-limit/check\<close> the store is not touched at all, and the
  answer is 401, 503 or, for a body that is no JSON, 422; only a comparison with a non-ASCII key
  ends in a \<open>TypeError\<close> instead.
\<close>

theorem guarded_endpoints_need_the_key:
  assumes run: "serve (fst (create_app st tp)) st app amb rq s g = (out, s', g', es, logs)"
    and no_key: "rq_api_key rq \<noteq> api_key st \<or> api_key st \<in> {None, Some []}"
  shows "g' = g \<and> called es = []
    \<and> (s' = s \<or> rq_path rq = u ''/v1/ready'' \<and> s' = snd (adapter_ping (app_adapter app) s))
    \<and> ((rq_method rq, rq_path rq)
          \<in> {(u ''POST'', u ''/v1/generate''), (u ''GET'', u ''/v1/rate-limit/check'')}
        \<longrightarrow> s' = s \<and> turned_away out)"
proof -
  have key: "\<not> has_key st rq" using no_key by (auto simp: has_key_def)
  have routes: "fa_routes (fst (create_app st tp)) = api_router" by (simp add: create_app_def)
  have quiet: "called (http_metrics r c t) = []" for r c t by (simp add: http_metrics_def)
  show ?thesis
    using run
  proof (cases rule: serve_split)
    case unmatched
    then have "(rq_method rq, rq_path rq) \<notin> {(u ''POST'', u ''/v1/generate''), (u ''GET'', u ''/v1/rate-limit/check'')}"
      by (auto simp: routes find_route_none api_router_eval)
    with unmatched quiet dispatch_status(1) [OF unmatched(4)] show ?thesis by blast
  next
    case (matched ep inner es1 es2)
    from matched(1) have mem: "(rq_method rq, rq_path rq, ep) \<in> set api_router"
      using find_route_member routes by metis
    show ?thesis
    proof (cases "guarded ep")
      case True
      with handle_without_key [OF key True, of app amb s g] matched quiet dispatch_status [OF matched(4)]
      show ?thesis by auto
    next
      case False
      with handle_unguarded [OF False, of st app amb rq s g] matched quiet dispatch_status(1) [OF matched(4)] mem
      show ?thesis
        by (cases ep) (auto simp: guarded_def api_router_eval u_def)
    qed
  qed
qed

definition demo_ambient :: ambient where
  "demo_ambient = \<lparr>amb_casefold = ascii_fold, amb_env = quiet_env limited_then_ok, amb_time = 30,
     amb_describe = (\<lambda>e. ([], [])), amb_page = [],
     amb_unmatched = (\<lambda>rq. \<lparr>rs_status = 404, rs_headers = [], rs_body = Text_Body []\<rparr>),
     amb_fresh_id = u ''id'', amb_elapsed = 1\<rparr>"

definition demo_post :: http_call where
  "demo_post = \<lparr>rq_method = u ''POST'', rq_path = u ''/v1/generate'', rq_route_path = None,
     rq_request_id = None, rq_api_key = Some (u ''wrong''), rq_body = Some JNull\<rparr>"

definition demo_app :: "keyspace app_state" where
  "demo_app = \<lparr>app_adapter = ks_client, app_limiter = tight_limiter, app_cache = demo_cache,
     app_pool = \<lparr>hp_client = own_client 30, hp_started = True\<rparr>,
     app_impls = [FakeLLMProvider new_fake], app_gateway = demo_gateway\<rparr>"

abbreviation demo_serve :: "http_call \<Rightarrow> http_reply result \<times> keyspace \<times> gateway \<times> effect list \<times> log_record list" where
  "demo_serve rq \<equiv> serve (fst (create_app (keyed (u ''k1'')) Proxy)) (keyed (u ''k1'')) demo_app demo_ambient
     rq (empty_ks 30) demo_gateway"

lemma guarded_endpoints_need_the_key_witness:
  "turned_away (fst (demo_serve demo_post)) \<and> fst (snd (demo_serve demo_post)) = empty_ks 30"
proof -
  obtain out s' g' es logs where run: "demo_serve demo_post = (out, s', g', es, logs)"
    by (metis prod_cases5)
  have key: "rq_api_key demo_post \<noteq> api_key (keyed (u ''k1'')) \<or> api_key (keyed (u ''k1'')) \<in> {None, Some []}"
    by (simp add: demo_post_def keyed_def u_def)
  have "(rq_method demo_post, rq_path demo_post)
      \<in> {(u ''POST'', u ''/v1/generate''), (u ''GET'', u ''/v1/rate-limit/check'')}"
    by (simp add: demo_post_def)
  with guarded_endpoints_need_the_key [OF run key] have "s' = empty_ks 30 \<and> turned_away out" by blast
  with run show ?thesis by simp
qed

subsection \<open>Counting requests\<close>

text \<open>
  C28: Every request is counted exactly once. Whatever happens inside, the only HTTP metrics a
  request leaves are one increment of \<open>HTTP_REQUESTS_TOTAL\<close> under its method, its path and the
  status of the reply, or 500 when the application raises, and one observed duration; all labels
  of all metrics are the declared ones and one record is logged. A reply that the middleware
  returns carries exactly one \<open>X-Request-ID\<close>, the caller's if it is not empty; an exception is
  raised again, and the server's own reply to it is made outside the middleware, without that
  header. The route label is the path of the request whether or not a route matches, as the
  templates have no parameters.
\<close>

theorem served_requests_counted_once:
  assumes run: "serve (fst (create_app st tp)) st app amb rq s g = (out, s', g', es, logs)"
  shows "(\<exists>pre. es = pre @
        [Inc HTTP_REQUESTS_TOTAL [(''method'', rq_method rq), (''route'', rq_path rq),
           (''status_code'', case out of Inl e \<Rightarrow> u ''500'' | Inr r \<Rightarrow> str_int (rs_status r))],
         Observe HTTP_REQUEST_DURATION_SECONDS [(''method'', rq_method rq), (''route'', rq_path rq)]
           (amb_elapsed amb)] \<and> list_all (\<lambda>x. \<not> http_metric x) pre)
    \<and> list_all well_labelled es \<and> length logs = 1
    \<and> (\<forall>r. out = Inr r \<longrightarrow> filter (\<lambda>h. ascii_lower (fst h) = ascii_lower (u ''X-Request-ID'')) (rs_headers r)
         = [(ascii_lower (u ''X-Request-ID''), request_id_of rq (amb_fresh_id amb))])"
proof -
  have disp: "(\<exists>pre. es = pre @
        [Inc HTTP_REQUESTS_TOTAL [(''method'', rq_method rq), (''route'', rq_path rq),
           (''status_code'', case out of Inl e \<Rightarrow> u ''500'' | Inr r \<Rightarrow> str_int (rs_status r))],
         Observe HTTP_REQUEST_DURATION_SECONDS [(''method'', rq_method rq), (''route'', rq_path rq)]
           (amb_elapsed amb)] \<and> list_all (\<lambda>x. \<not> http_metric x) pre)
    \<and> list_all well_labelled es \<and> length logs = 1
    \<and> (\<forall>r. out = Inr r \<longrightarrow> filter (\<lambda>h. ascii_lower (fst h) = ascii_lower (u ''X-Request-ID'')) (rs_headers r)
         = [(ascii_lower (u ''X-Request-ID''), request_id_of rq (amb_fresh_id amb))])"
    if d: "dispatch (rq\<lparr>rq_route_path := t\<rparr>) (amb_fresh_id amb) (amb_elapsed amb) inner = (out, es2, logs)"
      and es: "es = es1 @ es2" "list_all inner_effect es1" and t: "t \<in> {None, Some (rq_path rq)}"
    for t inner es1 es2
  proof -
    have es2: "es2 = [Inc HTTP_REQUESTS_TOTAL [(''method'', rq_method rq), (''route'', rq_path rq),
           (''status_code'', case out of Inl e \<Rightarrow> u ''500'' | Inr r \<Rightarrow> str_int (rs_status r))],
         Observe HTTP_REQUEST_DURATION_SECONDS [(''method'', rq_method rq), (''route'', rq_path rq)] (amb_elapsed amb)]"
      using dispatch_status(1) [OF d] t by (auto simp: http_metrics_def get_route_def)
    have "list_all well_labelled es2" by (simp add: es2 metric_spec_def)
    moreover have "list_all well_labelled es1" "list_all (\<lambda>x. \<not> http_metric x) es1"
      using es(2) by (simp_all add: list_all_iff inner_effect_def)
    moreover have "filter (\<lambda>h. ascii_lower (fst h) = ascii_lower (u ''X-Request-ID'')) (rs_headers r)
         = [(ascii_lower (u ''X-Request-ID''), request_id_of rq (amb_fresh_id amb))]" if "out = Inr r" for r
      using d that by (auto simp: dispatch_def set_header_same request_id_of_def split: sum.splits)
    ultimately show ?thesis using es(1) es2 dispatch_status(2) [OF d] by auto
  qed
  show ?thesis
    using run
  proof (cases rule: serve_split)
    case unmatched
    from disp [OF unmatched(4), of "[]"] show ?thesis by simp
  next
    case (matched ep inner es1 es2)
    from inner_handle [of ep st app amb rq s g] matched(2) have "list_all inner_effect es1" by simp
    from disp [OF matched(4,3) this] show ?thesis by simp
  qed
qed

lemma served_requests_counted_once_witness:
  "list_all well_labelled (fst (snd (snd (snd (demo_serve demo_post)))))
   \<and> length (filter http_metric (fst (snd (snd (snd (demo_serve demo_post)))))) = 2"
proof -
  obtain out s' g' es logs where run: "demo_serve demo_post = (out, s', g', es, logs)"
    by (metis prod_cases5)
  from served_requests_counted_once [OF run] show ?thesis
    by (auto simp: run list_all_iff filter_empty_conv)
qed

end
