(* ===== verification/App_Config.thy ===== *)
theory App_Config
  imports App_Properties
begin

text \<open>
  From the environment to the running application: which environments a process starts up in, and
  with which providers.
\<close>

subsection \<open>From the environment\<close>








end
