(* ===== verification/App_Steps.thy ===== *)
theory App_Steps
  imports Api_Properties Gateway_Interleaving Rate_Properties
begin

text \<open>
  Concurrent requests to \<open>POST /v1/generate\<close> of one application process
  (\<open>nexus/api/routes/generate.py\<close>, \<open>nexus/api/dependencies.py\<close>), interleaved at their awaits: a
  request waits for its rate-limit check, for the cache lookup, for the gateway, and for the
  store of its response. The world holds the Redis server and the checks of every worker, so
  other processes and endpoints act through it; the gateway is the process's own.

  A running application projects onto a world of checks and onto the tasks of a gateway, and
  what is known of those carries over.
\<close>

subsection \<open>Requests\<close>

datatype request_phase =
    Checking nat
  | Looking pystr
  | Calling nat pystr
  | Done "generate_response result"

text \<open>\<open>ar_check\<close> and \<open>ar_call\<close> are history: the check made for the request, and its gateway call.\<close>

record api_request =
  ar_body :: json
  ar_env :: env
  ar_phase :: request_phase
  ar_check :: "nat option"
  ar_call :: "nat option"

record running =
  rn_world :: world
  rn_tasks :: gateway_tasks
  rn_requests :: "api_request list"

definition new_request :: "json \<Rightarrow> env \<Rightarrow> request_phase \<Rightarrow> nat option \<Rightarrow> api_request" where
  "new_request body w ph n = \<lparr>ar_body = body, ar_env = w, ar_phase = ph, ar_check = n, ar_call = None\<rparr>"

text \<open>From the end of the check to the lookup: what \<open>enforce_rate_limit\<close> and the validation of the
  body do with the result.\<close>

definition after_check :: "phase \<Rightarrow> json \<Rightarrow> request_phase option" where
  "after_check ph body =
     (case ph of
        Failed e \<Rightarrow> Some (Done (Inl e))
      | Finished res \<Rightarrow>
          (if allowed res
           then (case request_prompt body of
                   Some p \<Rightarrow> Some (Looking p)
                 | None \<Rightarrow> Some (Done (Inl request_validation_error)))
           else Some (Done (Inl (HTTPException HTTP_429 (u ''rate limit exceeded'') (limit_headers res)))))
      | _ \<Rightarrow> None)"

definition set_request :: "nat \<Rightarrow> api_request \<Rightarrow> running \<Rightarrow> running" where
  "set_request j rq s = s\<lparr>rn_requests := (rn_requests s)[j := rq]\<rparr>"

definition set_keyspace :: "keyspace \<Rightarrow> running \<Rightarrow> running" where
  "set_keyspace k s = s\<lparr>rn_world := (rn_world s)\<lparr>w_ks := k\<rparr>\<rparr>"

text \<open>The lookup answers, or the request enters the gateway before anyone else goes on.\<close>

definition look :: "(nat \<Rightarrow> pystr) \<Rightarrow> nat \<Rightarrow> pystr \<Rightarrow> running \<Rightarrow> running" where
  "look cf j p s =
     (let rq = rn_requests s ! j; g = gt_gateway (rn_tasks s); n = length (gt_calls (rn_tasks s))
      in case lookup_cached (redis_cache ks_client) cf p (w_ks (rn_world s)) of
           (Some cached, k, es) \<Rightarrow>
             set_request j (rq\<lparr>ar_phase := Done (Inr (cached_response cached))\<rparr>) (set_keyspace k s)
         | (None, k, es) \<Rightarrow>
             set_request j (rq\<lparr>ar_phase := Calling n p, ar_call := Some n\<rparr>)
               (set_keyspace k (s\<lparr>rn_tasks := (rn_tasks s)\<lparr>gt_calls :=
                  gt_calls (rn_tasks s) @ [start_call g (ar_env rq) (mk_request p)]\<rparr>\<rparr>)))"

text \<open>The gateway has answered: the response is stored and returned, or the exception raised.\<close>

definition answer :: "semantic_cache \<Rightarrow> (nat \<Rightarrow> pystr) \<Rightarrow> nat \<Rightarrow> pystr \<Rightarrow> llm_response result \<Rightarrow> running \<Rightarrow> running" where
  "answer c cf j p res s =
     (case conclude (redis_cache ks_client) c cf p res (w_ks (rn_world s)) of
        (out, k, es) \<Rightarrow>
          set_request j ((rn_requests s ! j)\<lparr>ar_phase := Done out\<rparr>) (set_keyspace k s))"

subsection \<open>Steps\<close>

inductive app_step ::
  "settings \<Rightarrow> rate_limiter \<Rightarrow> semantic_cache \<Rightarrow> (nat \<Rightarrow> pystr) \<Rightarrow> real \<Rightarrow> running \<Rightarrow> running \<Rightarrow> bool"
for st l c cf skew where
  Refuse: "require_api_key st key = Inl e \<Longrightarrow>
     app_step st l c cf skew s
       (s\<lparr>rn_requests := rn_requests s @ [new_request body w (Done (Inl e)) None]\<rparr>)"
| Enter: "require_api_key st key = Inr user \<Longrightarrow> steady w \<Longrightarrow> n = length (w_tasks (rn_world s)) \<Longrightarrow>
     app_step st l c cf skew s
       (s\<lparr>rn_world := (rn_world s)\<lparr>w_tasks :=
            w_tasks (rn_world s) @ [new_task user (wall_time skew (rn_world s))]\<rparr>,
          rn_requests := rn_requests s @ [new_request body w (Checking n) (Some n)]\<rparr>)"
| World: "rl_step l skew (rn_world s) w' \<Longrightarrow> app_step st l c cf skew s (s\<lparr>rn_world := w'\<rparr>)"
| Decide: "j < length (rn_requests s) \<Longrightarrow> rq = rn_requests s ! j \<Longrightarrow> ar_phase rq = Checking n
     \<Longrightarrow> after_check (t_phase (w_tasks (rn_world s) ! n)) (ar_body rq) = Some ph
     \<Longrightarrow> app_step st l c cf skew s (set_request j (rq\<lparr>ar_phase := ph\<rparr>) s)"
| Look: "j < length (rn_requests s) \<Longrightarrow> ar_phase (rn_requests s ! j) = Looking p
     \<Longrightarrow> app_step st l c cf skew s (look cf j p s)"
| Gateway: "n < length (gt_calls (rn_tasks s))
     \<Longrightarrow> app_step st l c cf skew s (s\<lparr>rn_tasks := resume_at n (rn_tasks s)\<rparr>)"
| Answer: "j < length (rn_requests s) \<Longrightarrow> ar_phase (rn_requests s ! j) = Calling n p
     \<Longrightarrow> gc_state (gt_calls (rn_tasks s) ! n) = Answered res
     \<Longrightarrow> app_step st l c cf skew s (answer c cf j p res s)"

inductive app_reach ::
  "provider list \<Rightarrow> settings \<Rightarrow> rate_limiter \<Rightarrow> semantic_cache \<Rightarrow> (nat \<Rightarrow> pystr) \<Rightarrow> real \<Rightarrow> running \<Rightarrow> bool"
for ps st l c cf skew where
  Start: "new_rate_limiter st = Inr l \<Longrightarrow> new_semantic_cache st = Inr c
    \<Longrightarrow> new_gateway ps st clk = (Inr g, es) \<Longrightarrow> 0 \<le> ks_clock k + skew
    \<Longrightarrow> (\<And>user b. ks_data k (rate_limit_minute_key user b) = None)
    \<Longrightarrow> (\<And>user b. ks_data k (rate_limit_hour_key user b) = None)
    \<Longrightarrow> app_reach ps st l c cf skew \<lparr>rn_world = \<lparr>w_ks = k, w_tasks = []\<rparr>,
          rn_tasks = \<lparr>gt_gateway = g, gt_calls = []\<rparr>, rn_requests = []\<rparr>"
| Step: "app_reach ps st l c cf skew s \<Longrightarrow> app_step st l c cf skew s s'
    \<Longrightarrow> app_reach ps st l c cf skew s'"

text \<open>Steps that write the semantic cache only as the application's own requests do: a step that
  moves none of them leaves its entries as they are.\<close>

definition keeps_cache :: "keyspace \<Rightarrow> keyspace \<Rightarrow> bool" where
  "keeps_cache k k' \<longleftrightarrow> (\<forall>h. ks_data k' (semantic_cache_key h) = ks_data k (semantic_cache_key h))"

definition calm_check :: "rate_limiter \<Rightarrow> real \<Rightarrow> world \<Rightarrow> world \<Rightarrow> bool" where
  "calm_check l skew w w' \<longleftrightarrow> rl_step l skew w w' \<and> keeps_cache (w_ks w) (w_ks w')"

definition calm_step ::
  "settings \<Rightarrow> rate_limiter \<Rightarrow> semantic_cache \<Rightarrow> (nat \<Rightarrow> pystr) \<Rightarrow> real \<Rightarrow> running \<Rightarrow> running \<Rightarrow> bool"
where
  "calm_step st l c cf skew s s' \<longleftrightarrow> app_step st l c cf skew s s'
     \<and> (rn_requests s' \<noteq> rn_requests s \<or> keeps_cache (w_ks (rn_world s)) (w_ks (rn_world s')))"

lemma keeps_cache_refl [simp]: "keeps_cache k k"
  by (simp add: keeps_cache_def)

lemma calm_step_app: "calm_step st l c cf skew s s' \<Longrightarrow> app_step st l c cf skew s s'"
  by (simp add: calm_step_def)

text \<open>A step that adds a request or moves one is calm.\<close>

lemma calm_new: "app_step st l c cf skew s s' \<Longrightarrow> length (rn_requests s') \<noteq> length (rn_requests s)
  \<Longrightarrow> calm_step st l c cf skew s s'"
  by (auto simp: calm_step_def)

lemma calm_moved: "app_step st l c cf skew s s' \<Longrightarrow> ar_phase (rn_requests s' ! j) \<noteq> ar_phase (rn_requests s ! j)
  \<Longrightarrow> calm_step st l c cf skew s s'"
  by (auto simp: calm_step_def)

lemma calm_kept: "app_step st l c cf skew s s' \<Longrightarrow> w_ks (rn_world s') = w_ks (rn_world s)
  \<Longrightarrow> calm_step st l c cf skew s s'"
  by (simp add: calm_step_def)

lemma count_keeps_cache:
  "count_minute (redis_cache ks_client) user now k = (r, k') \<Longrightarrow> keeps_cache k k'"
  "count_hour (redis_cache ks_client) user now k = (r, k') \<Longrightarrow> keeps_cache k k'"
  using increment_frame(2) by (auto simp: count_minute_def count_hour_def keeps_cache_def)

subsection \<open>The cache leaves the counters alone\<close>

text \<open>What neither moves the clock nor touches a rate-limit key.\<close>

definition leaves_counters :: "keyspace \<Rightarrow> keyspace \<Rightarrow> bool" where
  "leaves_counters k k' \<longleftrightarrow> ks_clock k' = ks_clock k
     \<and> (\<forall>user b. ks_data k' (rate_limit_minute_key user b) = ks_data k (rate_limit_minute_key user b))
     \<and> (\<forall>user b. ks_data k' (rate_limit_hour_key user b) = ks_data k (rate_limit_hour_key user b))"

lemma leaves_counters_refl [simp]: "leaves_counters k k"
  by (simp add: leaves_counters_def)

lemma leaves_counters_step:
  "leaves_counters (w_ks w) k' \<Longrightarrow> rl_step l skew w (w\<lparr>w_ks := k'\<rparr>)"
  by (auto simp: leaves_counters_def intro: rl_step.Others)

lemma adapter_get_state: "snd (adapter_get ks_client key k) = k"
  by (auto simp: adapter_get_def encoded_def ks_get_def split: option.splits rvalue.splits)

lemma lookup_state: "fst (snd (lookup_cached (redis_cache ks_client) cf p k)) = k"
proof -
  have "fst (snd (cache_get (redis_cache ks_client) cf p k)) = k"
    using adapter_get_state by (auto simp: cache_get_def split: sum.splits prod.splits option.splits) (metis snd_conv)+
  then show ?thesis by (simp add: lookup_cached_def split_beta Let_def)
qed

lemma set_leaves_counters:
  "leaves_counters k (snd (cache_set (redis_cache ks_client) c cf p r k))"
proof (cases "query_key cf p")
  case (Inr key)
  then obtain h where "key = semantic_cache_key h" using query_key_family by blast
  with Inr show ?thesis
    by (auto simp: cache_set_def Let_def payload_size adapter_set_def encoded_def ks_set_def leaves_counters_def)
qed (simp add: cache_set_def Let_def payload_size)

lemma conclude_leaves_counters:
  "conclude (redis_cache ks_client) c cf p res k = (out, k', es) \<Longrightarrow> leaves_counters k k'"
  using set_leaves_counters
  by (auto simp: conclude_def store_response_def split: sum.splits)

end
