(* ===== verification/App_Interleaving.thy ===== *)
theory App_Interleaving
  imports App_Steps
begin

text \<open>
  The invariant of concurrent generate requests: a running application is, seen from its checks,
  a run of the rate limiter, and seen from its gateway, a run of concurrent gateway calls; each
  request has a check of its own, and each gateway call belongs to one request that was admitted.
\<close>

subsection \<open>Optional marks that are never shared\<close>

definition unshared :: "('a \<Rightarrow> nat option) \<Rightarrow> 'a list \<Rightarrow> bool" where
  "unshared f xs \<longleftrightarrow>
     (\<forall>i < length xs. \<forall>j < length xs. f (xs ! i) \<noteq> None \<longrightarrow> f (xs ! i) = f (xs ! j) \<longrightarrow> i = j)"

lemma unshared_Nil [simp]: "unshared f []"
  by (simp add: unshared_def)

lemma unshared_snoc:
  assumes "unshared f xs" and "\<And>x. x \<in> set xs \<Longrightarrow> f y \<noteq> None \<Longrightarrow> f x \<noteq> f y"
  shows "unshared f (xs @ [y])"
proof -
  have "f (xs ! i) \<noteq> f y" if "i < length xs" "f y \<noteq> None" for i
    using assms(2) that by simp
  with assms(1) show ?thesis
    unfolding unshared_def by (auto simp: nth_append less_Suc_eq)
qed

lemma unshared_update:
  assumes "unshared f xs" and "j < length xs"
    and "f y = f (xs ! j) \<or> (\<forall>x \<in> set xs. f x \<noteq> f y)"
  shows "unshared f (xs[j := y])"
  using assms(3)
proof
  assume "f y = f (xs ! j)"
  then have "f (xs[j := y] ! i) = f (xs ! i)" for i by (cases "i = j") (use assms(2) in auto)
  with assms(1) show ?thesis by (simp add: unshared_def)
next
  assume fresh: "\<forall>x \<in> set xs. f x \<noteq> f y"
  then have "f (xs ! i) \<noteq> f y" if "i < length xs" for i using that by simp
  with assms(1,2) show ?thesis unfolding unshared_def by (auto simp: nth_list_update)
qed

subsection \<open>Checks that are over stay as they are\<close>

lemma rl_step_keeps:
  assumes "rl_step l skew w w'" and "n < length (w_tasks w)"
  shows "n < length (w_tasks w')
    \<and> (\<forall>res. t_phase (w_tasks w ! n) = Finished res \<longrightarrow> w_tasks w' ! n = w_tasks w ! n)"
  using assms by cases (auto simp: nth_append nth_list_update)

subsection \<open>The invariant\<close>

definition admitted :: "world \<Rightarrow> api_request \<Rightarrow> bool" where
  "admitted w rq = (case ar_check rq of
     None \<Rightarrow> False
   | Some n \<Rightarrow> n < length (w_tasks w)
       \<and> (case t_phase (w_tasks w ! n) of Finished res \<Rightarrow> allowed res | _ \<Rightarrow> False))"

definition request_inv :: "world \<Rightarrow> nat \<Rightarrow> api_request \<Rightarrow> bool" where
  "request_inv w m rq \<longleftrightarrow>
     (\<forall>n. ar_check rq = Some n \<longrightarrow> n < length (w_tasks w))
     \<and> (\<forall>k. ar_call rq = Some k \<longrightarrow> k < m \<and> admitted w rq)
     \<and> (case ar_phase rq of
          Checking n \<Rightarrow> ar_check rq = Some n \<and> ar_call rq = None \<and> steady (ar_env rq)
        | Looking p \<Rightarrow> admitted w rq \<and> ar_call rq = None \<and> steady (ar_env rq)
        | Calling k p \<Rightarrow> ar_call rq = Some k
        | Done out \<Rightarrow> True)"

definition app_inv :: "running \<Rightarrow> bool" where
  "app_inv s \<longleftrightarrow>
     (\<forall>rq \<in> set (rn_requests s). request_inv (rn_world s) (length (gt_calls (rn_tasks s))) rq)
     \<and> unshared ar_check (rn_requests s) \<and> unshared ar_call (rn_requests s)
     \<and> (\<forall>k < length (gt_calls (rn_tasks s)). \<exists>rq \<in> set (rn_requests s). ar_call rq = Some k)"

lemma app_inv_each:
  "app_inv s \<Longrightarrow> rq \<in> set (rn_requests s)
     \<Longrightarrow> request_inv (rn_world s) (length (gt_calls (rn_tasks s))) rq"
  by (simp add: app_inv_def)

lemma app_inv_unshared:
  "app_inv s \<Longrightarrow> unshared ar_check (rn_requests s) \<and> unshared ar_call (rn_requests s)"
  by (simp add: app_inv_def)

lemma request_inv_done:
  "request_inv w m rq \<Longrightarrow> request_inv w m (rq\<lparr>ar_phase := Done out\<rparr>)"
  by (simp add: request_inv_def admitted_def)

lemma admitted_mono: "rl_step l skew w w' \<Longrightarrow> admitted w rq \<Longrightarrow> admitted w' rq"
  using rl_step_keeps [of l skew w w']
  by (auto simp: admitted_def split: option.splits phase.splits)

lemma admitted_snoc: "admitted w rq \<Longrightarrow> admitted (w\<lparr>w_tasks := w_tasks w @ [t]\<rparr>) rq"
  by (auto simp: admitted_def nth_append split: option.splits phase.splits)

lemma admitted_keyspace [simp]: "admitted (w\<lparr>w_ks := k\<rparr>) rq = admitted w rq"
  by (simp add: admitted_def split: option.split)

lemma request_inv_keyspace [simp]: "request_inv (w\<lparr>w_ks := k\<rparr>) m rq = request_inv w m rq"
  by (simp add: request_inv_def split: request_phase.split)

lemma request_inv_mono:
  assumes "request_inv w m rq" and "\<And>n. n < length (w_tasks w) \<Longrightarrow> n < length (w_tasks w')"
    and "admitted w rq \<Longrightarrow> admitted w' rq" and "m \<le> m'"
  shows "request_inv w' m' rq"
  using assms by (auto simp: request_inv_def split: request_phase.splits)

lemma app_inv_same_marks:
  assumes inv: "app_inv s" and j: "j < length (rn_requests s)"
    and marks: "ar_check rq = ar_check (rn_requests s ! j)" "ar_call rq = ar_call (rn_requests s ! j)"
    and rq: "request_inv (rn_world s) (length (gt_calls (rn_tasks s))) rq"
  shows "app_inv (set_request j rq s)"
proof -
  have call: "ar_call ((rn_requests s)[j := rq] ! i) = ar_call (rn_requests s ! i)" for i
    using marks(2) j by (cases "i = j") auto
  have onto: "\<exists>r \<in> set ((rn_requests s)[j := rq]). ar_call r = Some k"
    if k: "k < length (gt_calls (rn_tasks s))" for k
  proof -
    from inv k obtain i where "i < length (rn_requests s)" "ar_call (rn_requests s ! i) = Some k"
      unfolding app_inv_def by (metis in_set_conv_nth)
    with call show ?thesis by (metis length_list_update nth_mem)
  qed
  have each: "request_inv (rn_world s) (length (gt_calls (rn_tasks s))) r"
    if "r \<in> set ((rn_requests s)[j := rq])" for r
    using set_update_cases [OF that] inv rq unfolding app_inv_def by blast
  have "unshared ar_check ((rn_requests s)[j := rq])" "unshared ar_call ((rn_requests s)[j := rq])"
    using inv unfolding app_inv_def by (auto intro!: unshared_update [OF _ j] simp: marks)
  with onto each show ?thesis by (simp add: app_inv_def set_request_def)
qed

lemma app_inv_keyspace [simp]: "app_inv (set_keyspace k s) = app_inv s"
  by (simp add: app_inv_def set_keyspace_def)

lemma app_inv_world:
  assumes "app_inv s" and "rl_step l skew (rn_world s) w'"
  shows "app_inv (s\<lparr>rn_world := w'\<rparr>)"
proof -
  have "request_inv w' m rq" if "request_inv (rn_world s) m rq" for m rq
    using that rl_step_keeps [OF assms(2)] admitted_mono [OF assms(2)]
    by (intro request_inv_mono [OF that]) auto
  with assms(1) show ?thesis by (simp add: app_inv_def)
qed

lemma app_inv_request:
  assumes inv: "app_inv s" and "ar_check rq = None" and "ar_call rq = None"
    and "request_inv (rn_world s) (length (gt_calls (rn_tasks s))) rq"
  shows "app_inv (s\<lparr>rn_requests := rn_requests s @ [rq]\<rparr>)"
  using assms unshared_snoc [of ar_check "rn_requests s" rq] unshared_snoc [of ar_call "rn_requests s" rq]
  by (auto simp: app_inv_def)

lemma app_inv_enter:
  assumes inv: "app_inv s" and w: "steady w"
  defines "n \<equiv> length (w_tasks (rn_world s))"
  shows "app_inv (s\<lparr>rn_world := (rn_world s)\<lparr>w_tasks := w_tasks (rn_world s) @ [t]\<rparr>,
    rn_requests := rn_requests s @ [new_request body w (Checking n) (Some n)]\<rparr>)"
proof -
  let ?w = "(rn_world s)\<lparr>w_tasks := w_tasks (rn_world s) @ [t]\<rparr>"
  let ?rq = "new_request body w (Checking n) (Some n)"
  let ?m = "length (gt_calls (rn_tasks s))"
  have old: "request_inv ?w ?m rq" if "rq \<in> set (rn_requests s)" for rq
    using admitted_snoc by (intro request_inv_mono [OF app_inv_each [OF inv that]]) auto
  have new: "request_inv ?w ?m ?rq" using w by (simp add: request_inv_def new_request_def n_def)
  have fresh: "ar_check rq \<noteq> Some n" if "rq \<in> set (rn_requests s)" for rq
    using app_inv_each [OF inv that] by (auto simp: request_inv_def n_def)
  have "unshared ar_check (rn_requests s @ [?rq])"
    using app_inv_unshared [OF inv] fresh by (intro unshared_snoc) (simp_all add: new_request_def)
  moreover have "unshared ar_call (rn_requests s @ [?rq])"
    using app_inv_unshared [OF inv] by (intro unshared_snoc) (simp_all add: new_request_def)
  moreover have "\<exists>rq \<in> set (rn_requests s @ [?rq]). ar_call rq = Some k" if "k < ?m" for k
    using inv that unfolding app_inv_def by (metis UnCI set_append)
  ultimately show ?thesis using old new by (simp add: app_inv_def)
qed

lemma app_inv_decide:
  assumes inv: "app_inv s" and j: "j < length (rn_requests s)"
    and phase: "ar_phase (rn_requests s ! j) = Checking n"
    and after: "after_check (t_phase (w_tasks (rn_world s) ! n)) (ar_body (rn_requests s ! j)) = Some ph"
  shows "app_inv (set_request j ((rn_requests s ! j)\<lparr>ar_phase := ph\<rparr>) s)"
proof (rule app_inv_same_marks [OF inv j])
  from app_inv_each [OF inv nth_mem [OF j]] phase after show "request_inv (rn_world s) (length (gt_calls (rn_tasks s)))
      ((rn_requests s ! j)\<lparr>ar_phase := ph\<rparr>)"
    by (auto simp: request_inv_def after_check_def admitted_def split: phase.splits option.splits if_splits)
qed simp_all

lemma app_inv_call:
  assumes inv: "app_inv s" and j: "j < length (rn_requests s)"
    and phase: "ar_phase (rn_requests s ! j) = Looking p"
  defines "n \<equiv> length (gt_calls (rn_tasks s))"
  shows "app_inv (set_request j ((rn_requests s ! j)\<lparr>ar_phase := Calling n p, ar_call := Some n\<rparr>)
    (s\<lparr>rn_tasks := (rn_tasks s)\<lparr>gt_calls := gt_calls (rn_tasks s) @ [c]\<rparr>\<rparr>))"
proof -
  let ?rq = "(rn_requests s ! j)\<lparr>ar_phase := Calling n p, ar_call := Some n\<rparr>"
  let ?rqs = "(rn_requests s)[j := ?rq]"
  have rq: "request_inv (rn_world s) n (rn_requests s ! j)"
    using app_inv_each [OF inv nth_mem [OF j]] by (simp add: n_def)
  have old: "request_inv (rn_world s) (Suc n) r" if "r \<in> set (rn_requests s)" for r
    by (rule request_inv_mono [OF app_inv_each [OF inv that]]) (simp_all add: n_def)
  have each: "request_inv (rn_world s) (Suc n) r" if r: "r \<in> set ?rqs" for r
    using set_update_cases [OF r]
  proof
    assume "r = ?rq"
    with rq phase show ?thesis by (auto simp: request_inv_def admitted_def)
  qed (rule old)
  have fresh: "ar_call r \<noteq> Some n" if "r \<in> set (rn_requests s)" for r
    using app_inv_each [OF inv that] by (auto simp: request_inv_def n_def)
  have "unshared ar_check ?rqs" using app_inv_unshared [OF inv] by (intro unshared_update [OF _ j]) simp_all
  moreover have "unshared ar_call ?rqs"
    using app_inv_unshared [OF inv] fresh by (intro unshared_update [OF _ j]) simp_all
  moreover have "\<exists>r \<in> set ?rqs. ar_call r = Some k" if "k < Suc n" for k
  proof (cases "k = n")
    case True
    then show ?thesis using j by (intro bexI [of _ ?rq]) (simp_all add: set_update_memI)
  next
    case False
    with that inv obtain i where i: "i < length (rn_requests s)" "ar_call (rn_requests s ! i) = Some k"
      unfolding app_inv_def n_def by (metis in_set_conv_nth less_antisym)
    have "i \<noteq> j" using i(2) rq phase by (auto simp: request_inv_def)
    with i(2) have "ar_call (?rqs ! i) = Some k" by simp
    moreover have "?rqs ! i \<in> set ?rqs" by (rule nth_mem) (simp add: i(1))
    ultimately show ?thesis by blast
  qed
  ultimately show ?thesis using each by (simp add: app_inv_def set_request_def n_def)
qed

lemma set_keyspace_request: "set_request j rq (set_keyspace k s) = set_keyspace k (set_request j rq s)"
  by (simp add: set_request_def set_keyspace_def)

lemma app_inv_look:
  assumes inv: "app_inv s" and j: "j < length (rn_requests s)"
    and phase: "ar_phase (rn_requests s ! j) = Looking p"
  shows "app_inv (look cf j p s)"
proof -
  have "app_inv (set_request j ((rn_requests s ! j)\<lparr>ar_phase := Done out\<rparr>) s)" for out
    by (rule app_inv_same_marks [OF inv j])
      (simp_all add: request_inv_done app_inv_each [OF inv nth_mem [OF j]])
  with app_inv_call [OF assms] show ?thesis
    by (auto simp: look_def Let_def set_keyspace_request split: prod.splits option.splits)
qed

lemma app_inv_answer:
  assumes inv: "app_inv s" and j: "j < length (rn_requests s)"
  shows "app_inv (answer c cf j p res s)"
proof -
  have "app_inv (set_request j ((rn_requests s ! j)\<lparr>ar_phase := Done out\<rparr>) s)" for out
    by (rule app_inv_same_marks [OF inv j])
      (simp_all add: request_inv_done app_inv_each [OF inv nth_mem [OF j]])
  then show ?thesis by (simp add: answer_def set_keyspace_request split: prod.splits)
qed

lemma app_inv_step:
  assumes "app_step st l c cf skew s s'" and inv: "app_inv s"
  shows "app_inv s'"
  using assms(1)
proof cases
  case (Refuse key e body w)
  then show ?thesis
    using app_inv_request [OF inv, of "new_request body w (Done (Inl e)) None"]
    by (simp add: new_request_def request_inv_def)
next
  case (Enter key user w n body)
  with app_inv_enter [OF inv] show ?thesis by simp
next
  case (World w')
  with app_inv_world [OF inv] show ?thesis by simp
next
  case (Decide j rq n ph)
  with app_inv_decide [OF inv] show ?thesis by simp
next
  case (Look j p)
  with app_inv_look [OF inv] show ?thesis by simp
next
  case (Gateway n)
  with inv show ?thesis by (simp add: app_inv_def)
next
  case (Answer j n p res)
  with app_inv_answer [OF inv] show ?thesis by simp
qed

end
