(* ===== verification/App_Alone.thy ===== *)
theory App_Alone
  imports App_Interleaving
begin

text \<open>
  The steps of \<open>App_Steps\<close> against the handler itself: a request that nobody interrupts gets from
  the steps exactly what \<open>post_generate\<close> computes in one go, and every run of the application is
  a run of the rate limiter and a run of concurrent gateway calls.
\<close>

subsection \<open>Projections\<close>

lemma app_step_world:
  assumes "app_step st l c cf skew s s'"
  shows "rn_world s' = rn_world s \<or> rl_step l skew (rn_world s) (rn_world s')"
  using assms
proof cases
  case (Enter key user w n body)
  then show ?thesis by (simp add: rl_step.Begin)
next
  case (Look j p)
  have "w_ks_update (\<lambda>_. fst (snd (lookup_cached (redis_cache ks_client) cf p (w_ks (rn_world s))))) (rn_world s)
      = rn_world s" by (simp add: lookup_state)
  then show ?thesis
    by (auto simp: Look look_def Let_def set_request_def set_keyspace_def split: prod.splits option.splits)
next
  case (Answer j n p res)
  obtain out k es where k: "conclude (redis_cache ks_client) c cf p res (w_ks (rn_world s)) = (out, k, es)"
    by (metis prod_cases3)
  from leaves_counters_step [OF conclude_leaves_counters [OF k]] k show ?thesis
    by (simp add: Answer(1) answer_def set_request_def set_keyspace_def)
qed (simp_all add: set_request_def)

lemma app_step_tasks:
  assumes "app_step st l c cf skew s s'" and inv: "app_inv s" and "tasks_reach ps st' (rn_tasks s)"
  shows "tasks_reach ps st' (rn_tasks s')"
  using assms(1)
proof cases
  case (Look j p)
  from app_inv_each [OF inv nth_mem [OF Look(2)]] Look(3) have "steady (ar_env (rn_requests s ! j))"
    by (simp add: request_inv_def)
  from tasks_reach.Step [OF assms(3) tasks_step.Arrive [OF this]] assms(3) show ?thesis
    by (auto simp: Look look_def Let_def set_request_def set_keyspace_def split: prod.splits option.splits)
next
  case (Gateway n)
  with assms(3) resume_at_reach show ?thesis by simp
qed (use assms(3) in \<open>auto simp: set_request_def set_keyspace_def answer_def split: prod.splits\<close>)

lemma app_reach_inv:
  "app_reach ps st l c cf skew s \<Longrightarrow>
     app_inv s \<and> rl_reach l skew (rn_world s) \<and> tasks_reach ps st (rn_tasks s)
     \<and> l = \<lparr>rl_minute_limit = rate_limit_per_minute st, rl_hour_limit = rate_limit_per_hour st\<rparr>
     \<and> 0 < rate_limit_per_minute st \<and> 0 < rate_limit_per_hour st"
proof (induction rule: app_reach.induct)
  case (Start clk g es k)
  have "app_inv \<lparr>rn_world = \<lparr>w_ks = k, w_tasks = []\<rparr>, rn_tasks = \<lparr>gt_gateway = g, gt_calls = []\<rparr>, rn_requests = []\<rparr>"
    by (simp add: app_inv_def)
  with Start rl_reach.Init [of k skew l] tasks_reach.Built [of ps st clk g es] show ?case
    by (auto simp: new_rate_limiter_def Let_def split: if_splits)
next
  case (Step s s')
  then show ?case
    using app_inv_step app_step_world app_step_tasks rl_reach.Step by metis
qed

lemma app_reach_tasks: "app_reach ps st l c cf skew s \<Longrightarrow> tasks_inv ps st (rn_tasks s)"
  using app_reach_inv tasks_reach_inv by blast

subsection \<open>The gateway, alone\<close>

lemma finish_call_answered:
  "gc_state c = Answered res \<Longrightarrow> finish_call w g c = (res, g, gc_log c)"
  by (simp add: finish_call_def)

text \<open>Letting only the last request go on ends in what \<open>generate\<close> returns.\<close>

lemma resume_alone:
  assumes "tasks_inv ps st t" and "gt_calls t = cs @ [c]" and "env_others (gc_env c) = (\<lambda>i r. r)"
  shows "\<exists>m t' c' res. (resume_at (length cs) ^^ m) t = t' \<and> gt_calls t' = cs @ [c']
    \<and> gc_state c' = Answered res \<and> gc_env c' = gc_env c
    \<and> finish_call (gc_env c) (gt_gateway t) c = (res, gt_gateway t', gc_log c')"
  using assms
proof (induction "length (providers_left (gc_state c))" arbitrary: t c rule: less_induct)
  case less
  show ?case
  proof (cases "gc_state c")
    case (Answered res)
    with less.prems show ?thesis
      by (intro exI [of _ 0] exI [of _ t] exI [of _ c] exI [of _ res]) (simp add: finish_call_answered)
  next
    case (Awaiting i p rest)
    obtain g' c1 where r: "resume_call (gt_gateway t) c = (g', c1)" by fastforce
    let ?t1 = "\<lparr>gt_gateway = g', gt_calls = cs @ [c1]\<rparr>"
    have t1: "resume_at (length cs) t = ?t1" using less.prems(2) r by (simp add: resume_at_def)
    from less.prems have inv: "gateway_inv (gt_gateway t)" "call_inv (gt_gateway t) c"
      by (simp_all add: tasks_inv_def)
    note closed = resume_closed [OF inv Awaiting r]
    have "tasks_step t ?t1"
      using tasks_step.Resume [of "length cs" t i p rest g' c1] less.prems(2) Awaiting r by simp
    from tasks_inv_step [OF this less.prems(1)] have inv1: "tasks_inv ps st ?t1" .
    have w: "gc_env c\<lparr>env_others := \<lambda>i r. r\<rparr> = gc_env c" using less.prems(3) by simp
    have same: "finish_call (gc_env c) (gt_gateway t) c = finish_call (gc_env c) g' c1"
      using finish_resume [where h = "\<lambda>i r. r" and i = i and r = "gw_router (gt_gateway t)", OF Awaiting r]
      by (simp add: w)
    have "length (providers_left (gc_state c1)) < length (providers_left (gc_state c))"
      using closed(6) Awaiting by simp
    from less.hyps [OF this inv1] closed(3) less.prems(3) obtain m t' c' res where
      "(resume_at (length cs) ^^ m) ?t1 = t'" "gt_calls t' = cs @ [c']" "gc_state c' = Answered res"
      "gc_env c' = gc_env c" "finish_call (gc_env c) g' c1 = (res, gt_gateway t', gc_log c')" by auto
    with t1 same show ?thesis
      by (intro exI [of _ "Suc m"] exI [of _ t'] exI [of _ c'] exI [of _ res])
        (simp add: funpow_swap1)
  qed
qed

lemma generate_alone:
  assumes inv: "tasks_inv ps st t" and w: "steady w" "env_others w = (\<lambda>i r. r)"
    and gen: "generate (gt_gateway t) w req = (res, g', es)"
  shows "\<exists>m t' call. (resume_at (length (gt_calls t)) ^^ m)
      (t\<lparr>gt_calls := gt_calls t @ [start_call (gt_gateway t) w req]\<rparr>) = t'
    \<and> gt_calls t' = gt_calls t @ [call] \<and> gc_state call = Answered res \<and> gc_log call = es
    \<and> gt_gateway t' = g'"
proof -
  let ?t = "t\<lparr>gt_calls := gt_calls t @ [start_call (gt_gateway t) w req]\<rparr>"
  have "w\<lparr>env_others := \<lambda>i r. r\<rparr> = w" using w(2) by simp
  with finish_start [where w = w and h = "\<lambda>i r. r" and g = "gt_gateway t" and req = req] gen
  have "finish_call w (gt_gateway t) (start_call (gt_gateway t) w req) = (res, g', es)" by simp
  with resume_alone [of ps st ?t "gt_calls t" "start_call (gt_gateway t) w req"] w
    tasks_inv_step [OF tasks_step.Arrive [OF w(1)] inv, of req]
  show ?thesis by fastforce
qed

subsection \<open>The check, alone\<close>

lemma check_alone:
  assumes now: "now = wall_time skew w"
    and c: "check (redis_cache ks_client) l user (ks_clock (w_ks w) + skew) (w_ks w) = (r, k')"
  shows "\<exists>w'. (calm_check l skew)\<^sup>*\<^sup>* (w\<lparr>w_tasks := w_tasks w @ [new_task user now]\<rparr>) w' \<and> w_ks w' = k'
    \<and> t_phase (w_tasks w' ! length (w_tasks w)) = (case r of Inl e \<Rightarrow> Failed e | Inr res \<Rightarrow> Finished res)"
proof -
  let ?n = "length (w_tasks w)" and ?t = "new_task user now"
  let ?w = "w\<lparr>w_tasks := w_tasks w @ [?t]\<rparr>"
  have int: "now = int_time (ks_clock (w_ks w) + skew)" by (simp add: now wall_time_def)
  obtain mc k1 where m: "count_minute (redis_cache ks_client) user now (w_ks w) = (mc, k1)" by fastforce
  let ?t1 = "after_minute skew ?w ?t mc k1"
  let ?w1 = "w\<lparr>w_ks := k1, w_tasks := w_tasks w @ [?t1]\<rparr>"
  have s1: "calm_check l skew ?w ?w1"
    using rl_step.Minute [of ?n ?w ?t mc k1 l skew] m count_keeps_cache(1) [OF m]
    by (simp add: new_task_def calm_check_def)
  show ?thesis
  proof (cases mc)
    case (Inl e)
    with c m int have "r = Inl e" "k' = k1" by (simp_all add: check_def)
    with s1 Inl show ?thesis
      by (intro exI [of _ ?w1]) (simp add: after_minute_def)
  next
    case (Inr c1)
    obtain hc k2 where h: "count_hour (redis_cache ks_client) user now k1 = (hc, k2)" by fastforce
    let ?t2 = "after_hour l skew ?w1 c1 ?t1 hc k2"
    let ?w2 = "w\<lparr>w_ks := k2, w_tasks := w_tasks w @ [?t2]\<rparr>"
    have t1: "t_phase ?t1 = Half c1" "t_user ?t1 = user" "t_now ?t1 = now"
      using Inr by (simp_all add: after_minute_def new_task_def)
    then have "calm_check l skew ?w1 ?w2"
      using rl_step.Hour [of ?n ?w1 ?t1 c1 hc k2 l skew] h count_keeps_cache(2) [OF h]
      by (simp add: calm_check_def)
    with s1 have "(calm_check l skew)\<^sup>*\<^sup>* ?w ?w2" by (meson converse_rtranclp_into_rtranclp rtranclp.rtrancl_refl)
    moreover have "k' = k2" "t_phase ?t2 = (case r of Inl e \<Rightarrow> Failed e | Inr res \<Rightarrow> Finished res)"
      using c m h Inr int t1 by (auto simp: check_def after_hour_def split: sum.splits)
    ultimately show ?thesis by (intro exI [of _ ?w2]) simp
  qed
qed

lemma world_steps:
  "(calm_check l skew)\<^sup>*\<^sup>* w w' \<Longrightarrow>
     (calm_step st l c cf skew)\<^sup>*\<^sup>* (s\<lparr>rn_world := w\<rparr>) (s\<lparr>rn_world := w'\<rparr>)"
proof (induction rule: rtranclp_induct)
  case (step w1 w2)
  have "calm_step st l c cf skew (s\<lparr>rn_world := w1\<rparr>) (s\<lparr>rn_world := w2\<rparr>)"
    using app_step.World [of l skew "s\<lparr>rn_world := w1\<rparr>" w2] step.hyps(2)
    by (simp add: calm_step_def calm_check_def)
  with step.IH show ?case by (rule rtranclp.rtrancl_into_rtrancl)
qed simp

lemma length_resume_pow [simp]: "length (gt_calls ((resume_at n ^^ m) t)) = length (gt_calls t)"
  by (induction m) simp_all

lemma gateway_steps:
  assumes "n < length (gt_calls (rn_tasks s))"
  shows "(calm_step st l c cf skew)\<^sup>*\<^sup>* s (s\<lparr>rn_tasks := (resume_at n ^^ m) (rn_tasks s)\<rparr>)"
proof (induction m)
  case (Suc m)
  let ?s = "s\<lparr>rn_tasks := (resume_at n ^^ m) (rn_tasks s)\<rparr>"
  have "calm_step st l c cf skew ?s (?s\<lparr>rn_tasks := resume_at n (rn_tasks ?s)\<rparr>)"
    by (rule calm_kept [OF app_step.Gateway]) (simp_all add: assms)
  with Suc.IH show ?case by (simp add: rtranclp.rtrancl_into_rtrancl)
qed simp

lemma calm_steps_app: "(calm_step st l c cf skew)\<^sup>*\<^sup>* s s' \<Longrightarrow> (app_step st l c cf skew)\<^sup>*\<^sup>* s s'"
  using mono_rtranclp calm_step_app by metis

lemma app_reach_steps:
  "(app_step st l c cf skew)\<^sup>*\<^sup>* s s' \<Longrightarrow> app_reach ps st l c cf skew s \<Longrightarrow> app_reach ps st l c cf skew s'"
  by (induction rule: rtranclp_induct) (auto intro: app_reach.Step)

subsection \<open>The route, alone\<close>

text \<open>The last request of \<open>s\<close> has become \<open>out\<close> in \<open>s'\<close>, as the route would have had it.\<close>

definition concluded ::
  "running \<Rightarrow> api_request list \<Rightarrow> generate_response result \<Rightarrow> keyspace \<Rightarrow> gateway \<Rightarrow> effect list \<Rightarrow> running \<Rightarrow> bool"
where
  "concluded s rqs out k g es s' \<longleftrightarrow>
     (\<exists>rq new. rn_requests s' = rqs @ [rq] \<and> ar_phase rq = Done out \<and> w_ks (rn_world s') = k
       \<and> gt_gateway (rn_tasks s') = g \<and> gt_calls (rn_tasks s') = gt_calls (rn_tasks s) @ new
       \<and> concat (map (\<lambda>c. called (gc_log c)) new) = called es)"

lemma called_conclude: "called (snd (snd (conclude S c cf p res k))) = []"
  by (simp add: conclude_def store_response_def split: sum.split)

lemma called_lookup: "called (snd (snd (lookup_cached S cf p k))) = []"
  using called_cache_get [of S cf p k]
  by (auto simp: lookup_cached_def Let_def split: prod.splits sum.splits option.splits)

text \<open>A lookup that misses enters the gateway and leaves the store as it is.\<close>

lemma look_miss:
  assumes "lookup_cached (redis_cache ks_client) cf p (w_ks (rn_world s)) = (None, w_ks (rn_world s), es)"
    and "rn_requests s = rqs @ [rq]" and "ar_env rq = w"
  shows "rn_tasks (look cf (length rqs) p s) = (rn_tasks s)\<lparr>gt_calls :=
        gt_calls (rn_tasks s) @ [start_call (gt_gateway (rn_tasks s)) w (mk_request p)]\<rparr>"
    and "rn_requests (look cf (length rqs) p s) = rqs @ [rq\<lparr>ar_phase := Calling (length (gt_calls (rn_tasks s))) p,
        ar_call := Some (length (gt_calls (rn_tasks s)))\<rparr>]"
    and "w_ks (rn_world (look cf (length rqs) p s)) = w_ks (rn_world s)"
  using assms by (simp_all add: look_def Let_def set_request_def set_keyspace_def)

text \<open>Once its gateway call is answered, the request is concluded in one step.\<close>

lemma answer_alone:
  assumes "rn_requests s = rqs @ [rq]" and "ar_phase rq = Calling n p" and "n < length (gt_calls (rn_tasks s))"
    and "gc_state (gt_calls (rn_tasks s) ! n) = Answered res"
    and "conclude (redis_cache ks_client) c cf p res (w_ks (rn_world s)) = (out, k', es)"
  shows "\<exists>s' rq'. calm_step st l c cf skew s s' \<and> rn_requests s' = rqs @ [rq'] \<and> ar_phase rq' = Done out
    \<and> w_ks (rn_world s') = k' \<and> rn_tasks s' = rn_tasks s"
proof -
  have "app_step st l c cf skew s (answer c cf (length rqs) p res s)"
    using assms by (intro app_step.Answer [where n = n]) simp_all
  then have "calm_step st l c cf skew s (answer c cf (length rqs) p res s)"
    using assms by (intro calm_moved [where j = "length rqs"])
      (simp_all add: answer_def set_request_def set_keyspace_def)
  then show ?thesis
    using assms by (intro exI [of _ "answer c cf (length rqs) p res s"])
      (simp add: answer_def set_request_def set_keyspace_def)
qed

lemma route_alone:
  assumes inv: "tasks_inv ps st (rn_tasks s)" and rqs: "rn_requests s = rqs @ [rq]"
    and rq: "ar_phase rq = Looking p" "ar_env rq = w" and w: "steady w" "env_others w = (\<lambda>i r. r)"
    and route: "route_generate (redis_cache ks_client) c cf (gt_gateway (rn_tasks s)) w p (w_ks (rn_world s))
      = (out, k', g', es)"
  shows "\<exists>s'. (calm_step st l c cf skew)\<^sup>*\<^sup>* s s' \<and> concluded s rqs out k' g' es s'"
proof -
  let ?j = "length rqs" and ?n = "length (gt_calls (rn_tasks s))" and ?s1 = "look cf (length rqs) p s"
  obtain hit es1 where hit: "lookup_cached (redis_cache ks_client) cf p (w_ks (rn_world s))
      = (hit, w_ks (rn_world s), es1)" using lookup_state by (metis prod.collapse)
  from called_lookup [of "redis_cache ks_client" cf p "w_ks (rn_world s)"] hit have es1: "called es1 = []" by simp
  have "app_step st l c cf skew s ?s1" using rqs rq by (intro app_step.Look) simp_all
  then have looked: "calm_step st l c cf skew s ?s1"
    using rqs rq by (intro calm_moved [where j = ?j])
      (simp_all add: look_def Let_def set_request_def set_keyspace_def split: prod.split option.split)
  show ?thesis
  proof (cases hit)
    case (Some ent)
    with route hit es1 have "concluded s rqs out k' g' es ?s1"
      by (auto simp: concluded_def look_def Let_def set_request_def set_keyspace_def rqs route_generate_def
          hit_effects_def)
    with looked show ?thesis by (intro exI [of _ ?s1]) auto
  next
    case None
    obtain res g1 es2 where gen: "generate (gt_gateway (rn_tasks s)) w (mk_request p) = (res, g1, es2)"
      by (metis prod_cases3)
    obtain es3 where con: "conclude (redis_cache ks_client) c cf p res (w_ks (rn_world s)) = (out, k', es3)"
      and g1: "g1 = g'" and es: "called es = called es2"
      using route hit None gen es1 called_conclude [of "redis_cache ks_client" c cf p res "w_ks (rn_world s)"]
      by (auto simp: route_generate_def Let_def split: prod.splits)
    note s1 = look_miss [OF hit [unfolded None] rqs rq(2)]
    from generate_alone [OF inv w gen] obtain m t' call where
      t': "(resume_at ?n ^^ m) (rn_tasks ?s1) = t'"
      and call: "gt_calls t' = gt_calls (rn_tasks s) @ [call]" "gc_state call = Answered res"
        "gc_log call = es2" "gt_gateway t' = g1" unfolding s1(1) by blast
    let ?s2 = "?s1\<lparr>rn_tasks := t'\<rparr>"
    have "(calm_step st l c cf skew)\<^sup>*\<^sup>* ?s1 ?s2"
      using gateway_steps [of ?n ?s1 st l c cf skew m] s1(1) t' by simp
    moreover obtain s' rq' where "calm_step st l c cf skew ?s2 s'" "rn_requests s' = rqs @ [rq']"
      "ar_phase rq' = Done out" "w_ks (rn_world s') = k'" "rn_tasks s' = t'"
      using answer_alone [of ?s2 rqs _ ?n p res c cf out k' es3 st l skew] s1(2,3) call con by auto
    ultimately show ?thesis
      using looked call g1 es unfolding concluded_def
      by (intro exI [of _ s']) (auto intro: converse_rtranclp_into_rtranclp rtranclp.rtrancl_into_rtrancl)
  qed
qed

end
