(* ===== verification/App_Concurrency.thy ===== *)
theory App_Concurrency
  imports App_Alone Gateway_Concurrency
begin

text \<open>
  The properties of concurrent requests to \<open>POST /v1/generate\<close>: what the rate limit means for
  the providers, and that the interleaved steps are those of the handler.
\<close>

subsection \<open>The handler and its steps\<close>

lemma decide_alone:
  assumes rqs: "rn_requests s = rqs @ [rq]" and rq: "ar_phase rq = Checking n" "ar_body rq = body"
    and phase: "t_phase (w_tasks (rn_world s) ! n) = ph" "after_check ph body = Some ph'"
  shows "calm_step st l c cf skew s (s\<lparr>rn_requests := rqs @ [rq\<lparr>ar_phase := ph'\<rparr>]\<rparr>)"
proof -
  have "app_step st l c cf skew s (set_request (length rqs) (rq\<lparr>ar_phase := ph'\<rparr>) s)"
    by (rule app_step.Decide [where n = n]) (use assms in simp_all)
  moreover have "ar_phase rq \<noteq> ph'"
    using rq(1) phase(2) by (auto simp: after_check_def split: phase.splits if_splits option.splits)
  ultimately show ?thesis
    by (intro calm_moved [where j = "length rqs"]) (simp_all add: set_request_def rqs)
qed

lemma enter_alone:
  assumes key: "require_api_key st key = Inr user" and w: "steady w"
    and check: "check (redis_cache ks_client) l user (ks_clock (w_ks (rn_world s)) + skew) (w_ks (rn_world s)) = (r, k1)"
    and after: "after_check (case r of Inl e \<Rightarrow> Failed e | Inr res \<Rightarrow> Finished res) body = Some ph"
  shows "\<exists>s1 rq. (calm_step st l c cf skew)\<^sup>*\<^sup>* s s1 \<and> rn_requests s1 = rn_requests s @ [rq]
    \<and> ar_phase rq = ph \<and> ar_env rq = w \<and> rn_tasks s1 = rn_tasks s \<and> w_ks (rn_world s1) = k1"
proof -
  let ?n = "length (w_tasks (rn_world s))" and ?now = "wall_time skew (rn_world s)"
  let ?w0 = "(rn_world s)\<lparr>w_tasks := w_tasks (rn_world s) @ [new_task user ?now]\<rparr>"
  let ?rq = "new_request body w (Checking ?n) (Some ?n)"
  let ?s0 = "s\<lparr>rn_world := ?w0, rn_requests := rn_requests s @ [?rq]\<rparr>"
  have enter: "calm_step st l c cf skew s ?s0" by (rule calm_new [OF app_step.Enter [OF key w refl]]) simp
  from check_alone [OF refl check] obtain w1 where w1: "(calm_check l skew)\<^sup>*\<^sup>* ?w0 w1" "w_ks w1 = k1"
    "t_phase (w_tasks w1 ! ?n) = (case r of Inl e \<Rightarrow> Failed e | Inr res \<Rightarrow> Finished res)" by blast
  have "?s0\<lparr>rn_world := ?w0\<rparr> = ?s0" by simp
  with world_steps [OF w1(1), of st c cf ?s0]
  have count: "(calm_step st l c cf skew)\<^sup>*\<^sup>* ?s0 (?s0\<lparr>rn_world := w1\<rparr>)" by (simp only:)
  let ?s1 = "?s0\<lparr>rn_world := w1, rn_requests := rn_requests s @ [?rq\<lparr>ar_phase := ph\<rparr>]\<rparr>"
  have "calm_step st l c cf skew (?s0\<lparr>rn_world := w1\<rparr>) ?s1"
    using decide_alone [of "?s0\<lparr>rn_world := w1\<rparr>" "rn_requests s" ?rq ?n body] w1(3) after
    by (simp add: new_request_def)
  with enter count have "(calm_step st l c cf skew)\<^sup>*\<^sup>* s ?s1"
    by (meson converse_rtranclp_into_rtranclp rtranclp.rtrancl_into_rtrancl)
  then show ?thesis using w1(2) by (intro exI [of _ ?s1]) (auto simp: new_request_def)
qed

text \<open>What the handler still does after the check, in terms of the phase the request is in.\<close>

lemma post_after_check:
  assumes key: "require_api_key st key = Inr user"
    and check: "check (redis_cache ks_client) l user time k = (r, k1)"
    and after: "after_check (case r of Inl e \<Rightarrow> Failed e | Inr res \<Rightarrow> Finished res) body = Some ph"
  shows "(\<exists>p. ph = Looking p \<and> post_generate (redis_cache ks_client) st (Some l) c cf g w key time body k
      = route_generate (redis_cache ks_client) c cf g w p k1)
    \<or> (\<exists>out. ph = Done out \<and> post_generate (redis_cache ks_client) st (Some l) c cf g w key time body k
      = (out, k1, g, []))"
proof (cases r)
  case (Inl e)
  with assms show ?thesis
    by (simp add: post_generate_def enforce_rate_limit_def get_rate_limiter_def after_check_def)
next
  case (Inr res)
  with assms show ?thesis
    by (auto simp: post_generate_def enforce_rate_limit_def get_rate_limiter_def after_check_def
        split: if_splits option.splits)
qed

lemma handler_alone:
  assumes inv: "tasks_inv ps st (rn_tasks s)" and w: "steady w" "env_others w = (\<lambda>i r. r)"
    and post: "post_generate (redis_cache ks_client) st (Some l) c cf (gt_gateway (rn_tasks s)) w key
      (ks_clock (w_ks (rn_world s)) + skew) body (w_ks (rn_world s)) = (out, k', g', es)"
  shows "\<exists>s'. (calm_step st l c cf skew)\<^sup>*\<^sup>* s s' \<and> concluded s (rn_requests s) out k' g' es s'"
proof (cases "require_api_key st key")
  case (Inl e)
  let ?s' = "s\<lparr>rn_requests := rn_requests s @ [new_request body w (Done (Inl e)) None]\<rparr>"
  from post Inl have "out = Inl e" "k' = w_ks (rn_world s)" "g' = gt_gateway (rn_tasks s)" "es = []"
    by (simp_all add: post_generate_def enforce_rate_limit_def)
  then have "concluded s (rn_requests s) out k' g' es ?s'"
    by (auto simp: concluded_def new_request_def)
  moreover have "calm_step st l c cf skew s ?s'" by (rule calm_new [OF app_step.Refuse [OF Inl]]) simp
  ultimately show ?thesis by blast
next
  case (Inr user)
  obtain r k1 where check: "check (redis_cache ks_client) l user (ks_clock (w_ks (rn_world s)) + skew)
      (w_ks (rn_world s)) = (r, k1)" by fastforce
  obtain ph where ph: "after_check (case r of Inl e \<Rightarrow> Failed e | Inr res \<Rightarrow> Finished res) body = Some ph"
    by (cases r) (fastforce simp: after_check_def split: option.splits)+
  from enter_alone [OF Inr w(1) check ph] obtain s1 rq where
    s1: "(calm_step st l c cf skew)\<^sup>*\<^sup>* s s1" "rn_requests s1 = rn_requests s @ [rq]" "ar_phase rq = ph"
      "ar_env rq = w" "rn_tasks s1 = rn_tasks s" "w_ks (rn_world s1) = k1" by blast
  have same: "concluded s1 rqs out k' g' es s' = concluded s rqs out k' g' es s'" for rqs s'
    by (simp add: concluded_def s1(5))
  from post_after_check [OF Inr check ph, of c cf "gt_gateway (rn_tasks s)" w] post consider
    p where "ph = Looking p" "route_generate (redis_cache ks_client) c cf (gt_gateway (rn_tasks s1)) w p
      (w_ks (rn_world s1)) = (out, k', g', es)"
    | "ph = Done out" "k' = k1" "g' = gt_gateway (rn_tasks s)" "es = []"
    by (auto simp: s1(5,6))
  then show ?thesis
  proof cases
    case 1
    from route_alone [OF inv [folded s1(5)] s1(2) s1(3) [unfolded 1(1)] s1(4) w 1(2), where l = l and skew = skew]
    show ?thesis using rtranclp_trans [OF s1(1)] same by blast
  next
    case 2
    with s1 have "concluded s (rn_requests s) out k' g' es s1" by (auto simp: concluded_def)
    with s1(1) show ?thesis by blast
  qed
qed

subsection \<open>Gateway calls per window\<close>

text \<open>The gateway calls of the requests a set of checks let in.\<close>

definition calls_after :: "running \<Rightarrow> nat set \<Rightarrow> nat set" where
  "calls_after s checks =
     {k. \<exists>rq \<in> set (rn_requests s). ar_call rq = Some k \<and> (\<exists>n \<in> checks. ar_check rq = Some n)}"

definition provider_calls :: "running \<Rightarrow> nat set \<Rightarrow> nat" where
  "provider_calls s ks = (\<Sum>k \<in> ks. length (called (gc_log (gt_calls (rn_tasks s) ! k))))"

lemma one_call_per_check:
  assumes inv: "app_inv s" and "r \<in> set (rn_requests s)" "r' \<in> set (rn_requests s)"
    and "ar_check r = Some n" "ar_check r' = Some n" and "ar_call r = Some k" "ar_call r' = Some k'"
  shows "k = k'"
proof -
  obtain i j where ij: "i < length (rn_requests s)" "rn_requests s ! i = r"
    "j < length (rn_requests s)" "rn_requests s ! j = r'"
    using assms(2,3) by (metis in_set_conv_nth)
  with app_inv_unshared [OF inv] assms(4,5) have "i = j"
    unfolding unshared_def by (metis option.distinct(1))
  with ij assms(6,7) show ?thesis by auto
qed

text \<open>Who enters the gateway was admitted.\<close>

lemma own_check:
  assumes inv: "app_inv s" and "k < length (gt_calls (rn_tasks s))"
  shows "\<exists>rq \<in> set (rn_requests s). ar_call rq = Some k \<and> admitted (rn_world s) rq"
proof -
  from assms obtain rq where "rq \<in> set (rn_requests s)" "ar_call rq = Some k"
    by (auto simp: app_inv_def)
  with app_inv_each [OF inv] show ?thesis unfolding request_inv_def by blast
qed

lemma card_calls_after:
  assumes inv: "app_inv s" and fin: "finite checks"
  shows "card (calls_after s checks) \<le> card checks"
proof -
  have "\<forall>k \<in> calls_after s checks. \<exists>n. n \<in> checks
      \<and> (\<exists>rq \<in> set (rn_requests s). ar_call rq = Some k \<and> ar_check rq = Some n)"
    by (auto simp: calls_after_def)
  then obtain f where f: "\<And>k. k \<in> calls_after s checks \<Longrightarrow> f k \<in> checks
      \<and> (\<exists>rq \<in> set (rn_requests s). ar_call rq = Some k \<and> ar_check rq = Some (f k))"
    by (metis bchoice)
  have "k = k'" if "k \<in> calls_after s checks" "k' \<in> calls_after s checks" "f k = f k'" for k k'
    using f [OF that(1)] f [OF that(2)] that(3) one_call_per_check [OF inv] by metis
  then have "inj_on f (calls_after s checks)" by (rule inj_onI)
  moreover have "f ` calls_after s checks \<subseteq> checks" using f by blast
  ultimately show ?thesis using fin by (rule card_inj_on_le)
qed

lemma call_in_range:
  assumes "app_inv s" and "k \<in> calls_after s checks"
  shows "k < length (gt_calls (rn_tasks s))"
  using assms(2) app_inv_each [OF assms(1)] by (auto simp: calls_after_def request_inv_def)

lemma provider_calls_le:
  assumes inv: "app_inv s" "tasks_inv ps st (rn_tasks s)" and card: "int (card (calls_after s checks)) \<le> m"
  shows "int (provider_calls s (calls_after s checks)) \<le> m * (int (length ps) * (llm_max_retries st + 1))"
proof -
  let ?b = "length ps * (nat (llm_max_retries st) + 1)"
  have max: "0 \<le> llm_max_retries st" using inv(2) by (auto simp: tasks_inv_def gateway_inv_def)
  have "length (called (gc_log (gt_calls (rn_tasks s) ! k))) \<le> ?b" if "k \<in> calls_after s checks" for k
  proof -
    have "within_budget (gt_gateway (rn_tasks s)) (gt_calls (rn_tasks s) ! k)"
      using inv(2) nth_mem [OF call_in_range [OF inv(1) that]] by (auto simp: tasks_inv_def call_inv_def)
    then have "length (called (gc_log (gt_calls (rn_tasks s) ! k)))
        \<le> length (gc_turns (gt_calls (rn_tasks s) ! k)) * (nat (llm_max_retries st) + 1)"
      "length (gc_turns (gt_calls (rn_tasks s) ! k)) \<le> length ps"
      using inv(2) by (simp_all add: within_budget_def tasks_inv_def)
    then show ?thesis by (meson mult_le_mono1 order_trans)
  qed
  then have "provider_calls s (calls_after s checks) \<le> card (calls_after s checks) * ?b"
    using sum_bounded_above [where A = "calls_after s checks" and K = ?b
        and f = "\<lambda>k. length (called (gc_log (gt_calls (rn_tasks s) ! k)))"]
    by (simp add: provider_calls_def)
  then have "int (provider_calls s (calls_after s checks)) \<le> int (card (calls_after s checks)) * int ?b"
    by (metis of_nat_le_iff of_nat_mult)
  also have "\<dots> \<le> m * int ?b" by (rule mult_right_mono [OF card]) simp
  also have "int ?b = int (length ps) * (llm_max_retries st + 1)" using max by (simp add: algebra_simps)
  finally show ?thesis .
qed

subsection \<open>An application serving one request\<close>

definition demo_start :: running where
  "demo_start = \<lparr>rn_world = \<lparr>w_ks = empty_ks 30, w_tasks = []\<rparr>,
     rn_tasks = \<lparr>gt_gateway = demo_gateway, gt_calls = []\<rparr>, rn_requests = []\<rparr>"

definition demo_limiter :: rate_limiter where
  "demo_limiter = \<lparr>rl_minute_limit = 60, rl_hour_limit = 1000\<rparr>"

definition demo_policy :: semantic_cache where
  "demo_policy = \<lparr>sc_ttl_seconds = 3600, sc_max_bytes = 262144\<rparr>"

abbreviation demo_step :: "running \<Rightarrow> running \<Rightarrow> bool" where
  "demo_step \<equiv> app_step (keyed (u ''k1'')) demo_limiter demo_policy ascii_fold 0"

abbreviation demo_calm :: "running \<Rightarrow> running \<Rightarrow> bool" where
  "demo_calm \<equiv> calm_step (keyed (u ''k1'')) demo_limiter demo_policy ascii_fold 0"

abbreviation demo_reach :: "running \<Rightarrow> bool" where
  "demo_reach \<equiv> app_reach two_providers (keyed (u ''k1'')) demo_limiter demo_policy ascii_fold 0"

lemma demo_parts:
  "new_rate_limiter (keyed (u ''k1'')) = Inr demo_limiter" "new_semantic_cache (keyed (u ''k1'')) = Inr demo_policy"
  "\<exists>clk es. new_gateway two_providers (keyed (u ''k1'')) clk = (Inr demo_gateway, es)"
proof -
  have "new_gateway two_providers (keyed (u ''k1'')) clk = new_gateway two_providers default_settings clk" for clk
    by (simp add: new_gateway_def keyed_def)
  then show "\<exists>clk es. new_gateway two_providers (keyed (u ''k1'')) clk = (Inr demo_gateway, es)"
    using demo_built by metis
qed (simp_all add: new_rate_limiter_def new_semantic_cache_def keyed_def default_settings_def demo_limiter_def
  demo_policy_def)

lemma demo_start_reach: "demo_reach demo_start"
proof -
  obtain clk es where "new_gateway two_providers (keyed (u ''k1'')) clk = (Inr demo_gateway, es)"
    using demo_parts(3) by blast
  from app_reach.Start [OF demo_parts(1,2) this, where k = "empty_ks 30" and skew = 0 and cf = ascii_fold]
  show ?thesis unfolding demo_start_def by (simp add: empty_ks_def)
qed

lemma demo_start_sel [simp]:
  "rn_requests demo_start = []" "gt_gateway (rn_tasks demo_start) = demo_gateway"
  "gt_calls (rn_tasks demo_start) = []" "w_ks (rn_world demo_start) = empty_ks 30"
  by (simp_all add: demo_start_def)

lemma demo_env [simp]: "steady (quiet_env f)" "env_others (quiet_env f) = (\<lambda>i r. r)"
  by (simp_all add: steady_def quiet_env_def)

lemma clock_empty [simp]: "ks_clock (empty_ks t) = t"
  by (simp add: empty_ks_def)

text \<open>A server half a minute after its start that has counted \<open>n\<close> requests of the demo caller and
  holds \<open>e\<close> at the key of the prompt \<open>hi\<close>.\<close>

definition demo_key :: pystr where
  "demo_key = semantic_cache_key (sha256_hex [104, 105])"

definition demo_server :: "int \<Rightarrow> (rvalue \<times> real option) option \<Rightarrow> keyspace \<Rightarrow> bool" where
  "demo_server n e k \<longleftrightarrow> ks_clock k = 30 \<and> ks_data k demo_key = e
     \<and> counter_at k (rate_limit_minute_key (sha256_hex (u ''k1'')) 0) n 60
     \<and> counter_at k (rate_limit_hour_key (sha256_hex (u ''k1'')) 0) n 3600"

lemma demo_server_empty: "demo_server 0 None (empty_ks 30)"
  by (simp add: demo_server_def counter_at_def empty_ks_def)

text \<open>With the key and below the limit a request gets to the route, and is counted.\<close>

lemma demo_post:
  assumes k: "demo_server n e k" and n: "n < 60" and p: "request_prompt body = Some p"
  shows "\<exists>k'. demo_server (n + 1) e k'
    \<and> post_generate (redis_cache ks_client) (keyed (u ''k1'')) (Some demo_limiter) demo_policy ascii_fold
        g w (Some (u ''k1'')) 30 body k
      = route_generate (redis_cache ks_client) demo_policy ascii_fold g w p k'"
proof -
  let ?user = "sha256_hex (u ''k1'')"
  have time: "int_time 30 div 60 = 0" "int_time 30 div 3600 = 0" by (simp_all add: int_time_def)
  from k have "counter_at k (rate_limit_minute_key ?user (int_time 30 div 60)) n 60"
    "counter_at k (rate_limit_hour_key ?user (int_time 30 div 3600)) n 3600" "ks_clock k = 30"
    by (simp_all add: demo_server_def time)
  then obtain k' where k': "check (redis_cache ks_client) demo_limiter ?user 30 k
      = (Inr (decide demo_limiter (int_time 30) (n + 1) (n + 1)), k')"
    "counter_at k' (rate_limit_minute_key ?user 0) (n + 1) 60"
    "counter_at k' (rate_limit_hour_key ?user 0) (n + 1) 3600" "ks_clock k' = ks_clock k"
    "\<And>key. key \<noteq> rate_limit_minute_key ?user 0 \<Longrightarrow> key \<noteq> rate_limit_hour_key ?user 0
      \<Longrightarrow> ks_data k' key = ks_data k key"
    using check_on_keyspace [where h = 60 and h' = 3600 and time = 30 and k = k and n = n and m = n
        and user = ?user and l = demo_limiter] n is_ascii_scalar [OF sha256_hex_ascii]
    by (auto simp: time)
  have key: "require_api_key (keyed (u ''k1'')) (Some (u ''k1'')) = Inr ?user"
    by (simp add: require_api_key_def compare_digest_def utf8_encode_ascii keyed_def is_ascii_def u_def)
  have "allowed (decide demo_limiter (int_time 30) (n + 1) (n + 1))" using n by (simp add: demo_limiter_def)
  moreover from k k' have "demo_server (n + 1) e k'" by (simp add: demo_server_def demo_key_def)
  ultimately show ?thesis
    by (intro exI [of _ k']) (simp add: post_generate_def enforce_rate_limit_def get_rate_limiter_def key k'(1) p)
qed

text \<open>Without an entry the route asks the gateway and stores the response.\<close>

definition hi_body :: json where
  "hi_body = JObj [(u ''prompt'', JStr (u ''hi''))]"

lemma hi_prompt [simp]: "request_prompt hi_body = Some (u ''hi'')"
  by (simp add: hi_body_def request_prompt_def valid_prompt_def obj_lookup_def u_def)

definition hi_response :: generate_response where
  "hi_response = \<lparr>gr_content = u ''hi'', gr_model = u ''demo-model'', gr_source = u ''llm''\<rparr>"

lemma demo_stored:
  assumes "demo_server n None k"
  shows "demo_server n (Some (VStr (encode_payload (u ''hi'')), Some 3630))
    (snd (cache_set (redis_cache ks_client) demo_policy ascii_fold (u ''hi'') (u ''hi'') k))"
proof -
  have "length (encode_payload (u ''hi'')) < 100"
    by (simp add: u_def encode_payload_def dumps_def dump_pair_def dump_str_def escape_char_def)
  then have "snd (cache_set (redis_cache ks_client) demo_policy ascii_fold (u ''hi'') (u ''hi'') k)
      = store_at demo_key (Some (VStr (encode_payload (u ''hi'')), Some (ks_clock k + 3600))) k"
    using query_key_scalar [OF query_key_hi] encode_payload_ascii is_ascii_scalar
    by (simp add: cache_set_def Let_def payload_size query_key_hi demo_policy_def adapter_set_def encoded_def
        utf8_encodable_def ks_set_def demo_key_def)
  with assms show ?thesis
    by (simp add: demo_server_def counter_at_def) (simp add: demo_key_def)
qed

lemma demo_served:
  "\<exists>k g es. post_generate (redis_cache ks_client) (keyed (u ''k1'')) (Some demo_limiter) demo_policy ascii_fold
      demo_gateway (quiet_env limited_then_ok) (Some (u ''k1'')) 30 hi_body (empty_ks 30) = (Inr hi_response, k, g, es)
    \<and> demo_server 1 (Some (VStr (encode_payload (u ''hi'')), Some 3630)) k"
proof -
  from demo_post [OF demo_server_empty _ hi_prompt] obtain k where k: "demo_server 1 None k"
    and post: "post_generate (redis_cache ks_client) (keyed (u ''k1'')) (Some demo_limiter) demo_policy ascii_fold
        demo_gateway (quiet_env limited_then_ok) (Some (u ''k1'')) 30 hi_body (empty_ks 30)
      = route_generate (redis_cache ks_client) demo_policy ascii_fold demo_gateway (quiet_env limited_then_ok) (u ''hi'') k"
    by fastforce
  have "entry k demo_key = None" using k by (simp add: demo_server_def entry_def live_def)
  then obtain es where "lookup_cached (redis_cache ks_client) ascii_fold (u ''hi'') k = (None, k, es)"
    using kw.texts.cache_get_miss [OF _ query_key_hi, where s = k] lookup_state [of ascii_fold "u ''hi''" k]
    by (fastforce simp: demo_key_def lookup_cached_def)
  moreover obtain g es' where "generate demo_gateway (quiet_env limited_then_ok) (mk_request (u ''hi''))
      = (Inr demo_response, g, es')" using demo_generate by (metis prod.collapse)
  moreover have "content demo_response = u ''hi''" "resp_model demo_response = u ''demo-model''"
    by (simp_all add: demo_response_def mk_response_def)
  ultimately show ?thesis
    using post demo_stored [OF k]
    by (simp add: route_generate_def conclude_def store_response_def hi_response_def)
qed

lemma demo_run:
  "\<exists>s rq. demo_calm\<^sup>*\<^sup>* demo_start s \<and> rn_requests s = [rq]
    \<and> ar_phase rq = Done (Inr hi_response)"
  using handler_alone [OF app_reach_tasks [OF demo_start_reach] demo_env, where l = demo_limiter and skew = 0
      and c = demo_policy and cf = ascii_fold] demo_served
  unfolding concluded_def by fastforce

subsection \<open>Properties\<close>

text \<open>
  The rate limit bounds what a caller costs one process. However the requests of the process interleave
  with each other and with what other workers do to the shared server, the requests of one caller
  whose checks read a time in one minute and were counted at most \<open>d\<close> minutes late enter the gateway
  at most \<open>d + 1\<close> times as often as the limit per minute allows, and all of them together make at
  most that many times providers times attempts provider calls; the same holds for the hour. No request enters the gateway without a check of
  its own that admitted it.
\<close>

lemma provider_calls_bounded:
  assumes reach: "app_reach ps st l c cf skew s"
    and minute: "minute = calls_after s (admitted_in_minute (rn_world s) user b d)"
    and hour: "hour = calls_after s (admitted_in_hour (rn_world s) user b d)"
    and cost: "cost = int (length ps) * (llm_max_retries st + 1)"
  shows "int (card minute) \<le> (int d + 1) * rate_limit_per_minute st
    \<and> int (provider_calls s minute) \<le> (int d + 1) * rate_limit_per_minute st * cost
    \<and> int (card hour) \<le> (int d + 1) * rate_limit_per_hour st
    \<and> int (provider_calls s hour) \<le> (int d + 1) * rate_limit_per_hour st * cost
    \<and> (\<forall>k < length (gt_calls (rn_tasks s)).
         \<exists>rq \<in> set (rn_requests s). ar_call rq = Some k \<and> admitted (rn_world s) rq)"
proof -
  from app_reach_inv [OF reach] have inv: "app_inv s" and rl: "rl_reach l skew (rn_world s)"
    and tasks: "tasks_inv ps st (rn_tasks s)"
    and l: "rl_minute_limit l = rate_limit_per_minute st" "rl_hour_limit l = rate_limit_per_hour st"
    and pos: "0 < rate_limit_per_minute st" "0 < rate_limit_per_hour st"
    using tasks_reach_inv by auto
  from card_calls_after [OF inv finite_admitted(1) [of "rn_world s" user b d]]
    card_calls_after [OF inv finite_admitted(2) [of "rn_world s" user b d]]
    admitted_bounds [OF rl_reach_inv [OF rl], of user b d] l pos
  have m: "int (card minute) \<le> (int d + 1) * rate_limit_per_minute st"
    and h: "int (card hour) \<le> (int d + 1) * rate_limit_per_hour st"
    unfolding minute hour by simp_all
  show ?thesis
    using m h own_check [OF inv] provider_calls_le [OF inv tasks m [unfolded minute]]
      provider_calls_le [OF inv tasks h [unfolded hour]]
    unfolding minute hour cost by blast
qed

lemma provider_calls_bounded_example:
  "\<exists>s rq. demo_reach s \<and> rn_requests s = [rq]
    \<and> ar_phase rq = Done (Inr hi_response)
    \<and> int (provider_calls s (calls_after s (admitted_in_minute (rn_world s) (sha256_hex (u ''k1'')) 0 0))) \<le> 60 * 6"
proof -
  from demo_run obtain s rq where s: "demo_calm\<^sup>*\<^sup>* demo_start s" "rn_requests s = [rq]"
    "ar_phase rq = Done (Inr hi_response)"
    by blast
  from s(1) have reach: "demo_reach s" using app_reach_steps [OF calm_steps_app] demo_start_reach by blast
  from provider_calls_bounded [OF this refl refl refl, where user = "sha256_hex (u ''k1'')" and b = 0 and d = 0] s(2,3) reach
  show ?thesis by (auto simp: keyed_def default_settings_def two_providers_def)
qed

text \<open>
  C11: The steps are those of the handler. In any reachable state, however many requests are in
  flight, a new request that nobody interrupts gets from the interleaved steps exactly what
  \<open>post_generate\<close> computes: the same answer or exception, the same keyspace, the same gateway,
  the same provider calls.
\<close>

theorem uninterrupted_request_is_the_handler:
  assumes reach: "app_reach ps st l c cf skew s" and w: "steady w" "env_others w = (\<lambda>i r. r)"
    and post: "post_generate (redis_cache ks_client) st (Some l) c cf (gt_gateway (rn_tasks s)) w key
      (ks_clock (w_ks (rn_world s)) + skew) body (w_ks (rn_world s)) = (out, k', g', es)"
  shows "\<exists>s' rq new. (app_step st l c cf skew)\<^sup>*\<^sup>* s s' \<and> app_reach ps st l c cf skew s'
    \<and> rn_requests s' = rn_requests s @ [rq] \<and> ar_phase rq = Done out
    \<and> w_ks (rn_world s') = k' \<and> gt_gateway (rn_tasks s') = g'
    \<and> gt_calls (rn_tasks s') = gt_calls (rn_tasks s) @ new
    \<and> concat (map (\<lambda>call. called (gc_log call)) new) = called es"
proof -
  from handler_alone [OF app_reach_tasks [OF reach] w post] app_reach_steps [OF _ reach] calm_steps_app show ?thesis
    unfolding concluded_def by blast
qed

theorem uninterrupted_request_is_the_handler_witness:
  "\<exists>s rq. demo_reach s \<and> rn_requests s = [rq]
    \<and> ar_phase rq = Done (Inr hi_response)"
proof -
  from demo_served uninterrupted_request_is_the_handler [OF demo_start_reach demo_env] show ?thesis
    by fastforce
qed

end
