(* ===== verification/App_Progress.thy ===== *)
theory App_Progress
  imports App_Concurrency
begin

text \<open>
  Progress of concurrent requests to \<open>POST /v1/generate\<close>: how much work a request has left, that
  no step of anybody adds to it, and that the request itself can always take the next step.
\<close>

subsection \<open>The work left\<close>

fun check_left :: "phase \<Rightarrow> nat" where
  "check_left Started = 2"
| "check_left (Half mc) = 1"
| "check_left (Finished res) = 0"
| "check_left (Failed e) = 0"

text \<open>How many steps a request of an application with \<open>m\<close> providers still takes at most.\<close>

definition work :: "nat \<Rightarrow> running \<Rightarrow> nat \<Rightarrow> nat" where
  "work m s j =
     (case ar_phase (rn_requests s ! j) of
        Checking n \<Rightarrow> m + 3 + check_left (t_phase (w_tasks (rn_world s) ! n))
      | Looking p \<Rightarrow> m + 2
      | Calling k p \<Rightarrow> 1 + left_at (rn_tasks s) k
      | Done out \<Rightarrow> 0)"

lemma check_left_le: "check_left ph \<le> 2"
  by (cases ph) simp_all

lemma work_done: "work m s j = 0 \<longleftrightarrow> (\<exists>out. ar_phase (rn_requests s ! j) = Done out)"
  by (simp add: work_def split: request_phase.split)

lemma left_bound: "tasks_inv ps st t \<Longrightarrow> k < length (gt_calls t) \<Longrightarrow> left_at t k \<le> length ps"
  by (auto simp: tasks_inv_def call_inv_def within_budget_def dest!: nth_mem)

lemma work_bound:
  assumes "app_inv s" and "tasks_inv ps st (rn_tasks s)" and "j < length (rn_requests s)"
  shows "work (length ps) s j \<le> length ps + 5"
proof -
  from app_inv_each [OF assms(1) nth_mem [OF assms(3)]] left_bound [OF assms(2)] show ?thesis
    using check_left_le by (fastforce simp: work_def request_inv_def split: request_phase.split)
qed

subsection \<open>Nobody adds to it\<close>

lemma check_left_step:
  assumes "rl_step l skew w w'" and "n < length (w_tasks w)"
  shows "check_left (t_phase (w_tasks w' ! n)) \<le> check_left (t_phase (w_tasks w ! n))"
  using assms
  by cases (auto simp: nth_append nth_list_update after_minute_def after_hour_def split: sum.split)

lemma work_kept:
  assumes "request_inv (rn_world s) (length (gt_calls (rn_tasks s))) (rn_requests s ! j)"
    and "rn_requests s' ! j = rn_requests s ! j"
    and "\<And>n. n < length (w_tasks (rn_world s)) \<Longrightarrow> check_left (t_phase (w_tasks (rn_world s') ! n))
      \<le> check_left (t_phase (w_tasks (rn_world s) ! n))"
    and "\<And>k. k < length (gt_calls (rn_tasks s)) \<Longrightarrow> left_at (rn_tasks s') k \<le> left_at (rn_tasks s) k"
  shows "work m s' j \<le> work m s j"
  using assms by (auto simp: work_def request_inv_def split: request_phase.split)

lemma after_check_phase: "after_check ph body = Some ph' \<Longrightarrow> (\<exists>p. ph' = Looking p) \<or> (\<exists>out. ph' = Done out)"
  by (auto simp: after_check_def split: phase.splits if_splits option.splits)

text \<open>What a lookup does to its own request and to the others.\<close>

lemma look_request:
  assumes "j < length (rn_requests s)" and "tasks_inv ps st (rn_tasks s)" and "steady (ar_env (rn_requests s ! j))"
  shows "work (length ps) (look cf j p s) j < length ps + 2"
proof -
  let ?t = "(rn_tasks s)\<lparr>gt_calls := gt_calls (rn_tasks s)
    @ [start_call (gt_gateway (rn_tasks s)) (ar_env (rn_requests s ! j)) (mk_request p)]\<rparr>"
  have "tasks_inv ps st ?t" by (rule tasks_inv_step [OF tasks_step.Arrive [OF assms(3)] assms(2)])
  from left_bound [OF this, of "length (gt_calls (rn_tasks s))"] show ?thesis
    using assms(1)
    by (auto simp: work_def look_def Let_def set_request_def set_keyspace_def split: prod.split option.split)
qed

lemma look_frame:
  "length (rn_requests (look cf j p s)) = length (rn_requests s)"
  "i \<noteq> j \<Longrightarrow> rn_requests (look cf j p s) ! i = rn_requests s ! i"
  "w_tasks (rn_world (look cf j p s)) = w_tasks (rn_world s)"
  "k < length (gt_calls (rn_tasks s)) \<Longrightarrow> gt_calls (rn_tasks (look cf j p s)) ! k = gt_calls (rn_tasks s) ! k"
  by (auto simp: look_def Let_def set_request_def set_keyspace_def nth_append split: prod.split option.split)

lemma answer_frame:
  "length (rn_requests (answer c cf j p res s)) = length (rn_requests s)"
  "i \<noteq> j \<Longrightarrow> rn_requests (answer c cf j p res s) ! i = rn_requests s ! i"
  "w_tasks (rn_world (answer c cf j p res s)) = w_tasks (rn_world s)"
  "rn_tasks (answer c cf j p res s) = rn_tasks s"
  by (auto simp: answer_def set_request_def set_keyspace_def split: prod.split)

lemma answer_request: "j < length (rn_requests s) \<Longrightarrow> work m (answer c cf j p res s) j = 0"
  by (simp add: work_def answer_def set_request_def set_keyspace_def split: prod.split)

lemma work_look:
  assumes inv: "app_inv s" "tasks_inv ps st (rn_tasks s)" and j: "j < length (rn_requests s)"
    and look: "ar_phase (rn_requests s ! i) = Looking p"
  shows "work (length ps) (look cf i p s) j \<le> work (length ps) s j"
proof -
  note rq = app_inv_each [OF inv(1) nth_mem [OF j]]
  show ?thesis
  proof (cases "i = j")
    case True
    with rq look have "steady (ar_env (rn_requests s ! j))" by (simp add: request_inv_def)
    from look_request [OF j inv(2) this, of cf p] look True show ?thesis
      by (simp add: work_def [of _ s])
  next
    case False
    with work_kept [OF rq, of "look cf i p s"] show ?thesis by (simp add: look_frame)
  qed
qed

lemma work_step:
  assumes step: "app_step st l c cf skew s s'" and inv: "app_inv s" "tasks_inv ps st (rn_tasks s)"
    and j: "j < length (rn_requests s)"
  shows "j < length (rn_requests s') \<and> work (length ps) s' j \<le> work (length ps) s j
    \<and> (\<forall>out. ar_phase (rn_requests s ! j) = Done out \<longrightarrow> rn_requests s' ! j = rn_requests s ! j)"
proof -
  note rq = app_inv_each [OF inv(1) nth_mem [OF j]]
  from step show ?thesis
  proof cases
    case (Refuse key e body w)
    with j work_kept [OF rq, of s'] show ?thesis by (simp add: nth_append)
  next
    case (Enter key user w n body)
    with j work_kept [OF rq, of s'] show ?thesis by (simp add: nth_append)
  next
    case (World w')
    with j work_kept [OF rq, of s'] check_left_step [OF World(2)] show ?thesis by simp
  next
    case (Decide i rq' n ph)
    then show ?thesis
      using j work_kept [OF rq, of s'] after_check_phase [OF Decide(5)]
      by (cases "i = j") (auto simp: set_request_def work_def)
  next
    case (Look i p)
    with j work_look [OF inv j Look(3)] show ?thesis by (cases "i = j") (simp_all add: look_frame)
  next
    case (Gateway n)
    have "left_at (resume_at n (rn_tasks s)) k \<le> left_at (rn_tasks s) k"
      if "k < length (gt_calls (rn_tasks s))" for k
      using left_resume_at [OF inv(2) that, of n] diff_le_self by (rule order_trans)
    with j Gateway work_kept [OF rq, of s'] show ?thesis by simp
  next
    case (Answer i n p res)
    show ?thesis
    proof (cases "i = j")
      case True
      with Answer j show ?thesis by (simp add: answer_frame answer_request)
    next
      case False
      with j Answer work_kept [OF rq, of s'] show ?thesis by (simp add: answer_frame)
    qed
  qed
qed

subsection \<open>The request itself can go on\<close>

lemma check_goes_on:
  assumes "n < length (w_tasks w)" and "0 < check_left (t_phase (w_tasks w ! n))"
  shows "\<exists>w'. rl_step l skew w w'
    \<and> check_left (t_phase (w_tasks w' ! n)) < check_left (t_phase (w_tasks w ! n))"
proof (cases "t_phase (w_tasks w ! n)")
  case Started
  obtain r k' where "count_minute (redis_cache ks_client) (t_user (w_tasks w ! n)) (t_now (w_tasks w ! n)) (w_ks w)
      = (r, k')" by fastforce
  from rl_step.Minute [OF assms(1) refl Started this, of l skew] assms(1) Started show ?thesis
    by (intro exI conjI) (assumption, auto simp: after_minute_def split: sum.split)
next
  case (Half mc)
  obtain r k' where "count_hour (redis_cache ks_client) (t_user (w_tasks w ! n)) (t_now (w_tasks w ! n)) (w_ks w)
      = (r, k')" by fastforce
  from rl_step.Hour [OF assms(1) refl Half this, of l skew] assms(1) Half show ?thesis
    by (intro exI conjI) (assumption, auto simp: after_hour_def split: sum.split)
qed (use assms(2) in simp_all)

lemma check_ended:
  "check_left ph = 0 \<Longrightarrow> \<exists>ph'. after_check ph body = Some ph'"
  by (cases ph) (auto simp: after_check_def split: option.split)

lemma checking_goes_on:
  assumes j: "j < length (rn_requests s)" and Checking: "ar_phase (rn_requests s ! j) = Checking n"
    and n: "n < length (w_tasks (rn_world s))"
  shows "\<exists>s'. app_step st l c cf skew s s' \<and> work np s' j < work np s j"
proof (cases "check_left (t_phase (w_tasks (rn_world s) ! n)) = 0")
  case True
  then obtain ph where ph: "after_check (t_phase (w_tasks (rn_world s) ! n)) (ar_body (rn_requests s ! j)) = Some ph"
    using check_ended by blast
  from app_step.Decide [OF j refl Checking ph] after_check_phase [OF ph] j Checking show ?thesis
    by (intro exI conjI) (assumption, auto simp: work_def set_request_def)
next
  case False
  with check_goes_on [OF n, of l skew] obtain w' where w': "rl_step l skew (rn_world s) w'"
    "check_left (t_phase (w_tasks w' ! n)) < check_left (t_phase (w_tasks (rn_world s) ! n))" by blast
  from app_step.World [OF w'(1)] w'(2) Checking show ?thesis
    by (intro exI conjI) (assumption, simp add: work_def)
qed

lemma goes_on:
  assumes inv: "app_inv s" "tasks_inv ps st' (rn_tasks s)" and j: "j < length (rn_requests s)"
    and left: "0 < work (length ps) s j"
  shows "\<exists>s'. app_step st l c cf skew s s' \<and> work (length ps) s' j < work (length ps) s j"
proof -
  note rq = app_inv_each [OF inv(1) nth_mem [OF j]]
  show ?thesis
  proof (cases "ar_phase (rn_requests s ! j)")
    case (Checking n)
    with rq have n: "n < length (w_tasks (rn_world s))" by (simp add: request_inv_def)
    from checking_goes_on [OF j Checking n] show ?thesis .
  next
    case (Looking p)
    with rq have "steady (ar_env (rn_requests s ! j))" by (simp add: request_inv_def)
    from look_request [OF j inv(2) this, of cf p] app_step.Look [OF j Looking] Looking show ?thesis
      by (intro exI conjI) (assumption, simp add: work_def [of _ s])
  next
    case (Calling k p)
    with rq have k: "k < length (gt_calls (rn_tasks s))" by (simp add: request_inv_def)
    show ?thesis
    proof (cases "gc_state (gt_calls (rn_tasks s) ! k)")
      case (Answered res)
      from app_step.Answer [OF j Calling Answered] left show ?thesis
        by (intro exI conjI) (assumption, simp add: answer_request [OF j])
    next
      case (Awaiting i q rest)
      from left_resume_at [OF inv(2) k, of k] Awaiting app_step.Gateway [OF k] Calling show ?thesis
        by (intro exI conjI) (assumption, simp add: work_def)
    qed
  next
    case (Done out)
    with left show ?thesis by (simp add: work_def)
  qed
qed

text \<open>Its own steps alone already lead a request to its answer.\<close>

lemma finishes:
  assumes "app_reach ps st l c cf skew s" and "j < length (rn_requests s)"
  shows "\<exists>s' out. (app_step st l c cf skew)\<^sup>*\<^sup>* s s' \<and> ar_phase (rn_requests s' ! j) = Done out"
  using assms
proof (induction "work (length ps) s j" arbitrary: s rule: less_induct)
  case less
  from app_reach_inv [OF less.prems(1)] have inv: "app_inv s" and tasks: "tasks_inv ps st (rn_tasks s)"
    using tasks_reach_inv by auto
  show ?case
  proof (cases "work (length ps) s j = 0")
    case True
    then show ?thesis using work_done by blast
  next
    case False
    with goes_on [OF inv tasks less.prems(2)] obtain s1 where s1: "app_step st l c cf skew s s1"
      "work (length ps) s1 j < work (length ps) s j" by blast
    from work_step [OF s1(1) inv tasks less.prems(2)] have "j < length (rn_requests s1)" by simp
    from less.hyps [OF s1(2) app_reach.Step [OF less.prems(1) s1(1)] this] s1(1) show ?thesis
      by (meson converse_rtranclp_into_rtranclp)
  qed
qed

text \<open>No step of anybody adds to the work of a request or changes its answer, and an unfinished one
  can always go on.\<close>

lemma process_progress:
  assumes reach: "app_reach ps st l c cf skew s" and j: "j < length (rn_requests s)"
  shows "work (length ps) s j \<le> length ps + 5"
    and "app_step st l c cf skew s s' \<Longrightarrow> j < length (rn_requests s')
      \<and> work (length ps) s' j \<le> work (length ps) s j
      \<and> (\<forall>out. ar_phase (rn_requests s ! j) = Done out \<longrightarrow> rn_requests s' ! j = rn_requests s ! j)"
    and "0 < work (length ps) s j \<Longrightarrow>
      \<exists>s'. app_step st l c cf skew s s' \<and> work (length ps) s' j < work (length ps) s j"
proof -
  from app_reach_inv [OF reach] app_reach_tasks [OF reach]
  have inv: "app_inv s" and tasks: "tasks_inv ps st (rn_tasks s)" by auto
  show "work (length ps) s j \<le> length ps + 5" by (rule work_bound [OF inv tasks j])
  show "j < length (rn_requests s') \<and> work (length ps) s' j \<le> work (length ps) s j
      \<and> (\<forall>out. ar_phase (rn_requests s ! j) = Done out \<longrightarrow> rn_requests s' ! j = rn_requests s ! j)"
    if "app_step st l c cf skew s s'" by (rule work_step [OF that inv tasks j])
  show "\<exists>s'. app_step st l c cf skew s s' \<and> work (length ps) s' j < work (length ps) s j"
    if "0 < work (length ps) s j" by (rule goes_on [OF inv tasks j that])
qed

text \<open>A request that has just entered.\<close>

lemma demo_entered:
  "\<exists>s. demo_step demo_start s \<and> length (rn_requests s) = 1 \<and> work 2 s 0 = 7"
proof -
  let ?s = "demo_start\<lparr>rn_world := (rn_world demo_start)\<lparr>w_tasks := w_tasks (rn_world demo_start)
      @ [new_task (sha256_hex (u ''k1'')) (wall_time 0 (rn_world demo_start))]\<rparr>,
    rn_requests := rn_requests demo_start @ [new_request JNull (quiet_env limited_then_ok)
      (Checking (length (w_tasks (rn_world demo_start)))) (Some (length (w_tasks (rn_world demo_start))))]\<rparr>"
  have key: "require_api_key (keyed (u ''k1'')) (Some (u ''k1'')) = Inr (sha256_hex (u ''k1''))"
    by (simp add: require_api_key_def compare_digest_def utf8_encode_ascii keyed_def is_ascii_def u_def)
  have "demo_step demo_start ?s" by (rule app_step.Enter [OF key]) simp_all
  moreover have "work 2 ?s 0 = 7" by (simp add: work_def new_request_def new_task_def demo_start_def)
  ultimately show ?thesis by (intro exI [of _ ?s]) simp
qed

end
