(* ===== verification/App_Provenance.thy ===== *)
theory App_Provenance
  imports App_Progress
begin

text \<open>
  Where the answers of concurrent requests to \<open>POST /v1/generate\<close> come from. As long as nobody
  else writes the semantic cache, every entry holds what the gateway answered to a request of
  this application whose prompt has the entry's key, and so every answer is the gateway's answer
  to the request itself or to such a request.
\<close>

subsection \<open>Runs that nobody else's cache writes disturb\<close>

abbreviation cache_kept :: "running \<Rightarrow> running \<Rightarrow> bool" where
  "cache_kept s s' \<equiv> keeps_cache (w_ks (rn_world s)) (w_ks (rn_world s'))"

inductive private_reach ::
  "provider list \<Rightarrow> settings \<Rightarrow> rate_limiter \<Rightarrow> semantic_cache \<Rightarrow> (nat \<Rightarrow> pystr) \<Rightarrow> real \<Rightarrow> running \<Rightarrow> bool"
for ps st l c cf skew where
  Start: "app_reach ps st l c cf skew s \<Longrightarrow> rn_requests s = []
    \<Longrightarrow> (\<And>h. ks_data (w_ks (rn_world s)) (semantic_cache_key h) = None) \<Longrightarrow> private_reach ps st l c cf skew s"
| Step: "private_reach ps st l c cf skew s \<Longrightarrow> calm_step st l c cf skew s s'
    \<Longrightarrow> private_reach ps st l c cf skew s'"

lemma private_reach_app: "private_reach ps st l c cf skew s \<Longrightarrow> app_reach ps st l c cf skew s"
  by (induction rule: private_reach.induct) (auto intro: app_reach.Step calm_step_app)

subsection \<open>Answers and entries with a source\<close>

text \<open>The gateway answered the request's own call for the prompt \<open>p\<close> with the text \<open>msg\<close>.\<close>

definition own_answer :: "running \<Rightarrow> api_request \<Rightarrow> pystr \<Rightarrow> pystr \<Rightarrow> bool" where
  "own_answer s rq p msg \<longleftrightarrow> request_prompt (ar_body rq) = Some p
     \<and> (\<exists>k resp. ar_call rq = Some k \<and> k < length (gt_calls (rn_tasks s))
          \<and> gc_request (gt_calls (rn_tasks s) ! k) = mk_request p
          \<and> gc_state (gt_calls (rn_tasks s) ! k) = Answered (Inr resp) \<and> content resp = msg)"

definition sourced :: "(nat \<Rightarrow> pystr) \<Rightarrow> running \<Rightarrow> pystr \<Rightarrow> pystr \<Rightarrow> bool" where
  "sourced cf s key msg \<longleftrightarrow>
     (\<exists>rq \<in> set (rn_requests s). \<exists>p. query_key cf p = Inr key \<and> own_answer s rq p msg)"

text \<open>\<open>F\<close> holds the texts that other processes may have stored under a key.\<close>

definition known :: "(nat \<Rightarrow> pystr) \<Rightarrow> (pystr \<Rightarrow> pystr \<Rightarrow> bool) \<Rightarrow> running \<Rightarrow> pystr \<Rightarrow> pystr \<Rightarrow> bool" where
  "known cf F s key msg \<longleftrightarrow> F key msg \<or> sourced cf s key msg"

definition request_prov :: "(nat \<Rightarrow> pystr) \<Rightarrow> (pystr \<Rightarrow> pystr \<Rightarrow> bool) \<Rightarrow> running \<Rightarrow> api_request \<Rightarrow> bool" where
  "request_prov cf F s rq \<longleftrightarrow>
     (case ar_phase rq of
        Checking n \<Rightarrow> True
      | Looking p \<Rightarrow> request_prompt (ar_body rq) = Some p
      | Calling k p \<Rightarrow> request_prompt (ar_body rq) = Some p \<and> k < length (gt_calls (rn_tasks s))
          \<and> gc_request (gt_calls (rn_tasks s) ! k) = mk_request p
      | Done (Inl e) \<Rightarrow> True
      | Done (Inr out) \<Rightarrow>
          (\<exists>p. own_answer s rq p (gr_content out) \<and> gr_source out = u ''llm'')
          \<or> (\<exists>p key msg. request_prompt (ar_body rq) = Some p \<and> query_key cf p = Inr key \<and> known cf F s key msg
               \<and> decode_payload (encode_payload msg) = Inr (mk_entry (gr_content out))
               \<and> gr_source out = u ''semantic_cache''))"

definition prov_inv :: "(nat \<Rightarrow> pystr) \<Rightarrow> (pystr \<Rightarrow> pystr \<Rightarrow> bool) \<Rightarrow> running \<Rightarrow> bool" where
  "prov_inv cf F s \<longleftrightarrow> (\<forall>rq \<in> set (rn_requests s). request_prov cf F s rq)
     \<and> (\<forall>h v. ks_data (w_ks (rn_world s)) (semantic_cache_key h) = Some v \<longrightarrow>
          (\<exists>msg. fst v = VStr (encode_payload msg) \<and> known cf F s (semantic_cache_key h) msg))"

subsection \<open>What was answered stays answered\<close>

definition calls_grow :: "gateway_tasks \<Rightarrow> gateway_tasks \<Rightarrow> bool" where
  "calls_grow t t' \<longleftrightarrow>
     (\<forall>k < length (gt_calls t). k < length (gt_calls t')
        \<and> gc_request (gt_calls t' ! k) = gc_request (gt_calls t ! k)
        \<and> (\<forall>res. gc_state (gt_calls t ! k) = Answered res \<longrightarrow> gc_state (gt_calls t' ! k) = Answered res))"

definition grows :: "running \<Rightarrow> running \<Rightarrow> bool" where
  "grows s s' \<longleftrightarrow> calls_grow (rn_tasks s) (rn_tasks s')
     \<and> (\<forall>rq \<in> set (rn_requests s). ar_call rq \<noteq> None \<longrightarrow>
          (\<exists>rq' \<in> set (rn_requests s'). ar_body rq' = ar_body rq \<and> ar_call rq' = ar_call rq))"

lemma calls_grow_refl [simp]: "calls_grow t t"
  by (simp add: calls_grow_def)

lemma calls_grow_snoc [simp]: "calls_grow t (t\<lparr>gt_calls := gt_calls t @ [call]\<rparr>)"
  by (simp add: calls_grow_def nth_append)

lemma own_answer_grows:
  "grows s s' \<Longrightarrow> own_answer s rq p msg \<Longrightarrow> ar_body rq' = ar_body rq \<Longrightarrow> ar_call rq' = ar_call rq
     \<Longrightarrow> own_answer s' rq' p msg"
  by (fastforce simp: own_answer_def grows_def calls_grow_def)

lemma sourced_grows:
  assumes "grows s s'" and "sourced cf s key msg"
  shows "sourced cf s' key msg"
proof -
  from assms(2) obtain rq p where rq: "rq \<in> set (rn_requests s)" "query_key cf p = Inr key" "own_answer s rq p msg"
    by (auto simp: sourced_def)
  then have "ar_call rq \<noteq> None" by (auto simp: own_answer_def)
  with assms(1) rq(1) obtain rq' where "rq' \<in> set (rn_requests s')" "ar_body rq' = ar_body rq"
    "ar_call rq' = ar_call rq" by (auto simp: grows_def)
  with own_answer_grows [OF assms(1) rq(3)] rq(2) show ?thesis by (auto simp: sourced_def)
qed

lemma known_grows: "grows s s' \<Longrightarrow> known cf F s key msg \<Longrightarrow> known cf F s' key msg"
  using sourced_grows by (auto simp: known_def)

lemma request_prov_grows:
  assumes "grows s s'" and "request_prov cf F s rq"
  shows "request_prov cf F s' rq"
proof (cases "ar_phase rq")
  case (Calling k p)
  with assms show ?thesis by (simp add: request_prov_def grows_def calls_grow_def)
next
  case (Done out)
  with assms known_grows [OF assms(1)] own_answer_grows [OF assms(1) _ refl refl] show ?thesis
    by (cases out) (fastforce simp: request_prov_def)+
qed (use assms(2) in \<open>simp_all add: request_prov_def\<close>)

lemma update_stays: "x \<in> set xs \<Longrightarrow> x \<noteq> xs ! j \<Longrightarrow> x \<in> set (xs[j := y])"
  by (metis in_set_conv_nth length_list_update nth_list_update_neq)

lemma grows_update:
  assumes "j < length (rn_requests s)" and "rn_requests s' = (rn_requests s)[j := rq]"
    and "calls_grow (rn_tasks s) (rn_tasks s')" and "ar_body rq = ar_body (rn_requests s ! j)"
    and "ar_call (rn_requests s ! j) \<noteq> None \<Longrightarrow> ar_call rq = ar_call (rn_requests s ! j)"
  shows "grows s s'"
proof -
  have "\<exists>r' \<in> set ((rn_requests s)[j := rq]). ar_body r' = ar_body r \<and> ar_call r' = ar_call r"
    if r: "r \<in> set (rn_requests s)" "ar_call r \<noteq> None" for r
  proof (cases "r = rn_requests s ! j")
    case True
    with r(2) assms(1,4,5) show ?thesis by (intro bexI [of _ rq]) (simp_all add: set_update_memI)
  next
    case False
    with update_stays [OF r(1) False] show ?thesis by blast
  qed
  with assms(2,3) show ?thesis by (simp add: grows_def)
qed

lemma grows_more: "calls_grow (rn_tasks s) (rn_tasks s') \<Longrightarrow> set (rn_requests s) \<subseteq> set (rn_requests s') \<Longrightarrow> grows s s'"
  by (auto simp: grows_def)

lemma resume_at_grows: "calls_grow t (resume_at n t)"
proof -
  have "gc_request (gt_calls (resume_at n t) ! k) = gc_request (gt_calls t ! k)
      \<and> (\<forall>res. gc_state (gt_calls t ! k) = Answered res \<longrightarrow> gc_state (gt_calls (resume_at n t) ! k) = Answered res)"
    if "k < length (gt_calls t)" for k
    using that resume_call_history [of "gt_gateway t" "gt_calls t ! k"]
    by (auto simp: resume_at_def split_beta nth_list_update resume_answered)
  then show ?thesis by (simp add: calls_grow_def)
qed

text \<open>The two outcomes of a lookup, and the answer, as updates of the request.\<close>

lemma look_cases:
  obtains (hit) ent es where "lookup_cached (redis_cache ks_client) cf p (w_ks (rn_world s)) = (Some ent, w_ks (rn_world s), es)"
      "look cf j p s = set_request j ((rn_requests s ! j)\<lparr>ar_phase := Done (Inr (cached_response ent))\<rparr>) s"
  | (miss) "look cf j p s = set_request j ((rn_requests s ! j)\<lparr>ar_phase := Calling (length (gt_calls (rn_tasks s))) p,
        ar_call := Some (length (gt_calls (rn_tasks s)))\<rparr>)
      (s\<lparr>rn_tasks := (rn_tasks s)\<lparr>gt_calls := gt_calls (rn_tasks s)
        @ [start_call (gt_gateway (rn_tasks s)) (ar_env (rn_requests s ! j)) (mk_request p)]\<rparr>\<rparr>)"
proof -
  have same: "set_keyspace (w_ks (rn_world s)) s' = s'" if "rn_world s' = rn_world s" for s'
    using that by (simp add: set_keyspace_def)
  obtain found es where l: "lookup_cached (redis_cache ks_client) cf p (w_ks (rn_world s))
      = (found, w_ks (rn_world s), es)" using lookup_state by (metis prod.collapse)
  show ?thesis
  proof (cases found)
    case (Some ent)
    with l show ?thesis by (intro hit [of ent es]) (simp_all add: look_def Let_def same)
  next
    case None
    with l show ?thesis by (intro miss) (simp add: look_def Let_def same)
  qed
qed

lemma app_step_grows:
  assumes "app_step st l c cf skew s s'" and inv: "app_inv s"
  shows "grows s s'"
  using assms(1)
proof cases
  case (Decide j rq n ph)
  then show ?thesis
    by (intro grows_update [where j = j and rq = "(rn_requests s ! j)\<lparr>ar_phase := ph\<rparr>"])
      (simp_all add: set_request_def)
next
  case (Look j p)
  from app_inv_each [OF inv nth_mem [OF Look(2)]] Look(3) have none: "ar_call (rn_requests s ! j) = None"
    by (simp add: request_inv_def)
  have "\<exists>rq. rn_requests s' = (rn_requests s)[j := rq] \<and> ar_body rq = ar_body (rn_requests s ! j)
    \<and> calls_grow (rn_tasks s) (rn_tasks s')"
    by (cases rule: look_cases [of cf p s j]) (auto simp: Look(1) set_request_def)
  with grows_update [OF Look(2)] none show ?thesis by blast
next
  case (Answer j n p res)
  then have "\<exists>ph. rn_requests s' = (rn_requests s)[j := (rn_requests s ! j)\<lparr>ar_phase := ph\<rparr>]
    \<and> rn_tasks s' = rn_tasks s"
    by (auto simp: answer_def set_request_def set_keyspace_def split: prod.split)
  then obtain ph where s': "rn_requests s' = (rn_requests s)[j := (rn_requests s ! j)\<lparr>ar_phase := ph\<rparr>]"
    "rn_tasks s' = rn_tasks s" by blast
  show ?thesis by (rule grows_update [OF Answer(2) s'(1)]) (simp_all add: s'(2))
qed (auto intro!: grows_more simp: resume_at_grows)

subsection \<open>The invariant\<close>

lemma prov_inv_frame:
  assumes "prov_inv cf F s" and "grows s s'" and "cache_kept s s'"
    and "\<And>rq. rq \<in> set (rn_requests s') \<Longrightarrow> rq \<in> set (rn_requests s) \<or> request_prov cf F s' rq"
  shows "prov_inv cf F s'"
proof -
  have "request_prov cf F s' rq" if "rq \<in> set (rn_requests s')" for rq
    using assms(4) [OF that] assms(1) request_prov_grows [OF assms(2)] by (auto simp: prov_inv_def)
  with assms(1,3) known_grows [OF assms(2)] show ?thesis by (fastforce simp: prov_inv_def keeps_cache_def)
qed

lemma after_check_prov:
  "after_check ph body = Some ph' \<Longrightarrow> (\<exists>p. ph' = Looking p \<and> request_prompt body = Some p) \<or> (\<exists>e. ph' = Done (Inl e))"
  by (auto simp: after_check_def split: phase.splits if_splits option.splits)

lemma decode_payload_entry: "decode_payload v = Inr ent \<Longrightarrow> mk_entry (response ent) = ent"
  by (auto simp: decode_payload_def mk_entry_def split: sum.splits option.splits)

lemma lookup_hit:
  assumes "lookup_cached (redis_cache ks_client) cf p k = (Some ent, k', es)"
  shows "\<exists>h v ex. query_key cf p = Inr (semantic_cache_key h) \<and> ks_data k (semantic_cache_key h) = Some (VStr v, ex)
    \<and> decode_payload v = Inr (mk_entry (response ent))"
proof -
  from assms have "fst (cache_get (redis_cache ks_client) cf p k) = Inr (Some ent)"
    by (auto simp: lookup_cached_def Let_def split: prod.splits sum.splits option.splits)
  then obtain key v where kv: "query_key cf p = Inr key" "fst (adapter_get ks_client key k) = Inr (Some v)"
    "decode_payload v = Inr ent"
    by (auto simp: cache_get_def split: sum.splits prod.splits option.splits)
  moreover from kv(2) have "\<exists>ex. ks_data k key = Some (VStr v, ex)"
    by (auto simp: adapter_get_def encoded_def ks_get_def live_def split: sum.splits prod.splits option.splits
        reply.splits rvalue.splits if_splits)
  moreover obtain h where "key = semantic_cache_key h" using query_key_family [OF kv(1)] by blast
  ultimately show ?thesis using decode_payload_entry [OF kv(3)] by auto
qed

lemma set_stores:
  assumes "ks_data (snd (cache_set (redis_cache ks_client) c cf p msg k)) key = Some v"
  shows "ks_data k key = Some v \<or> (query_key cf p = Inr key \<and> fst v = VStr (encode_payload msg))"
  using assms
  by (auto simp: cache_set_def Let_def payload_size adapter_set_def encoded_def ks_set_def store_at_def
      split: sum.splits if_splits)

lemma prov_inv_answer:
  assumes inv: "prov_inv cf F s" and app: "app_inv s" and j: "j < length (rn_requests s)"
    and phase: "ar_phase (rn_requests s ! j) = Calling n p"
    and state: "gc_state (gt_calls (rn_tasks s) ! n) = Answered res"
    and grow: "grows s (answer c cf j p res s)"
  shows "prov_inv cf F (answer c cf j p res s)"
proof -
  let ?s' = "answer c cf j p res s" and ?k = "w_ks (rn_world s)"
  from inv nth_mem [OF j] have "request_prov cf F s (rn_requests s ! j)" by (simp add: prov_inv_def)
  with phase have rq: "request_prompt (ar_body (rn_requests s ! j)) = Some p" "n < length (gt_calls (rn_tasks s))"
    "gc_request (gt_calls (rn_tasks s) ! n) = mk_request p" by (simp_all add: request_prov_def)
  from app_inv_each [OF app nth_mem [OF j]] phase have call: "ar_call (rn_requests s ! j) = Some n"
    by (simp add: request_inv_def)
  show ?thesis
  proof (cases res)
    case (Inl e)
    then have s': "rn_requests ?s' = (rn_requests s)[j := (rn_requests s ! j)\<lparr>ar_phase := Done (Inl e)\<rparr>]"
      "w_ks (rn_world ?s') = ?k"
      by (simp_all add: answer_def conclude_def set_request_def set_keyspace_def)
    show ?thesis
    proof (rule prov_inv_frame [OF inv grow])
      show "cache_kept s ?s'" by (simp add: keeps_cache_def s'(2))
      show "rq \<in> set (rn_requests s) \<or> request_prov cf F ?s' rq" if "rq \<in> set (rn_requests ?s')" for rq
        using set_update_cases [OF that [unfolded s'(1)]] by (auto simp: request_prov_def)
    qed
  next
    case (Inr resp)
    let ?rq = "(rn_requests s ! j)\<lparr>ar_phase := Done (Inr \<lparr>gr_content = content resp,
      gr_model = resp_model resp, gr_source = u ''llm''\<rparr>)\<rparr>"
    from Inr have s': "rn_requests ?s' = (rn_requests s)[j := ?rq]" "rn_tasks ?s' = rn_tasks s"
      "w_ks (rn_world ?s') = snd (cache_set (redis_cache ks_client) c cf p (content resp) ?k)"
      by (simp_all add: answer_def conclude_def store_response_def set_request_def set_keyspace_def)
    have own: "own_answer ?s' ?rq p (content resp)"
      using rq call state by (simp add: own_answer_def s'(2)) (simp add: Inr)
    have "?rq \<in> set (rn_requests ?s')" using j by (simp add: s'(1) set_update_memI)
    with own have src: "query_key cf p = Inr key \<Longrightarrow> known cf F ?s' key (content resp)" for key
      unfolding known_def sourced_def by blast
    have "request_prov cf F ?s' rq" if "rq \<in> set (rn_requests ?s')" for rq
      using set_update_cases [OF that [unfolded s'(1)]] own inv request_prov_grows [OF grow]
      by (auto simp: prov_inv_def request_prov_def)
    moreover have "\<exists>msg. fst v = VStr (encode_payload msg) \<and> known cf F ?s' (semantic_cache_key h) msg"
      if "ks_data (w_ks (rn_world ?s')) (semantic_cache_key h) = Some v" for h v
      using set_stores [OF that [unfolded s'(3)]] src inv known_grows [OF grow] unfolding prov_inv_def by blast
    ultimately show ?thesis by (simp add: prov_inv_def)
  qed
qed

lemma prov_inv_look:
  assumes inv: "prov_inv cf F s" and j: "j < length (rn_requests s)"
    and phase: "ar_phase (rn_requests s ! j) = Looking p" and grow: "grows s (look cf j p s)"
  shows "prov_inv cf F (look cf j p s)"
proof -
  let ?s' = "look cf j p s" and ?n = "length (gt_calls (rn_tasks s))"
  from inv nth_mem [OF j] phase have prompt: "request_prompt (ar_body (rn_requests s ! j)) = Some p"
    by (auto simp: prov_inv_def request_prov_def)
  have "\<exists>rq. rn_requests ?s' = (rn_requests s)[j := rq] \<and> request_prov cf F ?s' rq \<and> cache_kept s ?s'"
  proof (cases rule: look_cases [of cf p s j])
    case (hit ent es)
    from lookup_hit [OF hit(1)] obtain h v ex where h: "query_key cf p = Inr (semantic_cache_key h)"
      "ks_data (w_ks (rn_world s)) (semantic_cache_key h) = Some (VStr v, ex)"
      "decode_payload v = Inr (mk_entry (response ent))" by blast
    with inv obtain msg where "v = encode_payload msg" "known cf F s (semantic_cache_key h) msg"
      unfolding prov_inv_def by fastforce
    with h prompt known_grows [OF grow, of cf F "semantic_cache_key h" msg]
    have "request_prov cf F ?s' ((rn_requests s ! j)\<lparr>ar_phase := Done (Inr (cached_response ent))\<rparr>)"
      by (auto simp: request_prov_def cached_response_def)
    moreover have "rn_requests ?s' = (rn_requests s)[j := (rn_requests s ! j)
        \<lparr>ar_phase := Done (Inr (cached_response ent))\<rparr>]" "cache_kept s ?s'"
      by (simp_all add: hit(2) set_request_def keeps_cache_def)
    ultimately show ?thesis by blast
  next
    case miss
    let ?rq = "(rn_requests s ! j)\<lparr>ar_phase := Calling ?n p, ar_call := Some ?n\<rparr>"
    from miss prompt have "rn_requests ?s' = (rn_requests s)[j := ?rq]" "cache_kept s ?s'" "request_prov cf F ?s' ?rq"
      by (simp_all add: set_request_def request_prov_def keeps_cache_def)
    then show ?thesis by blast
  qed
  then obtain rq where rq: "rn_requests ?s' = (rn_requests s)[j := rq]" "request_prov cf F ?s' rq" "cache_kept s ?s'"
    by blast
  show ?thesis
    by (rule prov_inv_frame [OF inv grow rq(3)]) (use rq(1,2) set_update_cases in metis)
qed

lemma prov_inv_step:
  assumes calm: "calm_step st l c cf skew s s'" and app: "app_inv s" and inv: "prov_inv cf F s"
  shows "prov_inv cf F s'"
proof -
  from calm have step: "app_step st l c cf skew s s'" and quiet: "rn_requests s' \<noteq> rn_requests s \<or> cache_kept s s'"
    by (auto simp: calm_step_def)
  note grow = app_step_grows [OF step app]
  from step show ?thesis
  proof cases
    case (Refuse key e body w)
    then show ?thesis
      by (intro prov_inv_frame [OF inv grow]) (auto simp: keeps_cache_def new_request_def request_prov_def)
  next
    case (Enter key user w n body)
    then show ?thesis
      by (intro prov_inv_frame [OF inv grow]) (auto simp: keeps_cache_def new_request_def request_prov_def)
  next
    case (World w')
    with quiet show ?thesis by (intro prov_inv_frame [OF inv grow]) auto
  next
    case (Decide j rq n ph)
    let ?rq = "(rn_requests s ! j)\<lparr>ar_phase := ph\<rparr>"
    from after_check_prov [OF Decide(5)] Decide(3) have "request_prov cf F s' ?rq" by (auto simp: request_prov_def)
    moreover have "rn_requests s' = (rn_requests s)[j := ?rq]" "cache_kept s s'"
      by (simp_all add: Decide(1,3) set_request_def keeps_cache_def)
    ultimately show ?thesis
      by (intro prov_inv_frame [OF inv grow]) (use set_update_cases in metis)+
  next
    case (Look j p)
    with prov_inv_look [OF inv Look(2,3)] grow show ?thesis by simp
  next
    case (Gateway n)
    then show ?thesis by (intro prov_inv_frame [OF inv grow]) (auto simp: keeps_cache_def)
  next
    case (Answer j n p res)
    with prov_inv_answer [OF inv app Answer(2,3,4)] grow show ?thesis by simp
  qed
qed

lemma private_reach_inv: "private_reach ps st l c cf skew s \<Longrightarrow> prov_inv cf (\<lambda>k m. False) s"
proof (induction rule: private_reach.induct)
  case (Step s s')
  then show ?case using prov_inv_step app_reach_inv [OF private_reach_app] by blast
qed (simp add: prov_inv_def)

text \<open>Where the text of an answer comes from.\<close>

lemma answer_source:
  assumes "request_prov cf F s rq" and "ar_phase rq = Done (Inr out)"
  obtains (own) p where "own_answer s rq p (gr_content out)" "gr_source out = u ''llm''"
  | (stored) p key msg where "request_prompt (ar_body rq) = Some p" "query_key cf p = Inr key"
      "known cf F s key msg" "gr_source out = u ''semantic_cache''" "scalar_str msg \<Longrightarrow> gr_content out = msg"
proof -
  from assms consider
    p where "own_answer s rq p (gr_content out)" "gr_source out = u ''llm''"
    | p key msg where "request_prompt (ar_body rq) = Some p" "query_key cf p = Inr key" "known cf F s key msg"
        "decode_payload (encode_payload msg) = Inr (mk_entry (gr_content out))"
        "gr_source out = u ''semantic_cache''"
    by (auto simp: request_prov_def)
  then show ?thesis
  proof cases
    case 2
    have "gr_content out = msg" if "scalar_str msg"
      using 2(4) decode_encode [OF that] by (simp add: mk_entry_def)
    with 2 show ?thesis by (intro stored)
  qed (rule own)
qed

text \<open>
  With nobody else writing the cache, the answers of one process come from its own gateway: to
  the request itself, or to one whose prompt has the same cache key.
\<close>

lemma answers_of_one_process:
  assumes "private_reach ps st l c cf skew s" and "rq \<in> set (rn_requests s)" and "ar_phase rq = Done (Inr out)"
  shows "\<exists>rq' \<in> set (rn_requests s). \<exists>p p' msg. request_prompt (ar_body rq) = Some p \<and> own_answer s rq' p' msg
    \<and> (gr_source out = u ''llm'' \<and> rq' = rq \<and> gr_content out = msg
       \<or> gr_source out = u ''semantic_cache'' \<and> (\<exists>key. query_key cf p = Inr key \<and> query_key cf p' = Inr key)
         \<and> (scalar_str msg \<longrightarrow> gr_content out = msg))"
proof -
  from private_reach_inv [OF assms(1)] assms(2) have "request_prov cf (\<lambda>k m. False) s rq" by (simp add: prov_inv_def)
  from this assms(3) show ?thesis
  proof (cases rule: answer_source)
    case (own p)
    with assms(2) show ?thesis unfolding own_answer_def by metis
  next
    case (stored p key msg)
    then show ?thesis unfolding known_def sourced_def by metis
  qed
qed

end
