(* ===== verification/App_Cluster.thy ===== *)
theory App_Cluster
  imports App_Provenance
begin

text \<open>
  The deployment: several replicas of the application behind one proxy, each with a gateway and
  requests of its own, on one Redis server (\<open>docker-compose.yml\<close> runs two). A step of the cluster
  is a step of one replica; the others see of it what it does to the server, which is a step of
  the world as they know it. So what holds of every run of one application holds of each replica,
  and this theory adds what only holds of all of them together.
\<close>

subsection \<open>Replicas on one server\<close>

record replica =
  rp_tasks :: gateway_tasks
  rp_requests :: "api_request list"

record cluster =
  cl_world :: world
  cl_replicas :: "replica list"

definition view :: "cluster \<Rightarrow> nat \<Rightarrow> running" where
  "view cl i = \<lparr>rn_world = cl_world cl, rn_tasks = rp_tasks (cl_replicas cl ! i),
     rn_requests = rp_requests (cl_replicas cl ! i)\<rparr>"

definition place :: "nat \<Rightarrow> running \<Rightarrow> cluster \<Rightarrow> cluster" where
  "place i s cl = cl\<lparr>cl_world := rn_world s,
     cl_replicas := (cl_replicas cl)[i := \<lparr>rp_tasks = rn_tasks s, rp_requests = rn_requests s\<rparr>]\<rparr>"

definition moves :: "(running \<Rightarrow> running \<Rightarrow> bool) \<Rightarrow> cluster \<Rightarrow> cluster \<Rightarrow> bool" where
  "moves R cl cl' \<longleftrightarrow>
     (\<exists>i s'. i < length (cl_replicas cl) \<and> R (view cl i) s' \<and> cl' = place i s' cl)"

inductive cluster_reach ::
  "provider list \<Rightarrow> settings \<Rightarrow> rate_limiter \<Rightarrow> semantic_cache \<Rightarrow> (nat \<Rightarrow> pystr) \<Rightarrow> real \<Rightarrow> cluster \<Rightarrow> bool"
for ps st l c cf skew where
  Start: "new_rate_limiter st = Inr l \<Longrightarrow> new_semantic_cache st = Inr c
    \<Longrightarrow> (\<And>g. g \<in> set gs \<Longrightarrow> \<exists>clk es. new_gateway ps st clk = (Inr g, es)) \<Longrightarrow> 0 \<le> ks_clock k + skew
    \<Longrightarrow> (\<And>user b. ks_data k (rate_limit_minute_key user b) = None)
    \<Longrightarrow> (\<And>user b. ks_data k (rate_limit_hour_key user b) = None)
    \<Longrightarrow> cluster_reach ps st l c cf skew \<lparr>cl_world = \<lparr>w_ks = k, w_tasks = []\<rparr>,
          cl_replicas = map (\<lambda>g. \<lparr>rp_tasks = \<lparr>gt_gateway = g, gt_calls = []\<rparr>, rp_requests = []\<rparr>) gs\<rparr>"
| Step: "cluster_reach ps st l c cf skew cl \<Longrightarrow> moves (app_step st l c cf skew) cl cl'
    \<Longrightarrow> cluster_reach ps st l c cf skew cl'"

subsection \<open>What one replica sees\<close>

lemma view_sel [simp]:
  "rn_world (view cl i) = cl_world cl" "rn_tasks (view cl i) = rp_tasks (cl_replicas cl ! i)"
  "rn_requests (view cl i) = rp_requests (cl_replicas cl ! i)"
  by (simp_all add: view_def)

lemma place_sel [simp]:
  "cl_world (place i s cl) = rn_world s" "length (cl_replicas (place i s cl)) = length (cl_replicas cl)"
  by (simp_all add: place_def)

lemma view_place:
  "i < length (cl_replicas cl) \<Longrightarrow> view (place i s cl) i = s"
  "i \<noteq> j \<Longrightarrow> view (place i s cl) j = (view cl j)\<lparr>rn_world := rn_world s\<rparr>"
  by (simp_all add: view_def place_def)

lemma moves_length: "moves R cl cl' \<Longrightarrow> length (cl_replicas cl') = length (cl_replicas cl)"
  by (auto simp: moves_def)

text \<open>A step of the cluster is, to each replica, a step of its own, a step of the world, or none.\<close>

lemma view_step:
  assumes "moves (app_step st l c cf skew) cl cl'" and "j < length (cl_replicas cl)"
  shows "view cl' j = view cl j \<or> app_step st l c cf skew (view cl j) (view cl' j)"
proof -
  from assms(1) obtain i s' where i: "i < length (cl_replicas cl)" "app_step st l c cf skew (view cl i) s'"
    and cl': "cl' = place i s' cl" by (auto simp: moves_def)
  show ?thesis
  proof (cases "i = j")
    case True
    with i cl' show ?thesis by (simp add: view_place(1))
  next
    case False
    have "rn_world s' = cl_world cl \<or> rl_step l skew (cl_world cl) (rn_world s')"
      using app_step_world [OF i(2)] by simp
    then show ?thesis
    proof
      assume "rn_world s' = cl_world cl"
      then have "(view cl j)\<lparr>rn_world := rn_world s'\<rparr> = view cl j" by (simp add: view_def)
      then show ?thesis by (simp only: cl' view_place(2) [OF False] simp_thms)
    next
      assume "rl_step l skew (cl_world cl) (rn_world s')"
      then have "app_step st l c cf skew (view cl j) ((view cl j)\<lparr>rn_world := rn_world s'\<rparr>)"
        by (intro app_step.World) simp
      then show ?thesis by (simp add: cl' view_place(2) [OF False])
    qed
  qed
qed

lemma cluster_app_reach:
  "cluster_reach ps st l c cf skew cl \<Longrightarrow> j < length (cl_replicas cl) \<Longrightarrow> app_reach ps st l c cf skew (view cl j)"
proof (induction rule: cluster_reach.induct)
  case (Start gs k)
  then obtain clk es where "new_gateway ps st clk = (Inr (gs ! j), es)" by fastforce
  from app_reach.Start [OF Start(1,2) this Start(4-6)] Start(7) show ?case by (simp add: view_def)
next
  case (Step cl cl')
  with moves_length [OF Step.hyps(2)] view_step [OF Step.hyps(2)] show ?case by (metis app_reach.Step)
qed

text \<open>A run of one replica is a run of the cluster.\<close>

lemma lift_steps:
  assumes "R\<^sup>*\<^sup>* (view cl i) s'" and i: "i < length (cl_replicas cl)"
  shows "(moves R)\<^sup>*\<^sup>* cl (place i s' cl)"
  using assms(1)
proof (induction rule: rtranclp_induct)
  case base
  obtain t rqs where r: "cl_replicas cl ! i = \<lparr>rp_tasks = t, rp_requests = rqs\<rparr>"
    by (cases "cl_replicas cl ! i") simp
  then have "place i (view cl i) cl = cl"
    using list_update_id [of "cl_replicas cl" i] by (simp add: place_def)
  then show ?case by simp
next
  case (step s s1)
  have "moves R (place i s cl) (place i s1 cl)"
    unfolding moves_def using step.hyps(2) i
    by (intro exI [of _ i] exI [of _ s1]) (simp add: view_place, simp add: place_def)
  with step.IH show ?case by (rule rtranclp.rtrancl_into_rtrancl)
qed

lemma cluster_reach_steps:
  "(moves (app_step st l c cf skew))\<^sup>*\<^sup>* cl cl' \<Longrightarrow> cluster_reach ps st l c cf skew cl
     \<Longrightarrow> cluster_reach ps st l c cf skew cl'"
  by (induction rule: rtranclp_induct) (auto intro: cluster_reach.Step)

subsection \<open>No check is shared between replicas\<close>

lemma update_check:
  assumes "rq \<in> set (rqs[j := r])" and "j < length rqs" and "ar_check r = ar_check (rqs ! j)"
  shows "ar_check rq \<in> ar_check ` set rqs"
  using set_update_cases [OF assms(1)] assms(2,3) by auto

lemma app_step_checks:
  assumes "app_step st l c cf skew s s'" and "rq \<in> set (rn_requests s')"
  shows "ar_check rq \<in> {None, Some (length (w_tasks (rn_world s)))} \<union> ar_check ` set (rn_requests s)"
  using assms(1)
proof cases
  case (Decide j r n ph)
  then have "rn_requests s' = (rn_requests s)[j := r\<lparr>ar_phase := ph\<rparr>]" by (simp add: set_request_def)
  with update_check [OF assms(2) [unfolded this] Decide(2)] Decide(3) show ?thesis by simp
next
  case (Look j p)
  obtain r where "rn_requests s' = (rn_requests s)[j := r]" "ar_check r = ar_check (rn_requests s ! j)"
    by (cases rule: look_cases [of cf p s j]) (auto simp: Look(1) set_request_def)
  with update_check [OF assms(2) [unfolded this(1)] Look(2)] show ?thesis by simp
next
  case (Answer j n p res)
  obtain r where "rn_requests s' = (rn_requests s)[j := r]" "ar_check r = ar_check (rn_requests s ! j)"
    by (cases "conclude (redis_cache ks_client) c cf p res (w_ks (rn_world s))")
      (simp add: Answer(1) answer_def set_request_def set_keyspace_def)
  with update_check [OF assms(2) [unfolded this(1)] Answer(2)] show ?thesis by simp
qed (use assms(2) in \<open>auto simp: new_request_def\<close>)

definition apart :: "cluster \<Rightarrow> bool" where
  "apart cl \<longleftrightarrow>
     (\<forall>i < length (cl_replicas cl). \<forall>j < length (cl_replicas cl). i \<noteq> j \<longrightarrow>
        (\<forall>r \<in> set (rn_requests (view cl i)). \<forall>r' \<in> set (rn_requests (view cl j)).
           ar_check r \<noteq> None \<longrightarrow> ar_check r \<noteq> ar_check r'))"

lemma apart_step:
  assumes step: "moves (app_step st l c cf skew) cl cl'" and apart: "apart cl"
    and inv: "\<And>j. j < length (cl_replicas cl) \<Longrightarrow> app_inv (view cl j)"
  shows "apart cl'"
proof -
  from step obtain i s' where i: "i < length (cl_replicas cl)" "app_step st l c cf skew (view cl i) s'"
    and cl': "cl' = place i s' cl" by (auto simp: moves_def)
  have other: "rn_requests (view cl' j) = rn_requests (view cl j)" if "j \<noteq> i" for j
    using that by (simp add: cl' place_def)
  have own: "rn_requests (view cl' i) = rn_requests s'" using i(1) by (simp add: cl' view_place(1))
  have new: "ar_check r \<noteq> ar_check r'"
    if "r \<in> set (rn_requests s')" "ar_check r \<noteq> None" "j < length (cl_replicas cl)" "j \<noteq> i"
      "r' \<in> set (rn_requests (view cl j))" for r r' j
  proof -
    have "ar_check r' \<noteq> Some (length (w_tasks (cl_world cl)))"
      using app_inv_each [OF inv [OF that(3)] that(5)] by (auto simp: request_inv_def)
    moreover have "ar_check r'' \<noteq> ar_check r'" if "r'' \<in> set (rn_requests (view cl i))" "ar_check r'' \<noteq> None" for r''
      using apart i(1) \<open>j < _\<close> \<open>j \<noteq> i\<close> \<open>r' \<in> _\<close> that unfolding apart_def by metis
    ultimately show ?thesis using app_step_checks [OF i(2) that(1)] that(2) by fastforce
  qed
  show ?thesis
    unfolding apart_def
  proof (intro allI impI ballI)
    fix a b r r'
    assume ab: "a < length (cl_replicas cl')" "b < length (cl_replicas cl')" "a \<noteq> b"
      and r: "r \<in> set (rn_requests (view cl' a))" "r' \<in> set (rn_requests (view cl' b))" "ar_check r \<noteq> None"
    have len: "a < length (cl_replicas cl)" "b < length (cl_replicas cl)" using ab by (simp_all add: cl')
    consider "a = i" "b \<noteq> i" | "b = i" "a \<noteq> i" | "a \<noteq> i" "b \<noteq> i" using ab(3) by blast
    then show "ar_check r \<noteq> ar_check r'"
    proof cases
      case 1
      with r own other new [of r b r'] len show ?thesis by simp
    next
      case 2
      with r own other new [of r' a r] len show ?thesis by (metis)
    next
      case 3
      with r other apart ab(3) len show ?thesis unfolding apart_def by metis
    qed
  qed
qed

lemma cluster_apart: "cluster_reach ps st l c cf skew cl \<Longrightarrow> apart cl"
proof (induction rule: cluster_reach.induct)
  case (Start gs k)
  show ?case by (simp add: apart_def)
next
  case (Step cl cl')
  then show ?case using apart_step app_reach_inv [OF cluster_app_reach] by metis
qed

subsection \<open>Calls per window, of all replicas\<close>

definition cluster_calls :: "cluster \<Rightarrow> nat set \<Rightarrow> (nat \<times> nat) set" where
  "cluster_calls cl checks = (SIGMA i : {..<length (cl_replicas cl)}. calls_after (view cl i) checks)"

definition cluster_provider_calls :: "cluster \<Rightarrow> nat set \<Rightarrow> nat" where
  "cluster_provider_calls cl checks =
     (\<Sum>i<length (cl_replicas cl). provider_calls (view cl i) (calls_after (view cl i) checks))"

lemma finite_calls_after: "app_inv s \<Longrightarrow> finite (calls_after s checks)"
  by (rule finite_subset [of _ "{..<length (gt_calls (rn_tasks s))}"]) (auto dest: call_in_range)

lemma card_cluster_calls:
  assumes inv: "\<And>i. i < length (cl_replicas cl) \<Longrightarrow> app_inv (view cl i)" and apart: "apart cl"
    and fin: "finite checks"
  shows "card (cluster_calls cl checks) \<le> card checks"
proof -
  let ?owns = "\<lambda>x n. n \<in> checks \<and> (\<exists>r \<in> set (rn_requests (view cl (fst x))).
    ar_call r = Some (snd x) \<and> ar_check r = Some n)"
  have "\<forall>x \<in> cluster_calls cl checks. \<exists>n. ?owns x n"
    by (fastforce simp: cluster_calls_def calls_after_def)
  then obtain f where f: "\<And>x. x \<in> cluster_calls cl checks \<Longrightarrow> ?owns x (f x)" by metis
  have "x = y" if x: "x \<in> cluster_calls cl checks" and y: "y \<in> cluster_calls cl checks" and eq: "f x = f y" for x y
  proof -
    from f [OF x] obtain r where r: "r \<in> set (rn_requests (view cl (fst x)))" "ar_call r = Some (snd x)"
      "ar_check r = Some (f x)" by blast
    from f [OF y] obtain r' where r': "r' \<in> set (rn_requests (view cl (fst y)))" "ar_call r' = Some (snd y)"
      "ar_check r' = Some (f x)" using eq by auto
    from x y have lt: "fst x < length (cl_replicas cl)" "fst y < length (cl_replicas cl)"
      by (auto simp: cluster_calls_def)
    with apart r r' have "fst x = fst y" unfolding apart_def by (metis option.distinct(1))
    moreover from this have "snd x = snd y"
      using one_call_per_check [OF inv [OF lt(1)] r(1) _ r(3) r'(3) r(2) r'(2)] r'(1) by simp
    ultimately show ?thesis by (rule prod_eqI)
  qed
  then have "inj_on f (cluster_calls cl checks)" by (rule inj_onI)
  moreover have "f ` cluster_calls cl checks \<subseteq> checks" using f by blast
  ultimately show ?thesis using fin by (rule card_inj_on_le)
qed

lemma cluster_provider_calls_le:
  assumes inv: "\<And>i. i < length (cl_replicas cl) \<Longrightarrow> app_inv (view cl i) \<and> tasks_inv ps st (rn_tasks (view cl i))"
    and card: "int (card (cluster_calls cl checks)) \<le> m" and max: "0 \<le> llm_max_retries st"
  shows "int (cluster_provider_calls cl checks) \<le> m * (int (length ps) * (llm_max_retries st + 1))"
proof -
  let ?cost = "int (length ps) * (llm_max_retries st + 1)" and ?calls = "\<lambda>i. calls_after (view cl i) checks"
  have "int (cluster_provider_calls cl checks)
      = (\<Sum>i<length (cl_replicas cl). int (provider_calls (view cl i) (?calls i)))"
    by (simp add: cluster_provider_calls_def)
  also have "\<dots> \<le> (\<Sum>i<length (cl_replicas cl). int (card (?calls i)) * ?cost)"
    using inv provider_calls_le by (intro sum_mono) blast
  also have "\<dots> = int (card (cluster_calls cl checks)) * ?cost"
    using inv finite_calls_after by (simp add: cluster_calls_def card_SigmaI sum_distrib_right)
  also have "\<dots> \<le> m * ?cost" using card max by (intro mult_right_mono) simp_all
  finally show ?thesis .
qed

end
