(* ===== verification/App_Replicas.thy ===== *)
theory App_Replicas
  imports App_Cluster
begin

text \<open>
  The properties of the deployed application: what the rate limit and the semantic cache mean
  when several replicas share one Redis server. The concrete cluster at the end has two replicas:
  the first answers a prompt from a provider, the second answers it from the cache.
\<close>

subsection \<open>Answers across replicas\<close>

text \<open>Runs of a cluster whose cache started empty and that nobody outside writes to.\<close>

inductive closed_reach ::
  "provider list \<Rightarrow> settings \<Rightarrow> rate_limiter \<Rightarrow> semantic_cache \<Rightarrow> (nat \<Rightarrow> pystr) \<Rightarrow> real \<Rightarrow> cluster \<Rightarrow> bool"
for ps st l c cf skew where
  Start: "cluster_reach ps st l c cf skew cl \<Longrightarrow> (\<And>r. r \<in> set (cl_replicas cl) \<Longrightarrow> rp_requests r = [])
    \<Longrightarrow> (\<And>h. ks_data (w_ks (cl_world cl)) (semantic_cache_key h) = None) \<Longrightarrow> closed_reach ps st l c cf skew cl"
| Step: "closed_reach ps st l c cf skew cl \<Longrightarrow> moves (calm_step st l c cf skew) cl cl'
    \<Longrightarrow> closed_reach ps st l c cf skew cl'"

lemma calm_moves: "moves (calm_step st l c cf skew) cl cl' \<Longrightarrow> moves (app_step st l c cf skew) cl cl'"
  unfolding moves_def using calm_step_app by blast

lemma closed_reach_cluster: "closed_reach ps st l c cf skew cl \<Longrightarrow> cluster_reach ps st l c cf skew cl"
  by (induction rule: closed_reach.induct) (auto intro: cluster_reach.Step calm_moves)

lemma closed_reach_steps:
  "(moves (calm_step st l c cf skew))\<^sup>*\<^sup>* cl cl' \<Longrightarrow> closed_reach ps st l c cf skew cl
     \<Longrightarrow> closed_reach ps st l c cf skew cl'"
  by (induction rule: rtranclp_induct) (auto intro: closed_reach.Step)

text \<open>The texts that some replica got from its gateway for a prompt with the key.\<close>

definition provided :: "(nat \<Rightarrow> pystr) \<Rightarrow> cluster \<Rightarrow> pystr \<Rightarrow> pystr \<Rightarrow> bool" where
  "provided cf cl key msg \<longleftrightarrow> (\<exists>j < length (cl_replicas cl). sourced cf (view cl j) key msg)"

lemma own_answer_world [simp]: "own_answer (s\<lparr>rn_world := w\<rparr>) rq p msg = own_answer s rq p msg"
  by (simp add: own_answer_def)

lemma sourced_world [simp]: "sourced cf (s\<lparr>rn_world := w\<rparr>) key msg = sourced cf s key msg"
  by (simp add: sourced_def)

lemma request_prov_mono:
  assumes "request_prov cf F s rq" and "\<And>key msg. known cf F s key msg \<Longrightarrow> known cf F' s' key msg"
    and "rn_tasks s' = rn_tasks s"
  shows "request_prov cf F' s' rq"
proof -
  have own: "own_answer s' rq p msg = own_answer s rq p msg" for p msg
    by (simp add: own_answer_def assms(3))
  show ?thesis
    using assms(1,3) assms(2)
    by (fastforce simp: request_prov_def own split: request_phase.splits sum.splits)
qed

lemma prov_inv_mono:
  assumes inv: "prov_inv cf F s" and more: "\<And>key msg. F key msg \<Longrightarrow> F' key msg"
  shows "prov_inv cf F' s"
proof -
  have known: "known cf F' s key msg" if "known cf F s key msg" for key msg
    using that more by (auto simp: known_def)
  have "request_prov cf F' s rq" if rq: "rq \<in> set (rn_requests s)" for rq
  proof (rule request_prov_mono [OF _ known refl])
    show "request_prov cf F s rq" using inv rq unfolding prov_inv_def by blast
  qed
  with inv known show ?thesis unfolding prov_inv_def by blast
qed

lemma provided_place:
  assumes "i < length (cl_replicas cl)" and "grows (view cl i) s'" and "provided cf cl key msg"
  shows "provided cf (place i s' cl) key msg"
proof -
  from assms(3) obtain k where k: "k < length (cl_replicas cl)" "sourced cf (view cl k) key msg"
    by (auto simp: provided_def)
  have "sourced cf (view (place i s' cl) k) key msg"
    using sourced_grows [OF assms(2)] k(2) assms(1) by (cases "k = i") (auto simp: view_place)
  with k(1) show ?thesis by (auto simp: provided_def)
qed

text \<open>A step of one replica keeps the invariant at every replica.\<close>

lemma provided_step:
  assumes step: "moves (calm_step st l c cf skew) cl cl'"
    and app: "\<And>j. j < length (cl_replicas cl) \<Longrightarrow> app_inv (view cl j)"
    and inv: "\<And>j. j < length (cl_replicas cl) \<Longrightarrow> prov_inv cf (provided cf cl) (view cl j)"
    and j: "j < length (cl_replicas cl)"
  shows "prov_inv cf (provided cf cl') (view cl' j)"
proof -
  from step obtain i s' where i: "i < length (cl_replicas cl)" "calm_step st l c cf skew (view cl i) s'"
    and cl': "cl' = place i s' cl" by (auto simp: moves_def)
  note grow = app_step_grows [OF calm_step_app [OF i(2)] app [OF i(1)]]
  have here: "view cl' i = s'" by (simp add: cl' view_place(1) i(1))
  have there: "view cl' k = (view cl k)\<lparr>rn_world := rn_world s'\<rparr>" if "k \<noteq> i" for k
    using that by (simp add: cl' view_place(2))
  have len: "length (cl_replicas cl') = length (cl_replicas cl)" by (simp add: cl')
  note more = provided_place [OF i(1) grow, of cf, folded cl']
  have own: "known cf (provided cf cl') (view cl' k) key msg = provided cf cl' key msg"
    if "k < length (cl_replicas cl)" for k key msg
    using that len by (auto simp: known_def provided_def)
  have all: "prov_inv cf (provided cf cl') s'"
    by (rule prov_inv_mono [OF prov_inv_step [OF i(2) app [OF i(1)] inv [OF i(1)]] more])
  show ?thesis
  proof (cases "j = i")
    case False
    have "request_prov cf (provided cf cl') (view cl' j) rq" if "rq \<in> set (rn_requests (view cl' j))" for rq
    proof (rule request_prov_mono)
      show "request_prov cf (provided cf cl) (view cl j) rq"
        using inv [OF j] that by (simp add: prov_inv_def there [OF False])
    qed (use more there [OF False] in \<open>auto simp: known_def\<close>)
    moreover have "\<exists>msg. fst v = VStr (encode_payload msg) \<and> provided cf cl' (semantic_cache_key h) msg"
      if "ks_data (w_ks (rn_world s')) (semantic_cache_key h) = Some v" for h v
      using all that own [OF i(1)] unfolding here prov_inv_def by blast
    moreover have "rn_world (view cl' j) = rn_world s'" by (simp add: cl')
    ultimately show ?thesis unfolding prov_inv_def own [OF j] by simp
  qed (use all here in simp)
qed

lemma closed_reach_inv:
  "closed_reach ps st l c cf skew cl \<Longrightarrow> j < length (cl_replicas cl)
     \<Longrightarrow> prov_inv cf (provided cf cl) (view cl j)"
proof (induction arbitrary: j rule: closed_reach.induct)
  case (Start cl)
  then show ?case by (simp add: prov_inv_def)
next
  case (Step cl cl')
  from app_reach_inv [OF cluster_app_reach [OF closed_reach_cluster [OF Step.hyps(1)]]]
  have "\<And>j. j < length (cl_replicas cl) \<Longrightarrow> app_inv (view cl j)" by blast
  with provided_step [OF Step.hyps(2)] Step.IH Step.prems moves_length [OF Step.hyps(2)] show ?case by simp
qed

subsection \<open>Two replicas, one provider call\<close>

definition demo_cluster :: cluster where
  "demo_cluster = \<lparr>cl_world = \<lparr>w_ks = empty_ks 30, w_tasks = []\<rparr>,
     cl_replicas = map (\<lambda>g. \<lparr>rp_tasks = \<lparr>gt_gateway = g, gt_calls = []\<rparr>, rp_requests = []\<rparr>)
       [demo_gateway, demo_gateway]\<rparr>"

abbreviation demo_cluster_reach :: "cluster \<Rightarrow> bool" where
  "demo_cluster_reach \<equiv> cluster_reach two_providers (keyed (u ''k1'')) demo_limiter demo_policy ascii_fold 0"

abbreviation demo_closed :: "cluster \<Rightarrow> bool" where
  "demo_closed \<equiv> closed_reach two_providers (keyed (u ''k1'')) demo_limiter demo_policy ascii_fold 0"

lemma demo_cluster_sel [simp]:
  "length (cl_replicas demo_cluster) = 2" "cl_world demo_cluster = \<lparr>w_ks = empty_ks 30, w_tasks = []\<rparr>"
  "i < 2 \<Longrightarrow> cl_replicas demo_cluster ! i
    = \<lparr>rp_tasks = \<lparr>gt_gateway = demo_gateway, gt_calls = []\<rparr>, rp_requests = []\<rparr>"
  by (auto simp: demo_cluster_def less_2_cases_iff)

lemma demo_closed_start: "demo_closed demo_cluster"
proof -
  have "demo_cluster_reach demo_cluster"
    unfolding demo_cluster_def
    by (rule cluster_reach.Start [OF demo_parts(1,2)]) (use demo_parts(3) in \<open>auto simp: empty_ks_def\<close>)
  then show ?thesis by (rule closed_reach.Start) (simp_all add: demo_cluster_def empty_ks_def)
qed

definition loud_body :: json where
  "loud_body = JObj [(u ''prompt'', JStr (u '' Hi ''))]"

definition hit_response :: generate_response where
  "hit_response = \<lparr>gr_content = u ''hi'', gr_model = u ''cache'', gr_source = u ''semantic_cache''\<rparr>"

lemma demo_hit:
  assumes "demo_server n (Some (VStr (encode_payload (u ''hi'')), Some 3630)) k" and "n < 60"
  shows "\<exists>k' g' es. post_generate (redis_cache ks_client) (keyed (u ''k1'')) (Some demo_limiter) demo_policy ascii_fold
      g w (Some (u ''k1'')) 30 loud_body k = (Inr hit_response, k', g', es)"
proof -
  have prompt: "request_prompt loud_body = Some (u '' Hi '')"
    by (simp add: loud_body_def request_prompt_def valid_prompt_def obj_lookup_def u_def)
  from demo_post [OF assms prompt] obtain k' where
    k': "demo_server (n + 1) (Some (VStr (encode_payload (u ''hi'')), Some 3630)) k'"
    and post: "post_generate (redis_cache ks_client) (keyed (u ''k1'')) (Some demo_limiter) demo_policy ascii_fold
        g w (Some (u ''k1'')) 30 loud_body k
      = route_generate (redis_cache ks_client) demo_policy ascii_fold g w (u '' Hi '') k'" by blast
  have key: "query_key ascii_fold (u '' Hi '') = Inr demo_key"
    using query_key_hi by (simp add: query_key_def demo_key_def)
  have "scalar_str (u ''hi'')" by (simp add: u_def scalar_str_def is_scalar_def)
  then have "fst (cache_get (redis_cache ks_client) ascii_fold (u '' Hi '') k') = Inr (Some (mk_entry (u ''hi'')))"
    using k' query_key_scalar [OF key]
    by (simp add: cache_get_def key adapter_get_def encoded_def utf8_encodable_def ks_get_def live_def expired_def
        demo_server_def decode_encode)
  then show ?thesis
    using post route_cases [of "redis_cache ks_client" ascii_fold "u '' Hi ''" k' demo_policy g w]
    by (auto simp: hit_response_def mk_entry_def)
qed

text \<open>A request served by the replica \<open>i\<close>, alone.\<close>

lemma demo_serve:
  assumes cl: "demo_closed cl" "i < length (cl_replicas cl)" and clock: "ks_clock (w_ks (cl_world cl)) = 30"
    and post: "post_generate (redis_cache ks_client) (keyed (u ''k1'')) (Some demo_limiter) demo_policy ascii_fold
      (gt_gateway (rn_tasks (view cl i))) (quiet_env limited_then_ok) (Some (u ''k1'')) 30 body (w_ks (cl_world cl))
      = (out, k', g', es)"
  shows "\<exists>cl' rq. demo_closed cl' \<and> length (cl_replicas cl') = length (cl_replicas cl)
    \<and> w_ks (cl_world cl') = k' \<and> rn_requests (view cl' i) = rn_requests (view cl i) @ [rq] \<and> ar_phase rq = Done out
    \<and> (\<forall>j. j \<noteq> i \<longrightarrow> cl_replicas cl' ! j = cl_replicas cl ! j)"
proof -
  have "tasks_inv two_providers (keyed (u ''k1'')) (rn_tasks (view cl i))"
    by (rule app_reach_tasks [OF cluster_app_reach [OF closed_reach_cluster [OF cl(1)] cl(2)]])
  from handler_alone [OF this demo_env, where l = demo_limiter and skew = 0 and c = demo_policy and cf = ascii_fold]
    post clock obtain s' where s': "demo_calm\<^sup>*\<^sup>* (view cl i) s'"
    "concluded (view cl i) (rn_requests (view cl i)) out k' g' es s'" by fastforce
  from closed_reach_steps [OF lift_steps [OF s'(1) cl(2)] cl(1)] have "demo_closed (place i s' cl)" .
  moreover from s'(2) obtain rq where "rn_requests s' = rn_requests (view cl i) @ [rq]" "ar_phase rq = Done out"
    "w_ks (rn_world s') = k'" by (auto simp: concluded_def)
  ultimately show ?thesis
    using cl(2) by (intro exI [of _ "place i s' cl"] exI [of _ rq]) (simp add: place_def)
qed

lemma demo_shared:
  "\<exists>cl r0 r1. demo_closed cl \<and> length (cl_replicas cl) = 2
    \<and> rn_requests (view cl 0) = [r0] \<and> ar_phase r0 = Done (Inr hi_response)
    \<and> rn_requests (view cl 1) = [r1] \<and> ar_phase r1 = Done (Inr hit_response)"
proof -
  from demo_served obtain k g es where first: "post_generate (redis_cache ks_client) (keyed (u ''k1''))
      (Some demo_limiter) demo_policy ascii_fold demo_gateway (quiet_env limited_then_ok) (Some (u ''k1'')) 30
      hi_body (empty_ks 30) = (Inr hi_response, k, g, es)"
    and k: "demo_server 1 (Some (VStr (encode_payload (u ''hi'')), Some 3630)) k" by blast
  have start: "gt_gateway (rn_tasks (view demo_cluster 0)) = demo_gateway" "0 < length (cl_replicas demo_cluster)"
    "w_ks (cl_world demo_cluster) = empty_ks 30" "rn_requests (view demo_cluster 0) = []"
    "rn_requests (view demo_cluster 1) = []" by simp_all
  from demo_serve [OF demo_closed_start start(2) _ first [folded start(1,3)]] obtain cl r0 where cl: "demo_closed cl"
    "length (cl_replicas cl) = 2" "w_ks (cl_world cl) = k" "rn_requests (view cl 0) = [r0]"
    "ar_phase r0 = Done (Inr hi_response)" "\<forall>j. j \<noteq> 0 \<longrightarrow> cl_replicas cl ! j = cl_replicas demo_cluster ! j"
    unfolding start(4) by auto
  then have none: "rn_requests (view cl 1) = []" by simp
  from demo_hit [OF k, of "gt_gateway (rn_tasks (view cl 1))" "quiet_env limited_then_ok"]
  obtain k' g' es' where second: "post_generate (redis_cache ks_client) (keyed (u ''k1'')) (Some demo_limiter)
      demo_policy ascii_fold (gt_gateway (rn_tasks (view cl 1))) (quiet_env limited_then_ok) (Some (u ''k1'')) 30
      loud_body (w_ks (cl_world cl)) = (Inr hit_response, k', g', es')" unfolding cl(3) by auto
  have "1 < length (cl_replicas cl)" "ks_clock (w_ks (cl_world cl)) = 30" using cl(2,3) k by (simp_all add: demo_server_def)
  from demo_serve [OF cl(1) this second] obtain cl' r1 where "demo_closed cl'" "length (cl_replicas cl') = 2"
    "rn_requests (view cl' 1) = [r1]" "ar_phase r1 = Done (Inr hit_response)"
    "\<forall>j. j \<noteq> 1 \<longrightarrow> cl_replicas cl' ! j = cl_replicas cl ! j"
    unfolding none cl(2) by auto
  moreover from this(5) have "rn_requests (view cl' 0) = [r0]" using cl(4) by simp
  ultimately show ?thesis using cl(5) by blast
qed

subsection \<open>Properties\<close>

text \<open>
  C4: The replicas share one limit. However the requests of all replicas interleave, the requests
  of one caller whose checks read a time in one minute and were counted while it lasted enter the
  gateways, all replicas together, at most as often as the limit per minute allows, and make at
  most that many times providers times attempts provider calls; if checks counted up to \<open>d\<close>
  minutes late are included, at most \<open>d + 1\<close> times as often. The same holds for the hour. No
  request enters a gateway without a check of its own that admitted it.
\<close>

theorem replicas_share_the_limit:
  assumes reach: "cluster_reach ps st l c cf skew cl" and some: "cl_replicas cl \<noteq> []"
    and minute: "minute = admitted_in_minute (cl_world cl) user b d"
    and hour: "hour = admitted_in_hour (cl_world cl) user b d"
    and cost: "cost = int (length ps) * (llm_max_retries st + 1)"
  shows "int (card (cluster_calls cl minute)) \<le> (int d + 1) * rate_limit_per_minute st
    \<and> int (cluster_provider_calls cl minute) \<le> (int d + 1) * rate_limit_per_minute st * cost
    \<and> int (card (cluster_calls cl hour)) \<le> (int d + 1) * rate_limit_per_hour st
    \<and> int (cluster_provider_calls cl hour) \<le> (int d + 1) * rate_limit_per_hour st * cost
    \<and> (\<forall>i < length (cl_replicas cl). \<forall>k < length (gt_calls (rn_tasks (view cl i))).
         \<exists>rq \<in> set (rn_requests (view cl i)). ar_call rq = Some k \<and> admitted (cl_world cl) rq)"
proof -
  have each: "app_inv (view cl i) \<and> tasks_inv ps st (rn_tasks (view cl i))" if "i < length (cl_replicas cl)" for i
    using app_reach_inv app_reach_tasks cluster_app_reach [OF reach that] by blast
  have first: "0 < length (cl_replicas cl)" using some by simp
  from app_reach_inv [OF cluster_app_reach [OF reach first]] have rl: "rl_reach l skew (cl_world cl)"
    and l: "rl_minute_limit l = rate_limit_per_minute st" "rl_hour_limit l = rate_limit_per_hour st"
    and pos: "0 < rate_limit_per_minute st" "0 < rate_limit_per_hour st" by auto
  have max: "0 \<le> llm_max_retries st" using each [OF first] by (auto simp: tasks_inv_def gateway_inv_def)
  have fin: "finite minute" "finite hour"
    by (simp_all add: minute hour)
  from card_cluster_calls [OF _ cluster_apart [OF reach] fin(1)] card_cluster_calls [OF _ cluster_apart [OF reach] fin(2)]
    admitted_bounds [OF rl_reach_inv [OF rl], of user b d] each l pos
  have m: "int (card (cluster_calls cl minute)) \<le> (int d + 1) * rate_limit_per_minute st"
    and h: "int (card (cluster_calls cl hour)) \<le> (int d + 1) * rate_limit_per_hour st"
    unfolding minute hour by fastforce+
  have "\<exists>rq \<in> set (rn_requests (view cl i)). ar_call rq = Some k \<and> admitted (cl_world cl) rq"
    if "i < length (cl_replicas cl)" "k < length (gt_calls (rn_tasks (view cl i)))" for i k
    using own_check [of "view cl i" k] each [OF that(1)] that(2) by simp
  with m h cluster_provider_calls_le [OF each m max] cluster_provider_calls_le [OF each h max] show ?thesis
    unfolding cost by blast
qed

theorem replicas_share_the_limit_witness:
  "\<exists>cl r0 r1. demo_cluster_reach cl \<and> length (cl_replicas cl) = 2
    \<and> rn_requests (view cl 0) = [r0] \<and> ar_phase r0 = Done (Inr hi_response)
    \<and> rn_requests (view cl 1) = [r1] \<and> ar_phase r1 = Done (Inr hit_response)
    \<and> int (cluster_provider_calls cl (admitted_in_minute (cl_world cl) (sha256_hex (u ''k1'')) 0 0)) \<le> 60 * 6"
proof -
  from demo_shared obtain cl r0 r1 where cl: "demo_closed cl" "length (cl_replicas cl) = 2"
    "rn_requests (view cl 0) = [r0]" "ar_phase r0 = Done (Inr hi_response)"
    "rn_requests (view cl 1) = [r1]" "ar_phase r1 = Done (Inr hit_response)" by blast
  from cl(2) have "cl_replicas cl \<noteq> []" by auto
  from replicas_share_the_limit [OF closed_reach_cluster [OF cl(1)] this refl refl refl,
      where user = "sha256_hex (u ''k1'')" and b = 0 and d = 0]
  have "int (cluster_provider_calls cl (admitted_in_minute (cl_world cl) (sha256_hex (u ''k1'')) 0 0)) \<le> 60 * 6"
    by (simp add: keyed_def default_settings_def two_providers_def)
  with cl closed_reach_cluster show ?thesis by blast
qed

text \<open>
  C5: Every answer comes from a provider, and none from another prompt. As long as nobody but
  the replicas writes the semantic cache, in every interleaving of all their requests each answer
  is the text the replica's gateway returned for the request's own prompt, or a text that some
  replica's gateway returned for a request whose prompt has the same cache key, passed through
  the shared cache unchanged (texts with lone surrogates apart, which the JSON encoding may join).
\<close>

theorem answers_come_from_providers:
  assumes reach: "closed_reach ps st l c cf skew cl" and i: "i < length (cl_replicas cl)"
    and rq: "rq \<in> set (rn_requests (view cl i))" "ar_phase rq = Done (Inr out)"
  shows "\<exists>j < length (cl_replicas cl). \<exists>rq' \<in> set (rn_requests (view cl j)). \<exists>p p' msg.
    request_prompt (ar_body rq) = Some p \<and> own_answer (view cl j) rq' p' msg
    \<and> (gr_source out = u ''llm'' \<and> j = i \<and> rq' = rq \<and> gr_content out = msg
       \<or> gr_source out = u ''semantic_cache'' \<and> (\<exists>key. query_key cf p = Inr key \<and> query_key cf p' = Inr key)
         \<and> (scalar_str msg \<longrightarrow> gr_content out = msg))"
proof -
  from closed_reach_inv [OF reach i] rq(1) have "request_prov cf (provided cf cl) (view cl i) rq"
    by (simp add: prov_inv_def)
  from this rq(2) show ?thesis
  proof (cases rule: answer_source)
    case (own p)
    with i rq(1) show ?thesis unfolding own_answer_def by metis
  next
    case (stored p key msg)
    with i have "provided cf cl key msg" by (auto simp: known_def provided_def)
    with stored show ?thesis unfolding provided_def sourced_def by metis
  qed
qed

theorem answers_come_from_providers_witness:
  "\<exists>cl r1 j r p p' msg. demo_closed cl \<and> r1 \<in> set (rn_requests (view cl 1)) \<and> ar_phase r1 = Done (Inr hit_response)
    \<and> j < 2 \<and> r \<in> set (rn_requests (view cl j)) \<and> own_answer (view cl j) r p' msg \<and> (scalar_str msg \<longrightarrow> msg = u ''hi'')
    \<and> query_key ascii_fold p = query_key ascii_fold p' \<and> request_prompt (ar_body r1) = Some p"
proof -
  from demo_shared obtain cl r0 r1 where cl: "demo_closed cl" "length (cl_replicas cl) = 2"
    "rn_requests (view cl 0) = [r0]" "ar_phase r0 = Done (Inr hi_response)"
    "rn_requests (view cl 1) = [r1]" "ar_phase r1 = Done (Inr hit_response)" by blast
  have "1 < length (cl_replicas cl)" "r1 \<in> set (rn_requests (view cl 1))" using cl(2,5) by simp_all
  from answers_come_from_providers [OF cl(1) this cl(6)]
  have "\<exists>j < 2. \<exists>r \<in> set (rn_requests (view cl j)). \<exists>p p' msg. request_prompt (ar_body r1) = Some p
    \<and> own_answer (view cl j) r p' msg \<and> query_key ascii_fold p = query_key ascii_fold p'
    \<and> (scalar_str msg \<longrightarrow> msg = u ''hi'')"
    unfolding cl(2) by (fastforce simp: hit_response_def)
  with cl(1,6) \<open>r1 \<in> _\<close> show ?thesis by blast
qed

text \<open>
  C12: No request gets stuck, and no answer is taken back. In every reachable state of the cluster
  a request has at most five steps more than there are providers to take; no step of anybody, be
  it another request, another replica or the clock, adds to that or changes the answer of a
  finished request; as long as it is unfinished, a step is enabled that brings it closer to its
  answer; and from every reachable state there is a run in which it is answered.
\<close>

theorem no_request_is_stuck:
  assumes reach: "cluster_reach ps st l c cf skew cl" and i: "i < length (cl_replicas cl)"
    and j: "j < length (rn_requests (view cl i))"
  shows "work (length ps) (view cl i) j \<le> length ps + 5
    \<and> (work (length ps) (view cl i) j = 0 \<longleftrightarrow> (\<exists>out. ar_phase (rn_requests (view cl i) ! j) = Done out))
    \<and> (\<forall>cl'. moves (app_step st l c cf skew) cl cl' \<longrightarrow> j < length (rn_requests (view cl' i))
         \<and> work (length ps) (view cl' i) j \<le> work (length ps) (view cl i) j
         \<and> (\<forall>out. ar_phase (rn_requests (view cl i) ! j) = Done out
              \<longrightarrow> rn_requests (view cl' i) ! j = rn_requests (view cl i) ! j))
    \<and> (0 < work (length ps) (view cl i) j \<longrightarrow> (\<exists>cl'. moves (app_step st l c cf skew) cl cl'
         \<and> work (length ps) (view cl' i) j < work (length ps) (view cl i) j))
    \<and> (\<exists>cl' out. (moves (app_step st l c cf skew))\<^sup>*\<^sup>* cl cl' \<and> ar_phase (rn_requests (view cl' i) ! j) = Done out)"
proof -
  note app = cluster_app_reach [OF reach i]
  note progress = process_progress [OF app j]
  have others: "j < length (rn_requests (view cl' i))
      \<and> work (length ps) (view cl' i) j \<le> work (length ps) (view cl i) j
      \<and> (\<forall>out. ar_phase (rn_requests (view cl i) ! j) = Done out
           \<longrightarrow> rn_requests (view cl' i) ! j = rn_requests (view cl i) ! j)"
    if "moves (app_step st l c cf skew) cl cl'" for cl'
    using view_step [OF that i]
  proof
    assume same: "view cl' i = view cl i"
    show ?thesis using j unfolding same by blast
  qed (rule progress(2))
  have own: "\<exists>cl'. moves (app_step st l c cf skew) cl cl'
      \<and> work (length ps) (view cl' i) j < work (length ps) (view cl i) j"
    if "0 < work (length ps) (view cl i) j"
  proof -
    from progress(3) [OF that] obtain s' where "app_step st l c cf skew (view cl i) s'"
      "work (length ps) s' j < work (length ps) (view cl i) j" by blast
    with i show ?thesis by (intro exI [of _ "place i s' cl"]) (auto simp: moves_def view_place(1))
  qed
  from finishes [OF app j] obtain s' out where "(app_step st l c cf skew)\<^sup>*\<^sup>* (view cl i) s'"
    "ar_phase (rn_requests s' ! j) = Done out" by blast
  with lift_steps [OF _ i] view_place(1) [OF i]
  have "\<exists>cl' out. (moves (app_step st l c cf skew))\<^sup>*\<^sup>* cl cl' \<and> ar_phase (rn_requests (view cl' i) ! j) = Done out"
    by metis
  with progress(1) others own work_done [of "length ps" "view cl i" j] show ?thesis by blast
qed

theorem no_request_is_stuck_witness:
  "\<exists>cl. moves demo_step demo_cluster cl \<and> work 2 (view cl 0) 0 = 7
    \<and> (\<exists>cl'. moves demo_step cl cl' \<and> work 2 (view cl' 0) 0 < 7)
    \<and> (\<exists>cl' out. (moves demo_step)\<^sup>*\<^sup>* cl cl' \<and> ar_phase (rn_requests (view cl' 0) ! 0) = Done out)"
proof -
  from demo_entered obtain s where s: "demo_step demo_start s" "length (rn_requests s) = 1" "work 2 s 0 = 7" by blast
  let ?cl = "place 0 s demo_cluster"
  have start: "view demo_cluster 0 = demo_start" by (simp add: view_def demo_start_def)
  then have step: "moves demo_step demo_cluster ?cl"
    using s(1) unfolding moves_def by (intro exI [of _ "0::nat"] exI [of _ s]) simp
  have reach: "demo_cluster_reach ?cl"
    by (rule cluster_reach.Step [OF closed_reach_cluster [OF demo_closed_start] step])
  have here: "view ?cl 0 = s" by (rule view_place(1)) simp
  have len: "length two_providers = 2" by (simp add: two_providers_def)
  have w: "work 2 (view ?cl 0) 0 = 7" using s(3) here by simp
  have "0 < length (cl_replicas ?cl)" "0 < length (rn_requests (view ?cl 0))" using s(2) here by simp_all
  from no_request_is_stuck [OF reach this, unfolded len w]
  have "\<exists>cl'. moves demo_step ?cl cl' \<and> work 2 (view cl' 0) 0 < 7"
    "\<exists>cl' out. (moves demo_step)\<^sup>*\<^sup>* ?cl cl' \<and> ar_phase (rn_requests (view cl' 0) ! 0) = Done out"
    by simp_all
  with step w show ?thesis by blast
qed

end
