(* ===== verification/Spec2Isabelle.thy ===== *)
theory Spec2Isabelle
  imports Router_Properties Gateway_Properties Gateway_Concurrency Rate_Properties Cache_Properties
    Api_Properties App_Properties App_Config App_Replicas
begin

text \<open>
  A model of the NEXUS AI platform (the Python package \<open>src/nexus\<close> and its load benchmark), with
  the theorems that make its parts correct.

  \<^bold>\<open>The program.\<close> A FastAPI service answers \<open>POST /v1/generate\<close>. A request passes the middleware
  (\<open>api/middleware.py\<close>), the route table (\<open>api/router.py\<close>), the API-key check
  (\<open>security/auth.py\<close>) and the rate limiter (\<open>api/dependencies.py\<close>, \<open>cache/services/rate_limiter.py\<close>);
  the route (\<open>api/routes/generate.py\<close>) looks the prompt up in the semantic cache
  (\<open>cache/services/semantic_cache.py\<close>) and otherwise asks the LLM gateway (\<open>llm/gateway.py\<close>), which
  lets the router (\<open>llm/routing/router.py\<close>) select a provider, retries it with backoff and falls
  back along the configured chain (\<open>llm/factory.py\<close>, \<open>llm/providers\<close>, \<open>llm/http/client.py\<close>).
  Counters, cache entries and conversations (\<open>cache/services/memory.py\<close>) live in Redis behind two
  adapters (\<open>cache/adapters\<close>). \<open>main.py\<close> builds all of it at startup from the environment
  (\<open>core/config.py\<close>) and releases it at the end. \<open>docker-compose.yml\<close> runs two such processes behind
  one proxy, on one Redis server.

  \<^bold>\<open>Theories\<close>, in the order they build on each other:

  \<^item> \<open>Nexus_Prelude\<close>: Python strings as lists of code points, the exception classes, results
    (\<open>exn + 'a\<close>), and the string and list functions the components share.
  \<^item> \<open>Llm_Types\<close> (\<open>llm/models.py\<close>, \<open>errors.py\<close>, \<open>protocol.py\<close>, \<open>observability/*_metrics.py\<close>):
    requests, responses, provider objects, declared metrics, and the log of effects (metrics,
    spans, provider calls, sleeps) every operation returns. \<open>Settings\<close> (\<open>core/config.py\<close>): the
    fields and how \<open>Settings()\<close> reads the environment. \<open>Logging\<close> (\<open>core/logging.py\<close>).
  \<^item> \<open>Router\<close>, \<open>Router_Correct\<close>, \<open>Router_Properties\<close> (\<open>llm/routing/router.py\<close>): statistics,
    scores, selection and the circuit breaker; their invariant over every run of the router; that
    selection explores first, then takes the first best available provider, and never raises;
    when a tripped provider is unavailable and when it is available again.
  \<^item> \<open>Gateway\<close>, \<open>Gateway_Retry\<close>, \<open>Gateway_Fallback\<close>, \<open>Gateway_Properties\<close>, \<open>Gateway_State\<close>
    (\<open>llm/gateway.py\<close>): the code with all its effects; closed forms of the retry loop and of the
    fallback loop; the refinement of an abstract policy, the calls, sleeps, statistics, errors
    and telemetry of a request. \<open>generate\<close> is composed of \<open>open_request\<close> and, per provider, an
    awaited part (\<open>await_turn\<close>) and the part after the await (\<open>settle_turn\<close>).
  \<^item> \<open>Gateway_Tasks\<close>, \<open>Gateway_Interleaving\<close>, \<open>Gateway_Concurrency\<close>: many requests on one gateway,
    as a step relation whose steps are the pieces between two awaits, made of the same
    \<open>open_request\<close>, \<open>await_turn\<close> and \<open>settle_turn\<close>. Each interleaved request runs as \<open>generate\<close> does,
    the router loses no outcome, and every request is answered.
  \<^item> \<open>Sha256\<close>, \<open>Keys\<close> (\<open>cache/keys.py\<close>), \<open>Json\<close>, \<open>Json_Correct\<close>: the digest, the key scheme and
    its injectivity, \<open>json.dumps\<close> of string dictionaries, \<open>json.loads\<close>, their round trip.
  \<^item> \<open>Redis\<close>, \<open>Cache_Store\<close> (\<open>cache/adapters\<close>): the commands on an abstract client, the keyspace
    that documents their meaning, the adapters over them. The locales \<open>redis_laws\<close> and
    \<open>redis_world\<close> say when a client follows the keyspace, \<open>text_store\<close> and \<open>list_store\<close> what the
    services need of a store; the keyspace itself is an interpretation of each.
  \<^item> \<open>Rate_Limiter\<close>, \<open>Rate_Window\<close>, \<open>Rate_Safety\<close>, \<open>Rate_Properties\<close>: one check, the step relation of
    concurrent checks on one server, its invariant, the limits for every interleaving. A counter
    lives from its first increment until it expires, so a check that read the clock long before
    its increment may start another life of it: the bounds are by how many windows late a check is
    counted, and \<open>late_check_exceeds_limit\<close> shows that such checks do exceed the limit.
  \<^item> \<open>Semantic_Cache\<close>, \<open>Agent_Memory\<close>, \<open>Cache_Properties\<close>: both services over the store contracts,
    their round trips with expiry, isolation, refusal and corruption.
  \<^item> \<open>Http_Pool\<close>, \<open>Providers\<close>, \<open>Provider_Contract\<close>: the connection pool, the four providers, and the
    locale \<open>llm_contract\<close> of how outcomes and status codes are classified, interpreted for the
    three HTTP providers. Nothing is assumed of what the HTTP library raises: the exceptions that
    no handler names (\<open>foreign\<close>) come out unchanged.
  \<^item> \<open>Factory\<close>, \<open>Services\<close>, \<open>Http_Layer\<close>, \<open>Route_Table\<close>, \<open>Api\<close>, \<open>App\<close>, \<open>App_Serve\<close>: the provider
    chain; the validating gateway and the guardrail; middleware, probes and tracing; the routes;
    authentication, rate limit and the generate route; startup, shutdown; one whole request.
  \<^item> \<open>App_Steps\<close>, \<open>App_Interleaving\<close>, \<open>App_Alone\<close>, \<open>App_Concurrency\<close>, \<open>App_Progress\<close>,
    \<open>App_Provenance\<close>: concurrent requests to the generate route, as a step relation over the Redis
    server with its checks and the gateway with its calls; it projects onto the steps of
    \<open>Rate_Window\<close> and of \<open>Gateway_Tasks\<close>. An uninterrupted request gets what \<open>post_generate\<close>
    computes; in a process the limit bounds the provider calls of a caller, every request can
    finish, and every answer stored or given is what a provider answered to a prompt of that key.
  \<^item> \<open>App_Cluster\<close>, \<open>App_Replicas\<close>: the deployment, any number of replicas on one Redis server. A step
    of one replica is for the others a step of the world, so what holds of each process in any
    world holds of each replica; beyond that, the replicas share one limit and one cache, no
    request gets stuck and no answer is taken back.
  \<^item> \<open>Doubles\<close>, \<open>Benchmark\<close>, \<open>Benchmark_Run\<close> (\<open>benchmarks/generate_benchmark.py\<close>): the rounding of
    binary64 and its error bounds (locale \<open>rounding\<close>); percentiles and statistics in it; the
    requests in flight under the semaphore up to the first exception, arguments and outputs.
  \<^item> \<open>Api_Properties\<close>, \<open>System_Properties\<close>, \<open>App_Properties\<close>: properties of the request path, of the
    smaller parts, and of the composed application. \<open>App_Startup\<close>, \<open>App_Config\<close>: which
    settings and environments the application starts up with, and with which providers.

  \<^bold>\<open>Conventions.\<close> An operation takes the state and returns the result, the new state and its effects.
  Every raise is a value of \<open>exn\<close>. Python integers are \<open>int\<close>, floats are \<open>real\<close>: the
  benchmark rounds the result of every operation with \<open>double\<close>; the service computes with exact
  reals (the overflow of \<open>2 ** attempt\<close> beyond 1024 is modelled). SHA-256 works on 32-bit words. Clocks,
  results of awaited calls and what other tasks do to the shared router are the record \<open>env\<close>;
  \<open>env_ok\<close> says that the other tasks keep the router's invariant, which
  \<open>concurrent_requests_refine_generate\<close> discharges for tasks that are requests themselves.

  \<^bold>\<open>Concurrency.\<close> One asyncio loop serves a process, so between two awaits code runs undisturbed,
  and only awaits interleave: the retry loop inside \<open>generate\<close>, and the Redis commands. The retry
  loop neither reads nor writes the router. Each Redis command, the Lua script included, is atomic
  at the server; the check's two increments and everything other workers do interleave freely.
  In \<open>App_Steps\<close> a lookup or a store of the semantic cache is one step, as it is one Redis command.

  \<^bold>\<open>Termination and fuel.\<close> The retry loop terminates by the attempts left. The JSON reader recurses
  with fuel \<open>2 * length + 1\<close>; \<open>loads_fuel\<close> proves that it never runs out. No other definition
  uses fuel.

  \<^bold>\<open>Parameters\<close>, standing for code that is not in the repository: the Redis client, what a sent HTTP
  request yields, the parsers of pydantic-settings for numbers and truth values and its error, Unicode's lower, upper and case-folding tables, \<open>float\<close> of a string, rounding and
  number formats, the Prometheus page, the framework's reply when no route matches. Theorems state
  what they need of them as premises, and their witnesses instantiate them.

  \<^bold>\<open>Not modelled.\<close> How pydantic-settings finds and decodes the \<open>.env\<close> file; the exporters and internals of
  OpenTelemetry, Prometheus, structlog, FastAPI and httpx; parsing of the command line; Python's
  recursion limit; the rounding of the logged latency; cancellation of a request by its client; the
  empty placeholder packages.
\<close>

end
